(* ===== verification/Kernel_Prelude.thy ===== *)
theory Kernel_Prelude
  imports Main "HOL-Library.Word"
begin

text \<open>
  The shared vocabulary of the development: the machine integers of the kernel, the faults a
  Rust function can end in, sequencing of fallible code, checked arithmetic, the loop
  combinators the translated functions use, and generic lemmas on them.

  Conventions.
  \<^item> Fixed-width registers, addresses and bytes are words (\<open>u8\<close>, \<open>u16\<close>, \<open>u32\<close>, \<open>u64\<close>).
  \<^item> A \<open>usize\<close> that counts or indexes is a \<open>nat\<close>; every \<open>+\<close>, \<open>-\<close>, \<open>*\<close> and \<open>/\<close> the
    code performs on one is a checked operation below, because the kernel is built with
    \<^verbatim>\<open>cargo build\<close> (the debug profile), in which an overflowing operation panics.
  \<^item> A panic, and a dereference of a null pointer, is a value of type \<open>fault\<close> on the left of
    a sum; the kernel's panic handler halts the machine, so there is no state after it. A wait for a
    device that never answers is the value \<open>Hangs\<close>.
\<close>

section \<open>Machine integers and faults\<close>

unbundle bit_operations_syntax

type_synonym u8 = "8 word"
type_synonym u16 = "16 word"
type_synonym u32 = "32 word"
type_synonym u64 = "64 word"
type_synonym usize = nat

abbreviation usize_limit :: nat where
  "usize_limit \<equiv> 2 ^ 64"

datatype fault =
    Overflow              \<comment> \<open>an arithmetic operation overflowed (debug profile)\<close>
  | DivByZero
  | IndexOutOfBounds      \<comment> \<open>a slice or array index outside its bounds\<close>
  | Panicked string       \<comment> \<open>\<^verbatim>\<open>panic!\<close>, or \<^verbatim>\<open>expect\<close>/\<^verbatim>\<open>unwrap\<close> on a missing value\<close>
  | Todo                  \<comment> \<open>\<^verbatim>\<open>todo!()\<close>\<close>
  | BadPointer            \<comment> \<open>a null or dangling pointer was dereferenced\<close>
  | Hangs                 \<comment> \<open>the function never returns\<close>

type_synonym 'a res = "fault + 'a"

named_theorems res_simps \<open>sequencing and checked arithmetic\<close>
named_theorems loop_simps \<open>unfolding of the loop combinators\<close>

subsection \<open>Sequencing\<close>

definition bnd :: "'a res \<Rightarrow> ('a \<Rightarrow> 'b res) \<Rightarrow> 'b res" where
  "bnd r f = (case r of Inl e \<Rightarrow> Inl e | Inr x \<Rightarrow> f x)"

lemma bnd_Inl [simp]: "bnd (Inl e) f = Inl e"
  by (simp add: bnd_def)

lemma bnd_Inr [simp]: "bnd (Inr x) f = f x"
  by (simp add: bnd_def)

lemma bnd_cong [fundef_cong]:
  "r = r' \<Longrightarrow> (\<And>x. r' = Inr x \<Longrightarrow> f x = g x) \<Longrightarrow> bnd r f = bnd r' g"
  by (cases r') auto

lemma bnd_eq_Inr: "bnd r f = Inr y \<longleftrightarrow> (\<exists>x. r = Inr x \<and> f x = Inr y)"
  by (cases r) auto

lemma bnd_eq_Inl: "bnd r f = Inl e \<longleftrightarrow> r = Inl e \<or> (\<exists>x. r = Inr x \<and> f x = Inl e)"
  by (cases r) auto

lemma bnd_assoc: "bnd (bnd r f) g = bnd r (\<lambda>x. bnd (f x) g)"
  by (cases r) auto

text \<open>\<^verbatim>\<open>Option::expect\<close> and \<^verbatim>\<open>unwrap\<close>.\<close>

definition expect :: "string \<Rightarrow> 'a option \<Rightarrow> 'a res" where
  "expect msg x = (case x of None \<Rightarrow> Inl (Panicked msg) | Some v \<Rightarrow> Inr v)"

lemma expect_Some [simp]: "expect msg (Some v) = Inr v"
  by (simp add: expect_def)

lemma expect_None [simp]: "expect msg None = Inl (Panicked msg)"
  by (simp add: expect_def)

lemma expect_eq_Inr [simp]: "expect msg x = Inr v \<longleftrightarrow> x = Some v"
  by (cases x) auto

section \<open>Checked arithmetic\<close>

definition uadd :: "usize \<Rightarrow> usize \<Rightarrow> usize res" where
  "uadd x y = (if x + y < usize_limit then Inr (x + y) else Inl Overflow)"

definition usub :: "usize \<Rightarrow> usize \<Rightarrow> usize res" where
  "usub x y = (if y \<le> x then Inr (x - y) else Inl Overflow)"

definition umul :: "usize \<Rightarrow> usize \<Rightarrow> usize res" where
  "umul x y = (if x * y < usize_limit then Inr (x * y) else Inl Overflow)"

definition udiv :: "usize \<Rightarrow> usize \<Rightarrow> usize res" where
  "udiv x y = (if y = 0 then Inl DivByZero else Inr (x div y))"

definition umod :: "usize \<Rightarrow> usize \<Rightarrow> usize res" where
  "umod x y = (if y = 0 then Inl DivByZero else Inr (x mod y))"

definition wadd :: "'w::len word \<Rightarrow> 'w word \<Rightarrow> 'w word res" where
  "wadd x y = (if unat x + unat y < 2 ^ LENGTH('w) then Inr (x + y) else Inl Overflow)"

definition wsub :: "'w::len word \<Rightarrow> 'w word \<Rightarrow> 'w word res" where
  "wsub x y = (if y \<le> x then Inr (x - y) else Inl Overflow)"

definition wmul :: "'w::len word \<Rightarrow> 'w word \<Rightarrow> 'w word res" where
  "wmul x y = (if unat x * unat y < 2 ^ LENGTH('w) then Inr (x * y) else Inl Overflow)"

lemma uadd_eq_Inr [res_simps]: "uadd x y = Inr z \<longleftrightarrow> x + y < usize_limit \<and> z = x + y"
  by (auto simp: uadd_def)

lemma usub_eq_Inr [res_simps]: "usub x y = Inr z \<longleftrightarrow> y \<le> x \<and> z = x - y"
  by (auto simp: usub_def)

lemma umul_eq_Inr [res_simps]: "umul x y = Inr z \<longleftrightarrow> x * y < usize_limit \<and> z = x * y"
  by (auto simp: umul_def)

lemma udiv_eq_Inr [res_simps]: "udiv x y = Inr z \<longleftrightarrow> y \<noteq> 0 \<and> z = x div y"
  by (auto simp: udiv_def)

lemma umod_eq_Inr [res_simps]: "umod x y = Inr z \<longleftrightarrow> y \<noteq> 0 \<and> z = x mod y"
  by (auto simp: umod_def)

lemma wadd_eq_Inr [res_simps]:
  "wadd x y = Inr z \<longleftrightarrow> unat x + unat y < 2 ^ LENGTH('w) \<and> z = x + y"
  for x y z :: "'w::len word"
  by (auto simp: wadd_def)

lemma wsub_eq_Inr [res_simps]: "wsub x y = Inr z \<longleftrightarrow> y \<le> x \<and> z = x - y"
  by (auto simp: wsub_def)

lemma wmul_eq_Inr [res_simps]:
  "wmul x y = Inr z \<longleftrightarrow> unat x * unat y < 2 ^ LENGTH('w) \<and> z = x * y"
  for x y z :: "'w::len word"
  by (auto simp: wmul_def)

declare bnd_eq_Inr [res_simps]

lemma unat_wadd: "wadd x y = Inr z \<Longrightarrow> unat z = unat x + unat y"
  by (simp add: res_simps unat_word_ariths)

lemma unat_wsub: "wsub x y = Inr z \<Longrightarrow> unat z = unat x - unat y"
  by (simp add: res_simps unat_sub)

lemma unat_wmul: "wmul x y = Inr z \<Longrightarrow> unat z = unat x * unat y"
  by (simp add: res_simps unat_word_ariths)

lemma unat_of_nat_small [simp]: "n < 2 ^ LENGTH('w) \<Longrightarrow> unat (of_nat n :: 'w::len word) = n"
  by (simp add: unat_of_nat)

lemma unat_less_limit: "unat (w :: 'w::len word) < 2 ^ LENGTH('w)"
  by (rule unsigned_less)

lemma wadd_zero [simp]: "wadd x 0 = Inr x"
  using unat_less_limit[of x] by (simp add: wadd_def)

lemma bit_push_1: "bit (push_bit i 1 :: 'w::len word) n \<longleftrightarrow> n = i \<and> i < LENGTH('w)"
  by (auto simp: bit_exp_iff)

lemma and_bit_eq_0: "w AND push_bit i 1 = 0 \<longleftrightarrow> \<not> bit w i" if "i < LENGTH('w)" for w :: "'w::len word"
proof
  assume "w AND push_bit i 1 = 0"
  then have "\<not> bit (w AND push_bit i 1) i" by simp
  then show "\<not> bit w i" using that by (simp only: bit_and_iff bit_push_1) simp
next
  assume "\<not> bit w i"
  then show "w AND push_bit i 1 = 0" by (intro bit_word_eqI) (auto simp: bit_and_iff bit_exp_iff)
qed

lemma small_bits:
  assumes "bit x i" and "unat x < 2 ^ n"
  shows "i < n"
proof (rule ccontr)
  assume "\<not> i < n"
  then have "unat x div 2 ^ i = 0" using assms(2) power_increasing[of n i "2 :: nat"] by (simp add: order_less_le_trans)
  moreover have "bit (unat x) i" using assms(1) by (simp add: bit_unsigned_iff)
  ultimately show False by (simp add: bit_iff_odd)
qed

section \<open>Loops\<close>

text \<open>
  A Rust \<^verbatim>\<open>for i in a..b\<close> whose body may leave the function is \<open>for_loop a b body s\<close>:
  the body gets the index and the variables the loop changes, and answers \<open>Return r\<close>
  (the function returns \<open>r\<close>) or \<open>Continue s'\<close>. \<open>for_each\<close> is the loop without an
  early return.
\<close>

datatype ('r, 's) flow = Return 'r | Continue 's

function for_loop ::
  "nat \<Rightarrow> nat \<Rightarrow> (nat \<Rightarrow> 's \<Rightarrow> ('r, 's) flow res) \<Rightarrow> 's \<Rightarrow> ('r, 's) flow res" where
  "for_loop i n body s =
     (if i < n
      then bnd (body i s) (\<lambda>r. case r of
             Return x \<Rightarrow> Inr (Return x)
           | Continue s' \<Rightarrow> for_loop (Suc i) n body s')
      else Inr (Continue s))"
  by pat_completeness auto
termination
  by (relation "measure (\<lambda>(i, n, body, s). n - i)") auto

declare for_loop.simps [simp del]

lemma for_loop_done [simp, loop_simps]: "n \<le> i \<Longrightarrow> for_loop i n body s = Inr (Continue s)"
  by (simp add: for_loop.simps)

lemma for_loop_step [loop_simps]:
  "i < n \<Longrightarrow> for_loop i n body s =
     bnd (body i s) (\<lambda>r. case r of
         Return x \<Rightarrow> Inr (Return x)
       | Continue s' \<Rightarrow> for_loop (Suc i) n body s')"
  by (simp add: for_loop.simps)

function for_each :: "nat \<Rightarrow> nat \<Rightarrow> (nat \<Rightarrow> 's \<Rightarrow> 's res) \<Rightarrow> 's \<Rightarrow> 's res" where
  "for_each i n body s =
     (if i < n then bnd (body i s) (for_each (Suc i) n body) else Inr s)"
  by pat_completeness auto
termination
  by (relation "measure (\<lambda>(i, n, body, s). n - i)") auto

declare for_each.simps [simp del]

lemma for_each_done [simp, loop_simps]: "n \<le> i \<Longrightarrow> for_each i n body s = Inr s"
  by (simp add: for_each.simps)

lemma for_each_step [loop_simps]:
  "i < n \<Longrightarrow> for_each i n body s = bnd (body i s) (for_each (Suc i) n body)"
  by (simp add: for_each.simps)

text \<open>A rule for a loop that runs to its end: an invariant indexed by the loop variable.\<close>

lemma for_each_inv:
  assumes "\<And>i s. a \<le> i \<Longrightarrow> i < b \<Longrightarrow> P i s \<Longrightarrow> \<exists>s'. body i s = Inr s' \<and> P (Suc i) s'"
    and "a \<le> b" and "P a s"
  shows "\<exists>s'. for_each a b body s = Inr s' \<and> P b s'"
  using assms
proof (induction "b - a" arbitrary: a s)
  case 0
  then show ?case by simp
next
  case (Suc d)
  then have ab: "a < b" by simp
  from Suc.prems(1)[of a s] Suc.prems(3) ab
  obtain s1 where s1: "body a s = Inr s1" "P (Suc a) s1" by auto
  have "\<exists>s'. for_each (Suc a) b body s1 = Inr s' \<and> P b s'"
    using Suc.hyps(1)[of "Suc a" s1] Suc.hyps(2) Suc.prems(1) ab s1(2) by auto
  then show ?case by (simp add: for_each_step ab s1(1))
qed

text \<open>A loop that appends to a list, or fails for good.\<close>

lemma for_each_collect:
  assumes "\<And>i xs. a \<le> i \<Longrightarrow> i < b \<Longrightarrow> body i (st xs) = (if ok i then Inr (st (xs @ new i)) else Inl e)"
  shows "for_each a b body (st xs) = (if \<forall>i\<in>{a..<b}. ok i then Inr (st (xs @ concat (map new [a..<b]))) else Inl e)"
  using assms
proof (induction "b - a" arbitrary: a xs)
  case (Suc d)
  then have ab: "a < b" by simp
  then have split: "(\<forall>i\<in>{a..<b}. ok i) \<longleftrightarrow> ok a \<and> (\<forall>i\<in>{Suc a..<b}. ok i)" by (auto simp: Suc_le_eq le_less)
  have "for_each (Suc a) b body (st ys) = (if \<forall>i\<in>{Suc a..<b}. ok i then Inr (st (ys @ concat (map new [Suc a..<b]))) else Inl e)" for ys
    using Suc.hyps(1)[of "Suc a" ys] Suc.hyps(2) Suc.prems by simp
  then show ?case unfolding split using Suc.prems[of a xs] ab by (simp add: for_each_step upt_conv_Cons)
qed simp

text \<open>
  The search loop \<^verbatim>\<open>for i in a..b { if !p(i) { ...; return } }\<close>: it either passes over every
  index, or it stops at the least one whose body returns.
\<close>

lemma for_loop_search:
  assumes cont: "\<And>i. a \<le> i \<Longrightarrow> i < b \<Longrightarrow> \<not> hit i \<Longrightarrow> body i s = Inr (Continue s)"
    and ret: "\<And>i. a \<le> i \<Longrightarrow> i < b \<Longrightarrow> hit i \<Longrightarrow> body i s = bnd (out i) (\<lambda>r. Inr (Return r))"
  shows "for_loop a b body s =
     (case List.find hit [a..<b] of
        None \<Rightarrow> Inr (Continue s)
      | Some i \<Rightarrow> bnd (out i) (\<lambda>r. Inr (Return r)))"
  using assms
proof (induction "b - a" arbitrary: a)
  case 0
  then show ?case by simp
next
  case (Suc d)
  then have ab: "a < b" by simp
  show ?case
  proof (cases "hit a")
    case True
    then show ?thesis using ab Suc.prems(2)[of a]
      by (simp add: for_loop_step upt_conv_Cons bnd_assoc)
  next
    case False
    have "for_loop (Suc a) b body s =
        (case List.find hit [Suc a..<b] of None \<Rightarrow> Inr (Continue s)
         | Some i \<Rightarrow> bnd (out i) (\<lambda>r. Inr (Return r)))"
      using Suc.hyps(1)[of "Suc a"] Suc.hyps(2) Suc.prems ab by auto
    then show ?thesis using ab False Suc.prems(1)[of a]
      by (simp add: for_loop_step upt_conv_Cons)
  qed
qed

text \<open>A loop whose body never returns runs to its end.\<close>

lemma for_loop_no_return:
  assumes "\<And>i s x. body i s \<noteq> Inr (Return x)"
  shows "for_loop a b body s \<noteq> Inr (Return x)"
  using assms
proof (induction a b body s rule: for_loop.induct)
  case (1 a b body s)
  then show ?case by (subst for_loop.simps) (auto simp: bnd_eq_Inr split: flow.splits)
qed

text \<open>The same for a body that may change the variables, as long as an invariant holds.\<close>

lemma for_loop_search_inv:
  assumes cont: "\<And>i s. a \<le> i \<Longrightarrow> i < b \<Longrightarrow> Q s \<Longrightarrow> \<not> hit i \<Longrightarrow> \<exists>s'. body i s = Inr (Continue s') \<and> Q s'"
    and ret: "\<And>i s. a \<le> i \<Longrightarrow> i < b \<Longrightarrow> Q s \<Longrightarrow> hit i \<Longrightarrow> \<exists>r. body i s = Inr (Return r) \<and> R i r"
    and "Q s"
  shows "case List.find hit [a..<b] of
      None \<Rightarrow> \<exists>s'. for_loop a b body s = Inr (Continue s') \<and> Q s'
    | Some i \<Rightarrow> \<exists>r. for_loop a b body s = Inr (Return r) \<and> R i r"
  using assms
proof (induction "b - a" arbitrary: a s)
  case 0
  then show ?case by simp
next
  case (Suc d)
  then have ab: "a < b" by simp
  show ?case
  proof (cases "hit a")
    case True
    then show ?thesis using ab Suc.prems(2)[of a s] Suc.prems(3) by (auto simp: for_loop_step upt_conv_Cons)
  next
    case False
    then obtain t where t: "body a s = Inr (Continue t)" "Q t" using Suc.prems(1)[of a s] Suc.prems(3) ab by auto
    have "case List.find hit [Suc a..<b] of
        None \<Rightarrow> \<exists>s'. for_loop (Suc a) b body t = Inr (Continue s') \<and> Q s'
      | Some i \<Rightarrow> \<exists>r. for_loop (Suc a) b body t = Inr (Return r) \<and> R i r"
      using Suc.hyps(1)[of "Suc a" t] Suc.hyps(2) Suc.prems(1,2) t(2) ab by simp
    moreover have "for_loop a b body s = for_loop (Suc a) b body t" using ab t(1) by (simp add: for_loop_step)
    moreover have "List.find hit [a..<b] = List.find hit [Suc a..<b]" using ab False by (simp add: upt_conv_Cons)
    ultimately show ?thesis by (simp only:)
  qed
qed

lemma find_upt_Some:
  "List.find P [a..<b] = Some i \<longleftrightarrow> a \<le> i \<and> i < b \<and> P i \<and> (\<forall>j. a \<le> j \<and> j < i \<longrightarrow> \<not> P j)"
proof
  assume "List.find P [a..<b] = Some i"
  then obtain k where k: "k < length [a..<b]" "P ([a..<b] ! k)" "i = [a..<b] ! k"
      "\<forall>j<k. \<not> P ([a..<b] ! j)"
    by (auto simp: find_Some_iff)
  then have "i = a + k" and "k < b - a" by auto
  moreover have "\<not> P j" if "a \<le> j" "j < i" for j
    using k(4)[rule_format, of "j - a"] that \<open>i = a + k\<close> \<open>k < b - a\<close> by simp
  ultimately show "a \<le> i \<and> i < b \<and> P i \<and> (\<forall>j. a \<le> j \<and> j < i \<longrightarrow> \<not> P j)"
    using k(2,3) by auto
next
  assume "a \<le> i \<and> i < b \<and> P i \<and> (\<forall>j. a \<le> j \<and> j < i \<longrightarrow> \<not> P j)"
  then show "List.find P [a..<b] = Some i"
    by (auto simp: find_Some_iff intro!: exI[of _ "i - a"])
qed

lemma find_upt_None:
  "List.find P [a..<b] = None \<longleftrightarrow> (\<forall>i. a \<le> i \<and> i < b \<longrightarrow> \<not> P i)"
  by (auto simp: find_None_iff)

lemma concat_map_concat: "concat (map g (concat xss)) = concat (map (\<lambda>xs. concat (map g xs)) xss)"
  by (induction xss) simp_all

lemma concat_map_filter: "concat (map (\<lambda>x. if P x then [f x] else []) xs) = map f (filter P xs)"
  by (induction xs) simp_all

end
