(* ===== verification/Phys_Memory.thy ===== *)
theory Phys_Memory
  imports Kernel_Prelude
begin

text \<open>
  Physical memory as bytes, and the two views the kernel has of it. The boot loader maps
  physical memory twice: at its own addresses and at \<open>PHYS_BASE\<close> (the higher half). The
  kernel reaches a frame through either view, so a pointer \<open>p\<close> denotes the physical byte
  \<open>direct p\<close>, which is \<open>p\<close> without the bits of \<open>PHYS_BASE\<close>.
  Integers are stored in little-endian order, as on x86-64.
\<close>

section \<open>Addresses\<close>

text \<open>\<^verbatim>\<open>PAGE_SIZE\<close>, \<^verbatim>\<open>PHYS_BASE\<close> and \<^verbatim>\<open>PhysAddr\<close> of \<^verbatim>\<open>arch/x86_64/mm/pmm.rs\<close>.\<close>

definition PAGE_SIZE :: u64 where
  "PAGE_SIZE = 4096"

definition PHYS_BASE :: u64 where
  "PHYS_BASE = 0xffff800000000000"

datatype phys_addr = PhysAddr (as_u64: u64)

definition higher_half :: "phys_addr \<Rightarrow> phys_addr" where
  "higher_half a = PhysAddr (as_u64 a OR PHYS_BASE)"

definition lower_half :: "phys_addr \<Rightarrow> phys_addr" where
  "lower_half a = PhysAddr (as_u64 a AND NOT PHYS_BASE)"

definition remove_flags :: "phys_addr \<Rightarrow> phys_addr" where
  "remove_flags a = PhysAddr (as_u64 a AND 0x000ffffffffff000)"

text \<open>The physical byte a pointer denotes.\<close>

definition direct :: "u64 \<Rightarrow> u64" where
  "direct p = p AND NOT PHYS_BASE"

text \<open>The addresses both views cover: the lower half of the address space.\<close>

definition lower :: "u64 \<Rightarrow> bool" where
  "lower a \<longleftrightarrow> a < 0x800000000000"

lemma not_phys_base: "NOT PHYS_BASE = mask 47"
  by (simp add: PHYS_BASE_def mask_eq_exp_minus_1)

lemma PHYS_BASE_eq: "PHYS_BASE = NOT (mask 47)"
  by (simp add: PHYS_BASE_def mask_eq_exp_minus_1)

lemma lower_iff_mask: "lower a \<longleftrightarrow> a AND mask 47 = a"
  by (simp add: lower_def mask_eq_iff word_less_alt)

lemma direct_lower [simp]: "lower a \<Longrightarrow> direct a = a"
  by (simp add: direct_def not_phys_base lower_iff_mask)

lemma lower_direct [simp]: "lower (direct p)"
  by (simp add: lower_iff_mask direct_def not_phys_base and.assoc)

lemma direct_higher [simp]: "direct (a OR PHYS_BASE) = direct a"
  by (rule bit_word_eqI) (auto simp: direct_def bit_simps PHYS_BASE_eq)

lemma direct_plus [simp]: "lower a \<Longrightarrow> direct (a + PHYS_BASE) = a"
proof -
  assume a: "lower a"
  have "(a AND mask 47) AND NOT (mask 47) = 0"
    by (rule bit_word_eqI) (auto simp: bit_simps)
  then have "a AND PHYS_BASE = 0"
    using a by (simp add: lower_iff_mask PHYS_BASE_eq)
  then have "a + PHYS_BASE = a OR PHYS_BASE"
    by (simp add: disjunctive_add_eq_or)
  then show ?thesis using a by simp
qed

section \<open>Bytes\<close>

type_synonym memory = "u64 \<Rightarrow> u8"

definition load_bytes :: "memory \<Rightarrow> u64 \<Rightarrow> nat \<Rightarrow> u8 list" where
  "load_bytes m a n = map (\<lambda>i. m (a + of_nat i)) [0..<n]"

definition store_bytes :: "memory \<Rightarrow> u64 \<Rightarrow> u8 list \<Rightarrow> memory" where
  "store_bytes m a bs =
     (\<lambda>x. if unat (x - a) < length bs then bs ! unat (x - a) else m x)"

text \<open>\<^verbatim>\<open>ptr.write_bytes(v, n)\<close>.\<close>

definition fill_bytes :: "memory \<Rightarrow> u64 \<Rightarrow> u8 \<Rightarrow> nat \<Rightarrow> memory" where
  "fill_bytes m a v n = (\<lambda>x. if unat (x - a) < n then v else m x)"

lemma length_load_bytes [simp]: "length (load_bytes m a n) = n"
  by (simp add: load_bytes_def)

lemma nth_load_bytes [simp]: "i < n \<Longrightarrow> load_bytes m a n ! i = m (a + of_nat i)"
  by (simp add: load_bytes_def)

lemma load_store_same:
  "length bs \<le> 2 ^ 64 \<Longrightarrow> load_bytes (store_bytes m a bs) a (length bs) = bs"
  by (rule nth_equalityI) (auto simp: store_bytes_def)

text \<open>Two byte ranges of memory that do not meet.\<close>

definition apart :: "u64 \<Rightarrow> nat \<Rightarrow> u64 \<Rightarrow> nat \<Rightarrow> bool" where
  "apart a n b k \<longleftrightarrow> (\<forall>i<n. k \<le> unat (a + of_nat i - b))"

lemma load_store_apart:
  "apart a n b (length bs) \<Longrightarrow> load_bytes (store_bytes m b bs) a n = load_bytes m a n"
  by (rule nth_equalityI) (auto simp: store_bytes_def apart_def not_less)

lemma load_fill_apart:
  "apart a n b k \<Longrightarrow> load_bytes (fill_bytes m b v k) a n = load_bytes m a n"
  by (rule nth_equalityI) (auto simp: fill_bytes_def apart_def not_less)

lemma unat_plus_no_wrap: "unat a + i < 2 ^ 64 \<Longrightarrow> unat (a + of_nat i) = unat a + i" for a :: u64
  by (simp add: unat_word_ariths)

lemma unat_minus_word:
  "unat (x - a) = (if unat a \<le> unat x then unat x - unat a else unat x + 2 ^ 64 - unat a)"
  for x a :: u64
  by (simp add: unat_sub_if')

lemma load_fill_inside:
  assumes "unat b \<le> unat a" and "unat a + n \<le> unat b + k" and "unat a + n \<le> 2 ^ 64"
  shows "load_bytes (fill_bytes m b v k) a n = replicate n v"
proof (rule nth_equalityI)
  fix i assume "i < length (load_bytes (fill_bytes m b v k) a n)"
  then have i: "i < n" by simp
  then have "unat (a + of_nat i) = unat a + i"
    using assms(3) by (intro unat_plus_no_wrap) simp
  then have "unat (a + of_nat i - b) < k"
    using assms i by (simp add: unat_minus_word)
  then show "load_bytes (fill_bytes m b v k) a n ! i = replicate n v ! i"
    using i by (simp add: fill_bytes_def)
qed simp

lemma apart_if_disjoint:
  assumes "unat a + n \<le> 2 ^ 64" and "unat b + k \<le> 2 ^ 64"
    and "unat a + n \<le> unat b \<or> unat b + k \<le> unat a"
  shows "apart a n b k"
  unfolding apart_def
proof (intro allI impI)
  fix i assume i: "i < n"
  then have "unat (a + of_nat i) = unat a + i"
    using assms(1) by (intro unat_plus_no_wrap) simp
  then show "k \<le> unat (a + of_nat i - b)"
    using assms i by (auto simp: unat_minus_word)
qed

section \<open>Little-endian integers\<close>

definition to_le :: "nat \<Rightarrow> 'w::len word \<Rightarrow> u8 list" where
  "to_le n w = map (\<lambda>i. ucast (drop_bit (8 * i) w)) [0..<n]"

fun of_le :: "u8 list \<Rightarrow> 'w::len word" where
  "of_le [] = 0"
| "of_le (b # bs) = ucast b OR push_bit 8 (of_le bs)"

lemma length_to_le [simp]: "length (to_le n w) = n"
  by (simp add: to_le_def)

lemma bit_of_le:
  "bit (of_le bs :: 'w::len word) k \<longleftrightarrow>
     k < LENGTH('w) \<and> k div 8 < length bs \<and> bit (bs ! (k div 8)) (k mod 8)"
proof (induction bs arbitrary: k)
  case Nil
  then show ?case by simp
next
  case (Cons b bs)
  show ?case
  proof (cases "k < 8")
    case True
    then show ?thesis by (auto simp: bit_simps)
  next
    case False
    then have "k div 8 = Suc ((k - 8) div 8)" and "k mod 8 = (k - 8) mod 8"
      by (simp_all add: le_div_geq le_mod_geq)
    moreover have "\<not> bit b k" using False by (auto dest: bit_imp_le_length)
    ultimately show ?thesis using False Cons.IH[of "k - 8"] by (auto simp: bit_simps)
  qed
qed

lemma of_le_to_le: "8 * n = LENGTH('w) \<Longrightarrow> of_le (to_le n w) = w" for w :: "'w::len word"
  by (rule bit_word_eqI) (auto simp: bit_of_le to_le_def bit_simps less_mult_imp_div_less mult.commute)

lemma of_le_zero [simp]: "of_le (replicate n 0) = 0"
  by (induction n) auto

text \<open>The little-endian integer of \<open>n\<close> bytes at position \<open>k\<close>.\<close>

definition le_at :: "nat \<Rightarrow> nat \<Rightarrow> u8 list \<Rightarrow> 'w::len word" where
  "le_at k n bs = of_le (take n (drop k bs))"

definition load_u64 :: "memory \<Rightarrow> u64 \<Rightarrow> u64" where
  "load_u64 m a = of_le (load_bytes m a 8)"

definition store_u64 :: "memory \<Rightarrow> u64 \<Rightarrow> u64 \<Rightarrow> memory" where
  "store_u64 m a v = store_bytes m a (to_le 8 v)"

lemma load_store_u64 [simp]: "load_u64 (store_u64 m a v) a = v"
  using load_store_same[of "to_le 8 v" m a]
  by (simp add: load_u64_def store_u64_def of_le_to_le)

lemma load_store_u64_apart: "apart a 8 b 8 \<Longrightarrow> load_u64 (store_u64 m b v) a = load_u64 m a"
  by (simp add: load_u64_def store_u64_def load_store_apart)

end
