(* ===== verification/Bitmap.thy ===== *)
theory Bitmap
  imports Phys_Memory
begin

text \<open>
  \<^verbatim>\<open>utils/math.rs\<close> and \<^verbatim>\<open>utils/bitmap.rs\<close>: rounding division, and the bitmap every
  allocator of the kernel is built on. The locale \<open>bitset\<close> is the interface the allocators
  rely on (a finite set of numbers with test, insert and remove); their range loops and
  first-free searches are verified once against it, and the bitmap is an interpretation.
  \<^verbatim>\<open>Bitmap::new\<close> and \<^verbatim>\<open>Drop\<close> need the frame allocator and are in theory \<open>Pmm\<close>.
\<close>

section \<open>Rounding division\<close>

definition div_ceil :: "usize \<Rightarrow> usize \<Rightarrow> usize res" where
  "div_ceil x y = bnd (uadd x y) (\<lambda>t. bnd (usub t 1) (\<lambda>t. udiv t y))"

definition round_up :: "usize \<Rightarrow> usize \<Rightarrow> usize res" where
  "round_up number multiple =
     bnd (uadd number multiple) (\<lambda>t. bnd (usub t 1) (\<lambda>t. bnd (udiv t multiple) (\<lambda>q. umul q multiple)))"

text \<open>The reference: the quotient rounded towards plus infinity.\<close>

definition ceil_div :: "nat \<Rightarrow> nat \<Rightarrow> nat" where
  "ceil_div x y = (if y dvd x then x div y else x div y + 1)"

lemma div_shift_ceil:
  assumes y: "0 < (y::nat)"
  shows "(x + y - 1) div y = ceil_div x y"
proof -
  define q r where "q = x div y" and "r = x mod y"
  have x: "x = q * y + r" and r: "r < y"
    using y by (simp_all add: q_def r_def)
  show ?thesis
  proof (cases "r = 0")
    case True
    then have "x + y - 1 = q * y + (y - 1)" using x y by simp
    moreover have "(q * y + (y - 1)) div y = q"
      using y by (subst div_mult_self3) auto
    ultimately have "(x + y - 1) div y = q" by simp
    moreover have "y dvd x" using True by (simp add: r_def mod_eq_0_iff_dvd)
    ultimately show ?thesis by (simp add: ceil_div_def q_def)
  next
    case False
    then have "x + y - 1 = Suc q * y + (r - 1)" using x y by simp
    moreover have "(Suc q * y + (r - 1)) div y = Suc q"
      using r by (subst div_mult_self3) auto
    moreover have "\<not> y dvd x" using False by (simp add: r_def mod_eq_0_iff_dvd)
    ultimately show ?thesis by (simp add: ceil_div_def q_def)
  qed
qed

lemma div_ceil_eq:
  "0 < y \<Longrightarrow> x + y < usize_limit \<Longrightarrow> div_ceil x y = Inr (ceil_div x y)"
  by (simp add: div_ceil_def uadd_def usub_def udiv_def flip: div_shift_ceil)

lemma ceil_div_le: "0 < y \<Longrightarrow> x \<le> ceil_div x y * y"
proof (cases "y dvd x")
  case False
  assume y: "0 < y"
  have "x < Suc (x div y) * y" using y by (simp add: dividend_less_div_times)
  then show ?thesis using False by (simp add: ceil_div_def)
qed (simp add: ceil_div_def)

lemma ceil_div_least: "0 < y \<Longrightarrow> x \<le> k * y \<Longrightarrow> ceil_div x y \<le> k"
proof -
  assume y: "0 < y" and le: "x \<le> k * y"
  have "x div y \<le> k" using le y by (metis div_le_mono nonzero_mult_div_cancel_right not_gr0)
  moreover have "x div y \<noteq> k" if "\<not> y dvd x"
  proof
    assume "x div y = k"
    then have "k * y \<le> x" using y by (metis div_times_less_eq_dividend)
    with le have "x = k * y" by simp
    with that show False by simp
  qed
  ultimately show ?thesis by (fastforce simp: ceil_div_def)
qed

lemma ceil_div_mono_le: "0 < y \<Longrightarrow> ceil_div x y \<le> x"
  by (rule ceil_div_least) auto

lemma ceil_div_less: "0 < y \<Longrightarrow> ceil_div x y * y < x + y"
proof (cases "y dvd x")
  case False
  have "x div y * y \<le> x" by (rule div_times_less_eq_dividend)
  moreover have "x div y * y \<noteq> x" using False by (metis dvd_triv_right)
  ultimately have "x div y * y < x" by linarith
  then show ?thesis using False by (simp add: ceil_div_def)
qed (simp add: ceil_div_def)

lemma ceil_div_eqI:
  assumes "(n - 1) * y < x" and "x \<le> n * y"
  shows "ceil_div x y = n"
proof -
  have y: "0 < y" "0 < n" using assms by (auto intro: gr0I)
  have "(n - 1) * y < ceil_div x y * y" using assms(1) ceil_div_le[OF y(1), of x] by (rule less_le_trans)
  then have "n - 1 < ceil_div x y" using y by simp
  then show ?thesis using ceil_div_least[OF y(1) assms(2)] by simp
qed

section \<open>The set of bits behind an allocator\<close>

text \<open>
  \<open>claim_first\<close> is the loop \<^verbatim>\<open>for i in 0..n { if !is_set(i) { set(i); return Some(i) } } None\<close>
  of the allocators, over any pair of test and set operations.
\<close>

definition claim_first ::
  "('b \<Rightarrow> nat \<Rightarrow> bool res) \<Rightarrow> ('b \<Rightarrow> nat \<Rightarrow> 'b res) \<Rightarrow> nat \<Rightarrow> 'b \<Rightarrow> (nat \<times> 'b) option res" where
  "claim_first get put n b =
     bnd (for_loop 0 n
            (\<lambda>i y. bnd (get y i) (\<lambda>is_set.
               if \<not> is_set then bnd (put y i) (\<lambda>y. Inr (Return (i, y)))
               else Inr (Continue y))) b)
         (\<lambda>r. case r of Return x \<Rightarrow> Inr (Some x) | Continue _ \<Rightarrow> Inr None)"

locale bitset =
  fixes get :: "'b \<Rightarrow> nat \<Rightarrow> bool res"
    and put :: "'b \<Rightarrow> nat \<Rightarrow> 'b res"
    and clr :: "'b \<Rightarrow> nat \<Rightarrow> 'b res"
    and cap :: "'b \<Rightarrow> nat"
    and ones :: "'b \<Rightarrow> nat set"
    and shape :: "'b \<Rightarrow> 'c"
  assumes ones_cap: "ones b \<subseteq> {..<cap b}"
    and get_eq: "get b i = (if i < cap b then Inr (i \<in> ones b) else Inl IndexOutOfBounds)"
    and put_in: "i < cap b \<Longrightarrow> \<exists>b'. put b i = Inr b' \<and> ones b' = insert i (ones b)
        \<and> cap b' = cap b \<and> shape b' = shape b"
    and put_out: "cap b \<le> i \<Longrightarrow> put b i = Inl IndexOutOfBounds"
    and clr_in: "i < cap b \<Longrightarrow> \<exists>b'. clr b i = Inr b' \<and> ones b' = ones b - {i}
        \<and> cap b' = cap b \<and> shape b' = shape b"
    and clr_out: "cap b \<le> i \<Longrightarrow> clr b i = Inl IndexOutOfBounds"
begin

lemma put_range:
  assumes "i \<le> n" and "n \<le> cap b"
  shows "\<exists>b'. for_each i n (\<lambda>p y. put y p) b = Inr b' \<and> ones b' = ones b \<union> {i..<n}
      \<and> cap b' = cap b \<and> shape b' = shape b"
proof -
  let ?P = "\<lambda>k y. ones y = ones b \<union> {i..<k} \<and> cap y = cap b \<and> shape y = shape b"
  have "\<exists>b'. for_each i n (\<lambda>p y. put y p) b = Inr b' \<and> ?P n b'"
  proof (rule for_each_inv[where P = ?P])
    fix k y assume "i \<le> k" "k < n" "?P k y"
    then show "\<exists>y'. put y k = Inr y' \<and> ?P (Suc k) y'"
      using put_in[of k y] assms(2) by (auto simp: atLeastLessThanSuc)
  qed (use assms in auto)
  then show ?thesis .
qed

lemma clr_range:
  assumes "i \<le> n" and "n \<le> cap b"
  shows "\<exists>b'. for_each i n (\<lambda>p y. clr y p) b = Inr b' \<and> ones b' = ones b - {i..<n}
      \<and> cap b' = cap b \<and> shape b' = shape b"
proof -
  let ?P = "\<lambda>k y. ones y = ones b - {i..<k} \<and> cap y = cap b \<and> shape y = shape b"
  have "\<exists>b'. for_each i n (\<lambda>p y. clr y p) b = Inr b' \<and> ?P n b'"
  proof (rule for_each_inv[where P = ?P])
    fix k y assume "i \<le> k" "k < n" "?P k y"
    then show "\<exists>y'. clr y k = Inr y' \<and> ?P (Suc k) y'"
      using clr_in[of k y] assms(2) by (auto simp: atLeastLessThanSuc)
  qed (use assms in auto)
  then show ?thesis .
qed

lemma put_range_out:
  assumes "i < n" and "cap b < n"
  shows "for_each i n (\<lambda>p y. put y p) b = Inl IndexOutOfBounds"
  using assms
proof (induction "n - i" arbitrary: i b)
  case 0
  then show ?case by simp
next
  case (Suc d)
  show ?case
  proof (cases "i < cap b")
    case False
    then show ?thesis using Suc.prems by (simp add: for_each_step put_out)
  next
    case True
    then obtain y where y: "put b i = Inr y" "cap y = cap b" using put_in by blast
    then have "for_each (Suc i) n (\<lambda>p y. put y p) y = Inl IndexOutOfBounds"
      using Suc.hyps(1)[of "Suc i" y] Suc.hyps(2) Suc.prems True by simp
    then show ?thesis using Suc.prems y by (simp add: for_each_step)
  qed
qed

lemma claim_first_cases:
  assumes n: "n \<le> cap b"
  shows "claim_first get put n b = Inr None \<and> {..<n} \<subseteq> ones b
     \<or> (\<exists>i b'. claim_first get put n b = Inr (Some (i, b')) \<and> i < n \<and> i \<notin> ones b
          \<and> {..<i} \<subseteq> ones b \<and> ones b' = insert i (ones b) \<and> cap b' = cap b \<and> shape b' = shape b)"
proof -
  let ?body = "\<lambda>i y. bnd (get y i) (\<lambda>is_set.
      if \<not> is_set then bnd (put y i) (\<lambda>y. Inr (Return (i, y))) else Inr (Continue y))"
  have loop: "for_loop 0 n ?body b =
      (case List.find (\<lambda>i. i \<notin> ones b) [0..<n] of
         None \<Rightarrow> Inr (Continue b)
       | Some i \<Rightarrow> bnd (bnd (put b i) (\<lambda>y. Inr (i, y))) (\<lambda>r. Inr (Return r)))"
    by (rule for_loop_search) (use n in \<open>auto simp: get_eq bnd_assoc\<close>)
  show ?thesis
  proof (cases "List.find (\<lambda>i. i \<notin> ones b) [0..<n]")
    case None
    then have "{..<n} \<subseteq> ones b" by (auto simp: find_upt_None)
    then show ?thesis using loop None by (simp add: claim_first_def)
  next
    case (Some i)
    then have i: "i < n" "i \<notin> ones b" "{..<i} \<subseteq> ones b" by (auto simp: find_upt_Some)
    then obtain y where "put b i = Inr y" "ones y = insert i (ones b)" "cap y = cap b"
        "shape y = shape b"
      using put_in[of i b] n by auto
    then show ?thesis using loop Some i by (simp add: claim_first_def)
  qed
qed

end

section \<open>Bitmap\<close>

text \<open>
  \<^verbatim>\<open>pub struct Bitmap(&'static mut [u8], pub usize)\<close>: the bytes of the slice (which the bitmap
  borrows exclusively), where they start, and the size field.
\<close>

record bitmap =
  bm_ptr :: u64
  bm_data :: "u8 list"
  bm_size :: usize

definition bitmap_from_raw_ptr :: "memory \<Rightarrow> u64 \<Rightarrow> usize \<Rightarrow> bitmap" where
  "bitmap_from_raw_ptr m p len =
     \<lparr>bm_ptr = p, bm_data = load_bytes m (direct p) len, bm_size = len\<rparr>"

definition bit_mask :: "usize \<Rightarrow> u8" where
  "bit_mask b = push_bit (b mod 8) 1"

definition bitmap_set :: "bitmap \<Rightarrow> usize \<Rightarrow> bitmap res" where
  "bitmap_set bm b =
     (if b div 8 < length (bm_data bm)
      then Inr (bm\<lparr>bm_data := (bm_data bm)[b div 8 := bm_data bm ! (b div 8) OR bit_mask b]\<rparr>)
      else Inl IndexOutOfBounds)"

definition bitmap_toggle :: "bitmap \<Rightarrow> usize \<Rightarrow> bitmap res" where
  "bitmap_toggle bm b =
     (if b div 8 < length (bm_data bm)
      then Inr (bm\<lparr>bm_data := (bm_data bm)[b div 8 := bm_data bm ! (b div 8) XOR bit_mask b]\<rparr>)
      else Inl IndexOutOfBounds)"

definition bitmap_clear :: "bitmap \<Rightarrow> usize \<Rightarrow> bitmap res" where
  "bitmap_clear bm b =
     (if b div 8 < length (bm_data bm)
      then Inr (bm\<lparr>bm_data := (bm_data bm)[b div 8 := bm_data bm ! (b div 8) AND NOT (bit_mask b)]\<rparr>)
      else Inl IndexOutOfBounds)"

definition bitmap_is_set :: "bitmap \<Rightarrow> usize \<Rightarrow> bool res" where
  "bitmap_is_set bm b =
     (if b div 8 < length (bm_data bm)
      then Inr (bm_data bm ! (b div 8) AND bit_mask b \<noteq> 0)
      else Inl IndexOutOfBounds)"

subsection \<open>The set a bitmap denotes\<close>

definition bm_bits :: "bitmap \<Rightarrow> nat" where
  "bm_bits bm = 8 * length (bm_data bm)"

definition bm_ones :: "bitmap \<Rightarrow> nat set" where
  "bm_ones bm = {i. i < bm_bits bm \<and> bit (bm_data bm ! (i div 8)) (i mod 8)}"

definition bm_shape :: "bitmap \<Rightarrow> u64 \<times> usize" where
  "bm_shape bm = (bm_ptr bm, bm_size bm)"

text \<open>Every bitmap the code builds has a slice as long as its size field.\<close>

definition bm_wf :: "bitmap \<Rightarrow> bool" where
  "bm_wf bm \<longleftrightarrow> length (bm_data bm) = bm_size bm \<and> 8 * bm_size bm < usize_limit"

lemma bm_wf_bits: "bm_wf bm \<Longrightarrow> bm_bits bm = bm_size bm * 8"
  by (simp add: bm_wf_def bm_bits_def)

lemma bm_wf_shape: "bm_wf bm \<Longrightarrow> bm_bits bm' = bm_bits bm \<Longrightarrow> bm_shape bm' = bm_shape bm \<Longrightarrow> bm_wf bm'"
  by (simp add: bm_wf_def bm_bits_def bm_shape_def)

lemma bm_index: "b div 8 < length (bm_data bm) \<longleftrightarrow> b < bm_bits bm"
  by (auto simp: bm_bits_def less_mult_imp_div_less mult.commute div_less_iff_less_mult)

lemma and_bit_mask: "w AND bit_mask b \<noteq> 0 \<longleftrightarrow> bit w (b mod 8)" for w :: u8
proof -
  have "w AND push_bit n 1 \<noteq> 0 \<longleftrightarrow> bit w n" for n
    by (metis bit_iff_and_push_bit_not_eq_0)
  then show ?thesis by (simp add: bit_mask_def)
qed

lemma bit_bit_mask: "bit (bit_mask b) k \<longleftrightarrow> k = b mod 8"
  by (auto simp: bit_mask_def bit_simps)

lemma bm_ones_update:
  assumes b: "b < bm_bits bm"
    and other: "\<And>k. k < 8 \<Longrightarrow> k \<noteq> b mod 8 \<Longrightarrow> bit w k = bit (bm_data bm ! (b div 8)) k"
  shows "bm_ones (bm\<lparr>bm_data := (bm_data bm)[b div 8 := w]\<rparr>)
           = (if bit w (b mod 8) then insert b (bm_ones bm) else bm_ones bm - {b})"
proof -
  have len: "b div 8 < length (bm_data bm)" using b by (simp add: bm_index)
  have eq: "i = b \<longleftrightarrow> i div 8 = b div 8 \<and> i mod 8 = b mod 8" for i
    by (metis div_mult_mod_eq)
  have "i \<in> bm_ones (bm\<lparr>bm_data := (bm_data bm)[b div 8 := w]\<rparr>)
      \<longleftrightarrow> (if i = b then bit w (b mod 8) else i \<in> bm_ones bm)" for i
  proof (cases "i = b")
    case True
    then show ?thesis using b len by (simp add: bm_ones_def bm_bits_def)
  next
    case False
    then show ?thesis using len other[of "i mod 8"] eq[of i]
      by (auto simp: bm_ones_def bm_bits_def nth_list_update)
  qed
  then show ?thesis by (cases "bit w (b mod 8)") (simp_all only: set_eq_iff if_True if_False, auto)
qed

lemma bitmap_set_in:
  assumes "i < bm_bits bm"
  shows "\<exists>bm'. bitmap_set bm i = Inr bm' \<and> bm_ones bm' = insert i (bm_ones bm)
    \<and> bm_bits bm' = bm_bits bm \<and> bm_shape bm' = bm_shape bm"
  using assms bm_ones_update[of i bm "bm_data bm ! (i div 8) OR bit_mask i"]
  by (simp add: bitmap_set_def bm_index bm_bits_def bm_shape_def bit_or_iff bit_bit_mask)

lemma bitmap_clear_in:
  assumes "i < bm_bits bm"
  shows "\<exists>bm'. bitmap_clear bm i = Inr bm' \<and> bm_ones bm' = bm_ones bm - {i}
    \<and> bm_bits bm' = bm_bits bm \<and> bm_shape bm' = bm_shape bm"
  using assms bm_ones_update[of i bm "bm_data bm ! (i div 8) AND NOT (bit_mask i)"]
  by (simp add: bitmap_clear_def bm_index bm_bits_def bm_shape_def bit_and_iff bit_not_iff bit_bit_mask)

lemma bitmap_toggle_in:
  assumes "i < bm_bits bm"
  shows "\<exists>bm'. bitmap_toggle bm i = Inr bm'
    \<and> bm_ones bm' = (if i \<in> bm_ones bm then bm_ones bm - {i} else insert i (bm_ones bm))
    \<and> bm_bits bm' = bm_bits bm \<and> bm_shape bm' = bm_shape bm"
  using assms bm_ones_update[of i bm "bm_data bm ! (i div 8) XOR bit_mask i"]
  by (simp add: bitmap_toggle_def bm_index bm_bits_def bm_shape_def bit_xor_iff bit_bit_mask
      bm_ones_def)

interpretation bm: bitset bitmap_is_set bitmap_set bitmap_clear bm_bits bm_ones bm_shape
proof unfold_locales
  fix b i
  show "bm_ones b \<subseteq> {..<bm_bits b}" by (auto simp: bm_ones_def)
  show "bitmap_is_set b i = (if i < bm_bits b then Inr (i \<in> bm_ones b) else Inl IndexOutOfBounds)"
    by (simp add: bitmap_is_set_def bm_index and_bit_mask bm_ones_def)
  show "i < bm_bits b \<Longrightarrow> \<exists>b'. bitmap_set b i = Inr b' \<and> bm_ones b' = insert i (bm_ones b)
      \<and> bm_bits b' = bm_bits b \<and> bm_shape b' = bm_shape b"
    by (rule bitmap_set_in)
  show "i < bm_bits b \<Longrightarrow> \<exists>b'. bitmap_clear b i = Inr b' \<and> bm_ones b' = bm_ones b - {i}
      \<and> bm_bits b' = bm_bits b \<and> bm_shape b' = bm_shape b"
    by (rule bitmap_clear_in)
qed (simp_all add: bitmap_set_def bitmap_clear_def bm_index)

lemma bm_from_zeros:
  assumes "load_bytes m (direct p) len = replicate len 0" and "8 * len < usize_limit"
  shows "bm_ones (bitmap_from_raw_ptr m p len) = {}" and "bm_wf (bitmap_from_raw_ptr m p len)"
    and "bm_bits (bitmap_from_raw_ptr m p len) = 8 * len"
    and "bm_shape (bitmap_from_raw_ptr m p len) = (p, len)"
  using assms
  by (auto simp: bitmap_from_raw_ptr_def bm_ones_def bm_bits_def bm_wf_def bm_shape_def less_mult_imp_div_less
      mult.commute)

section \<open>Properties\<close>

text \<open>
  \<^verbatim>\<open>div_ceil\<close> returns the least \<open>q\<close> with \<open>x \<le> q * y\<close>, \<^verbatim>\<open>round_up\<close> the least multiple
  of \<open>y\<close> that is not below \<open>x\<close>, and neither panics, whenever \<open>x + y\<close> is a \<^verbatim>\<open>usize\<close> and \<open>y\<close>
  is positive; a zero divisor panics.
\<close>

lemma rounding_correct:
  assumes "0 < y" and "x + y < usize_limit"
  shows "\<exists>q. div_ceil x y = Inr q \<and> round_up x y = Inr (q * y)
      \<and> x \<le> q * y \<and> (\<forall>k. x \<le> k * y \<longrightarrow> q \<le> k)
      \<and> (\<exists>e. div_ceil x 0 = Inl e) \<and> (\<exists>e. round_up x 0 = Inl e)"
proof -
  have "round_up x y = Inr (ceil_div x y * y)"
    using assms ceil_div_less[OF assms(1), of x]
    by (simp add: round_up_def uadd_def usub_def udiv_def umul_def flip: div_shift_ceil)
  moreover have "\<exists>e. div_ceil x 0 = Inl e" "\<exists>e. round_up x 0 = Inl e"
    by (simp_all add: div_ceil_def round_up_def uadd_def usub_def udiv_def)
  ultimately show ?thesis
    using div_ceil_eq[OF assms] ceil_div_le[OF assms(1), of x] ceil_div_least[OF assms(1), of x]
    by blast
qed

lemma rounding_correct_witness:
  "\<exists>q. div_ceil 4097 4096 = Inr q \<and> round_up 4097 4096 = Inr (q * 4096)
      \<and> 4097 \<le> q * 4096 \<and> (\<forall>k. 4097 \<le> k * 4096 \<longrightarrow> q \<le> k)
      \<and> (\<exists>e. div_ceil 4097 0 = Inl e) \<and> (\<exists>e. round_up 4097 0 = Inl e)"
  by (rule rounding_correct) simp_all

text \<open>
  C26. The bitmap operations refine a finite set of numbers: \<^verbatim>\<open>is_set\<close> is membership, \<^verbatim>\<open>set\<close>
  inserts, \<^verbatim>\<open>clear\<close> removes and \<^verbatim>\<open>toggle\<close> flips exactly the bit it is given, all within the
  bits of the slice, and an index beyond them panics in each of them.
\<close>

theorem bitmap_refines_set:
  "(i < bm_bits bm \<longrightarrow>
      bitmap_is_set bm i = Inr (i \<in> bm_ones bm)
      \<and> map_sum id bm_ones (bitmap_set bm i) = Inr (insert i (bm_ones bm))
      \<and> map_sum id bm_ones (bitmap_clear bm i) = Inr (bm_ones bm - {i})
      \<and> map_sum id bm_ones (bitmap_toggle bm i)
          = Inr (if i \<in> bm_ones bm then bm_ones bm - {i} else insert i (bm_ones bm)))
   \<and> (bm_bits bm \<le> i \<longrightarrow>
      bitmap_is_set bm i = Inl IndexOutOfBounds \<and> bitmap_set bm i = Inl IndexOutOfBounds
      \<and> bitmap_clear bm i = Inl IndexOutOfBounds \<and> bitmap_toggle bm i = Inl IndexOutOfBounds)"
  using bitmap_set_in[of i bm] bitmap_clear_in[of i bm] bitmap_toggle_in[of i bm]
  by (auto simp: bm.get_eq bm.put_out bm.clr_out bitmap_toggle_def bm_index)

theorem bitmap_refines_set_witness:
  "let bm = \<lparr>bm_ptr = 0, bm_data = [0, 2], bm_size = 2\<rparr> in
     9 < bm_bits bm \<and> bitmap_is_set bm 9 = Inr True \<and> bitmap_is_set bm 16 = Inl IndexOutOfBounds"
  using bitmap_refines_set[of 9 "\<lparr>bm_ptr = 0, bm_data = [0, 2], bm_size = 2\<rparr>"]
    bitmap_refines_set[of 16 "\<lparr>bm_ptr = 0, bm_data = [0, 2], bm_size = 2\<rparr>"]
  by (simp add: bm_bits_def bm_ones_def bit_numeral_rec)

end
