(* ===== verification/Pmm.thy ===== *)
theory Pmm
  imports Bitmap
begin

text \<open>
  \<^verbatim>\<open>arch/x86_64/mm/pmm.rs\<close>: the physical frame allocator, the boxes of whole pages built on
  it, and the constructor and destructor of \<^verbatim>\<open>Bitmap\<close>. A set bit means that the frame is
  free. The locale \<open>frame_allocator\<close> is what the rest of the kernel relies on; both
  \<^verbatim>\<open>alloc\<close> and \<^verbatim>\<open>calloc\<close> implement it. Initialisation is in theory \<open>Pmm_Init\<close>.
  The state record is extended by the components above it, so that an operation here acts on
  the state of any of them. The mutex around the bitmap is taken and released within each
  operation and no operation is entered again under it, so a call is one atomic step.
  Messages on the serial line are not part of the state.
\<close>

section \<open>State\<close>

record pmm_state =
  mem :: memory
  page_allocator :: "bitmap option"

definition pmm_get :: "'z pmm_state_scheme \<Rightarrow> bitmap res" where
  "pmm_get s = expect ''The Pmm hasn't been initialized'' (page_allocator s)"

section \<open>Operations\<close>

definition alloc_step ::
  "usize \<Rightarrow> nat \<Rightarrow> bitmap \<times> usize \<Rightarrow> (phys_addr \<times> bitmap, bitmap \<times> usize) flow res" where
  "alloc_step pages i = (\<lambda>(bm, count).
     bnd (bitmap_is_set bm i) (\<lambda>is_set.
       if is_set then
         (let count = count + 1 in
          if count = pages then
            bnd (usub i pages) (\<lambda>t. bnd (uadd t 1) (\<lambda>page.
            bnd (uadd page pages) (\<lambda>last.
            bnd (for_each page last (\<lambda>p bm. bitmap_clear bm p) bm) (\<lambda>bm.
            bnd (wmul (of_nat page) PAGE_SIZE) (\<lambda>addr.
              Inr (Return (PhysAddr addr, bm)))))))
          else Inr (Continue (bm, count)))
       else Inr (Continue (bm, 0))))"

definition pmm_alloc ::
  "usize \<Rightarrow> 'z pmm_state_scheme \<Rightarrow> (phys_addr option \<times> 'z pmm_state_scheme) res" where
  "pmm_alloc pages s =
     bnd (pmm_get s) (\<lambda>bm. bnd (umul (bm_size bm) 8) (\<lambda>n.
     bnd (for_loop 0 n (alloc_step pages) (bm, 0)) (\<lambda>r. case r of
         Return (addr, bm) \<Rightarrow> Inr (Some addr, s\<lparr>page_allocator := Some bm\<rparr>)
       | Continue _ \<Rightarrow> Inr (None, s))))"

definition pmm_calloc ::
  "usize \<Rightarrow> 'z pmm_state_scheme \<Rightarrow> (phys_addr option \<times> 'z pmm_state_scheme) res" where
  "pmm_calloc pages s =
     bnd (pmm_alloc pages s) (\<lambda>(r, s). case r of
         Some a \<Rightarrow> bnd (umul pages (unat PAGE_SIZE)) (\<lambda>n.
             Inr (Some a, s\<lparr>mem := fill_bytes (mem s) (direct (as_u64 a)) 0 n\<rparr>))
       | None \<Rightarrow> Inr (None, s))"

definition pmm_free :: "u64 \<Rightarrow> usize \<Rightarrow> 'z pmm_state_scheme \<Rightarrow> 'z pmm_state_scheme res" where
  "pmm_free ptr pages_amnt s =
     (let page = (ptr AND NOT PHYS_BASE) div PAGE_SIZE in
      bnd (pmm_get s) (\<lambda>bm.
      bnd (wadd page (of_nat pages_amnt)) (\<lambda>last.
      bnd (for_each (unat page) (unat last) (\<lambda>i bm. bitmap_set bm i) bm) (\<lambda>bm.
        Inr (s\<lparr>page_allocator := Some bm\<rparr>)))))"

subsection \<open>Boxes and bitmaps of whole pages\<close>

record pmm_box =
  box_data :: u64
  page_cnt :: usize

definition pmm_box_new :: "usize \<Rightarrow> 'z pmm_state_scheme \<Rightarrow> (pmm_box \<times> 'z pmm_state_scheme) res" where
  "pmm_box_new sz s =
     bnd (div_ceil sz (unat PAGE_SIZE)) (\<lambda>alloc_size.
     bnd (pmm_calloc alloc_size s) (\<lambda>(r, s).
     bnd (expect ''PmmBox: could not allocate the pages needed'' r) (\<lambda>a.
       Inr (\<lparr>box_data = as_u64 (higher_half a), page_cnt = alloc_size\<rparr>, s))))"

definition pmm_box_drop :: "pmm_box \<Rightarrow> 'z pmm_state_scheme \<Rightarrow> 'z pmm_state_scheme res" where
  "pmm_box_drop b s = pmm_free (box_data b) (page_cnt b) s"

definition bitmap_new :: "usize \<Rightarrow> 'z pmm_state_scheme \<Rightarrow> (bitmap \<times> 'z pmm_state_scheme) res" where
  "bitmap_new sz s =
     bnd (div_ceil sz (unat PAGE_SIZE)) (\<lambda>pages.
     bnd (pmm_calloc pages s) (\<lambda>(r, s).
     bnd (expect ''Could not allocate the pages for the bitmap'' r) (\<lambda>a.
       Inr (bitmap_from_raw_ptr (mem s) (as_u64 (higher_half a)) sz, s))))"

definition bitmap_drop :: "bitmap \<Rightarrow> 'z pmm_state_scheme \<Rightarrow> 'z pmm_state_scheme res" where
  "bitmap_drop bm s =
     bnd (div_ceil (bm_size bm) (unat PAGE_SIZE)) (\<lambda>pages. pmm_free (bm_ptr bm) pages s)"

section \<open>Specification\<close>

definition free_frames :: "'z pmm_state_scheme \<Rightarrow> nat set" where
  "free_frames s = (case page_allocator s of None \<Rightarrow> {} | Some bm \<Rightarrow> bm_ones bm)"

definition frame_cnt :: "'z pmm_state_scheme \<Rightarrow> nat" where
  "frame_cnt s = (case page_allocator s of None \<Rightarrow> 0 | Some bm \<Rightarrow> bm_bits bm)"

text \<open>The allocator is initialised and manages frames of the lower half of the address space.\<close>

definition pmm_wf :: "'z pmm_state_scheme \<Rightarrow> bool" where
  "pmm_wf s \<longleftrightarrow> (\<exists>bm. page_allocator s = Some bm \<and> bm_wf bm \<and> bm_bits bm \<le> 2 ^ 35)"

definition first_fit :: "nat set \<Rightarrow> nat \<Rightarrow> nat \<Rightarrow> nat option" where
  "first_fit F n pages =
     (if pages = 0 then None else List.find (\<lambda>p. {p..<p + pages} \<subseteq> F) [0..<Suc n - pages])"

definition frame_addr :: "nat \<Rightarrow> phys_addr" where
  "frame_addr p = PhysAddr (of_nat p * PAGE_SIZE)"

section \<open>Lemmas\<close>

lemma unat_PAGE_SIZE [simp]: "unat PAGE_SIZE = 4096"
  by (simp add: PAGE_SIZE_def)

lemma unat_div_page: "unat (a div PAGE_SIZE) = unat a div 4096"
  by (simp add: unat_div)

lemma unat_frame_addr: "p < 2 ^ 52 \<Longrightarrow> unat (of_nat p * PAGE_SIZE) = p * 4096"
  by (simp add: unat_word_ariths)

lemma lower_frame: "p < 2 ^ 35 \<Longrightarrow> lower (of_nat p * PAGE_SIZE)"
  by (simp add: lower_def word_less_nat_alt unat_frame_addr)

lemma frame_addr_inject: "p < 2 ^ 52 \<Longrightarrow> q < 2 ^ 52 \<Longrightarrow> frame_addr p = frame_addr q \<longleftrightarrow> p = q"
proof -
  assume "p < 2 ^ 52" "q < 2 ^ 52"
  then have "as_u64 (frame_addr p) = as_u64 (frame_addr q) \<longleftrightarrow> p = q"
    by (simp add: frame_addr_def word_unat_eq_iff unat_frame_addr)
  then show ?thesis by (auto simp: frame_addr_def)
qed

lemma frame_div: "p < 2 ^ 52 \<Longrightarrow> (of_nat p * PAGE_SIZE) div PAGE_SIZE = of_nat p"
  by (simp add: word_unat_eq_iff unat_div unat_frame_addr)

lemma find_upt_skip:
  assumes "a \<le> b" and "\<And>p. a \<le> p \<Longrightarrow> p < b \<Longrightarrow> \<not> P p"
  shows "List.find P [a..<n] = List.find P [b..<n]"
proof (cases "List.find P [b..<n]")
  case None
  have "\<not> P i" if "a \<le> i" "i < n" for i
    using that assms(2)[of i] None[unfolded find_upt_None] by (cases "i < b") auto
  then have "List.find P [a..<n] = None" by (simp add: find_upt_None)
  then show ?thesis using None by simp
next
  case (Some i)
  then have i: "b \<le> i" "i < n" "P i" and below: "\<And>j. b \<le> j \<Longrightarrow> j < i \<Longrightarrow> \<not> P j"
    by (auto simp: find_upt_Some)
  have "\<not> P j" if "a \<le> j" "j < i" for j
    using that assms(2)[of j] below[of j] by (cases "j < b") auto
  then have "List.find P [a..<n] = Some i" using i assms(1) by (simp add: find_upt_Some)
  then show ?thesis using Some by simp
qed

text \<open>What the scan of \<open>pmm_alloc\<close> yields when the first run of free frames starts at \<open>q\<close>.\<close>

definition alloc_result ::
  "bitmap \<Rightarrow> usize \<Rightarrow> nat option \<Rightarrow> (phys_addr \<times> bitmap, bitmap \<times> usize) flow res \<Rightarrow> bool" where
  "alloc_result bm pages q r = (case q of
      None \<Rightarrow> (\<exists>c. r = Inr (Continue (bm, c)))
    | Some p \<Rightarrow> {p..<p + pages} \<subseteq> bm_ones bm \<and> p + pages \<le> bm_bits bm \<and>
       (p = 0 \<and> r = Inl Overflow
        \<or> (\<exists>bm'. 0 < p \<and> r = Inr (Return (frame_addr p, bm'))
            \<and> bm_ones bm' = bm_ones bm - {p..<p + pages}
            \<and> bm_bits bm' = bm_bits bm \<and> bm_shape bm' = bm_shape bm)))"

lemma alloc_hit:
  assumes "p + pages = Suc i" and "i < bm_bits bm" and "bm_bits bm \<le> 2 ^ 35" and "0 < pages"
    and "{p..<p + pages} \<subseteq> bm_ones bm"
  shows "alloc_result bm pages (Some p) (for_loop i (bm_bits bm) (alloc_step pages) (bm, pages - 1))"
proof (cases "p = 0")
  case True
  have "i \<in> bm_ones bm" using assms by auto
  then show ?thesis using assms True
    by (simp add: alloc_result_def for_loop_step alloc_step_def bm.get_eq usub_def Let_def)
next
  case False
  have i: "i \<in> bm_ones bm" using assms by auto
  have sub: "usub i pages = Inr (p - 1)" using False assms(1) by (simp add: usub_def)
  have p: "p < 2 ^ 35" "p + pages \<le> bm_bits bm" using assms by simp_all
  then obtain bm' where bm': "for_each p (p + pages) (\<lambda>p bm. bitmap_clear bm p) bm = Inr bm'"
      "bm_ones bm' = bm_ones bm - {p..<p + pages}" "bm_bits bm' = bm_bits bm" "bm_shape bm' = bm_shape bm"
    using bm.clr_range[of p "p + pages" bm] by auto
  have "unat (of_nat p :: u64) * unat PAGE_SIZE < 2 ^ 64" using p by simp
  then have "wmul (of_nat p) PAGE_SIZE = Inr (of_nat p * PAGE_SIZE)" by (simp add: wmul_def)
  then have "alloc_step pages i (bm, pages - 1) = Inr (Return (frame_addr p, bm'))"
    using False assms i sub bm' p by (simp add: alloc_step_def bm.get_eq uadd_def Let_def frame_addr_def)
  then show ?thesis using False assms(2,5) bm' p by (simp add: alloc_result_def for_loop_step)
qed

lemma alloc_loop:
  assumes "0 < pages" and "n = bm_bits bm" and "bm_bits bm \<le> 2 ^ 35"
    and "i \<le> n" and "c \<le> i" and "c < pages" and "{i - c..<i} \<subseteq> bm_ones bm"
  shows "alloc_result bm pages
      (List.find (\<lambda>p. {p..<p + pages} \<subseteq> bm_ones bm) [i - c..<Suc n - pages])
      (for_loop i n (alloc_step pages) (bm, c))"
  using assms(4-)
proof (induction "n - i" arbitrary: i c)
  case 0
  then have "[i - c..<Suc n - pages] = []" by simp
  with 0 show ?case by (simp add: alloc_result_def)
next
  case (Suc d)
  then have i: "i < n" "i < bm_bits bm" using assms(2) by simp_all
  show ?case
  proof (cases "i \<in> bm_ones bm")
    case False
    have "List.find (\<lambda>p. {p..<p + pages} \<subseteq> bm_ones bm) [i - c..<Suc n - pages]
        = List.find (\<lambda>p. {p..<p + pages} \<subseteq> bm_ones bm) [Suc i..<Suc n - pages]"
    proof (rule find_upt_skip)
      fix p assume "i - c \<le> p" "p < Suc i"
      then have "i \<in> {p..<p + pages}" using Suc.prems by auto
      then show "\<not> {p..<p + pages} \<subseteq> bm_ones bm" using False by blast
    qed simp
    moreover have "for_loop i n (alloc_step pages) (bm, c) = for_loop (Suc i) n (alloc_step pages) (bm, 0)"
      using i False by (simp add: for_loop_step alloc_step_def bm.get_eq)
    ultimately show ?thesis using Suc.hyps(1)[of "Suc i" 0] Suc.hyps(2) i assms(1) by simp
  next
    case True
    with Suc.prems have run: "{i - c..<Suc i} \<subseteq> bm_ones bm"
      by (auto simp: atLeastLessThanSuc)
    show ?thesis
    proof (cases "Suc c = pages")
      case False
      have "for_loop i n (alloc_step pages) (bm, c) = for_loop (Suc i) n (alloc_step pages) (bm, Suc c)"
        using i True False by (simp add: for_loop_step alloc_step_def bm.get_eq)
      moreover have "Suc i - Suc c = i - c" by simp
      ultimately show ?thesis
        using Suc.hyps(1)[of "Suc i" "Suc c"] Suc.hyps(2) Suc.prems i run False by simp
    next
      case last: True
      define p where "p = i - c"
      have p: "p + pages = Suc i" using last Suc.prems(2) by (simp add: p_def)
      then have sub: "{p..<p + pages} \<subseteq> bm_ones bm" using run by (simp add: p_def)
      have "List.find (\<lambda>p. {p..<p + pages} \<subseteq> bm_ones bm) [p..<Suc n - pages] = Some p"
        using sub p i(1) by (subst upt_conv_Cons) auto
      moreover have "c = pages - 1" using last by simp
      ultimately show ?thesis
        using alloc_hit[OF p i(2) assms(3,1) sub] assms(2) by (simp add: p_def)
    qed
  qed
qed

text \<open>Nothing is ever granted for a request of no pages, whatever the state: the counter of the search starts above it.\<close>

lemma alloc_step_zero: "alloc_step 0 i c \<noteq> Inr (Return x)"
  by (auto simp: alloc_step_def bnd_eq_Inr split: prod.splits if_splits)

lemma pmm_box_new_zero: "pmm_box_new 0 s \<noteq> Inr r"
proof -
  have "pmm_alloc 0 s \<noteq> Inr (Some a, s')" for a s'
    using for_loop_no_return[of "alloc_step 0", OF alloc_step_zero]
    by (auto simp: pmm_alloc_def bnd_eq_Inr split: flow.splits)
  then have "pmm_calloc 0 s \<noteq> Inr (Some a, s')" for a s'
    by (auto simp: pmm_calloc_def bnd_eq_Inr split: option.splits prod.splits)
  then show ?thesis by (auto simp: pmm_box_new_def div_ceil_def bnd_eq_Inr res_simps)
qed

lemma pmm_alloc_first_fit:
  assumes wf: "pmm_wf s"
  shows "case first_fit (free_frames s) (frame_cnt s) pages of
      None \<Rightarrow> pmm_alloc pages s = Inr (None, s)
    | Some p \<Rightarrow> {p..<p + pages} \<subseteq> free_frames s \<and> p + pages \<le> frame_cnt s \<and>
       (p = 0 \<and> pmm_alloc pages s = Inl Overflow
        \<or> (\<exists>s'. 0 < p \<and> pmm_alloc pages s = Inr (Some (frame_addr p), s') \<and> pmm_wf s'
             \<and> free_frames s' = free_frames s - {p..<p + pages} \<and> frame_cnt s' = frame_cnt s
             \<and> mem s' = mem s \<and> pmm_state.more s' = pmm_state.more s))"
proof -
  from wf obtain bm where bm: "page_allocator s = Some bm" "bm_wf bm" "bm_bits bm \<le> 2 ^ 35"
    by (auto simp: pmm_wf_def)
  have n: "umul (bm_size bm) 8 = Inr (bm_bits bm)"
    using bm(2) by (simp add: umul_def bm_wf_def bm_bits_def mult.commute)
  show ?thesis
  proof (cases "pages = 0")
    case True
    have "\<exists>c. for_loop i k (alloc_step 0) (bm, c0) = Inr (Continue (bm, c))" if "k \<le> bm_bits bm" for i k c0
      using that
    proof (induction "k - i" arbitrary: i c0)
      case (Suc d)
      then have "i < k" by simp
      then show ?case using Suc.hyps(1)[of "Suc i"] Suc.hyps(2) Suc.prems
        by (simp add: for_loop_step alloc_step_def bm.get_eq)
    qed simp
    from this[of "bm_bits bm" 0 0]
    obtain c where "for_loop 0 (bm_bits bm) (alloc_step 0) (bm, 0) = Inr (Continue (bm, c))" by auto
    then show ?thesis using True bm n by (simp add: first_fit_def pmm_alloc_def pmm_get_def)
  next
    case False
    have loop: "alloc_result bm pages
        (List.find (\<lambda>p. {p..<p + pages} \<subseteq> bm_ones bm) [0..<Suc (bm_bits bm) - pages])
        (for_loop 0 (bm_bits bm) (alloc_step pages) (bm, 0))"
      using alloc_loop[of pages "bm_bits bm" bm 0 0] bm(3) False by simp
    have ff: "first_fit (free_frames s) (frame_cnt s) pages =
        List.find (\<lambda>p. {p..<p + pages} \<subseteq> bm_ones bm) [0..<Suc (bm_bits bm) - pages]"
      using False bm(1) by (simp add: first_fit_def free_frames_def frame_cnt_def)
    have fr: "free_frames s = bm_ones bm" "frame_cnt s = bm_bits bm"
      using bm(1) by (simp_all add: free_frames_def frame_cnt_def)
    show ?thesis
    proof (cases "List.find (\<lambda>p. {p..<p + pages} \<subseteq> bm_ones bm) [0..<Suc (bm_bits bm) - pages]")
      case None
      then show ?thesis using loop bm n
        by (auto simp: ff alloc_result_def pmm_alloc_def pmm_get_def)
    next
      case (Some p)
      then show ?thesis using loop bm n
        unfolding ff
        by (auto simp: fr alloc_result_def pmm_alloc_def pmm_get_def pmm_wf_def free_frames_def
            frame_cnt_def intro: bm_wf_shape[OF bm(2)])
    qed
  qed
qed

lemma pmm_alloc_Some:
  assumes "pmm_wf s" and "pmm_alloc n s = Inr (Some a, s')"
  shows "\<exists>p. a = frame_addr p \<and> 0 < p \<and> 0 < n \<and> first_fit (free_frames s) (frame_cnt s) n = Some p
    \<and> {p..<p + n} \<subseteq> free_frames s \<and> p + n \<le> frame_cnt s
    \<and> free_frames s' = free_frames s - {p..<p + n} \<and> frame_cnt s' = frame_cnt s \<and> pmm_wf s'
    \<and> mem s' = mem s \<and> pmm_state.more s' = pmm_state.more s"
proof (cases "first_fit (free_frames s) (frame_cnt s) n")
  case None
  with pmm_alloc_first_fit[OF assms(1), of n] assms(2) show ?thesis by simp
next
  case (Some p)
  then have "0 < n" by (simp add: first_fit_def split: if_splits)
  with Some pmm_alloc_first_fit[OF assms(1), of n] assms(2) show ?thesis by auto
qed

lemma pmm_alloc_None:
  assumes "pmm_wf s" and "pmm_alloc n s = Inr (None, s')"
  shows "s' = s \<and> first_fit (free_frames s) (frame_cnt s) n = None"
  using pmm_alloc_first_fit[OF assms(1), of n] assms(2) by (auto split: option.splits)

lemma pmm_calloc_Some:
  assumes "pmm_wf s" and "pmm_calloc n s = Inr (Some a, s')"
  shows "\<exists>p. a = frame_addr p \<and> 0 < p \<and> 0 < n
    \<and> {p..<p + n} \<subseteq> free_frames s \<and> p + n \<le> frame_cnt s
    \<and> free_frames s' = free_frames s - {p..<p + n} \<and> frame_cnt s' = frame_cnt s \<and> pmm_wf s'
    \<and> mem s' = fill_bytes (mem s) (as_u64 a) 0 (n * 4096)
    \<and> pmm_state.more s' = pmm_state.more s"
proof -
  from assms(2) obtain s1 where s1: "pmm_alloc n s = Inr (Some a, s1)"
      "s' = s1\<lparr>mem := fill_bytes (mem s1) (direct (as_u64 a)) 0 (n * 4096)\<rparr>"
    by (auto simp: pmm_calloc_def res_simps split: option.splits)
  from pmm_alloc_Some[OF assms(1) s1(1)] obtain p where p: "a = frame_addr p" "0 < p" "0 < n"
      "{p..<p + n} \<subseteq> free_frames s" "p + n \<le> frame_cnt s"
      "free_frames s1 = free_frames s - {p..<p + n}" "frame_cnt s1 = frame_cnt s" "pmm_wf s1"
      "mem s1 = mem s" "pmm_state.more s1 = pmm_state.more s"
    by auto
  have "frame_cnt s \<le> 2 ^ 35" using assms(1) by (auto simp: pmm_wf_def frame_cnt_def)
  then have "lower (as_u64 a)" using p by (simp add: frame_addr_def lower_frame)
  then show ?thesis
    using p s1(2) by (auto simp: pmm_wf_def free_frames_def frame_cnt_def split: option.splits)
qed

lemma pmm_free_frames:
  assumes wf: "pmm_wf s" and p: "unat (direct ptr) div 4096 = p" and n: "p + n \<le> frame_cnt s"
  shows "\<exists>s'. pmm_free ptr n s = Inr s' \<and> free_frames s' = free_frames s \<union> {p..<p + n}
    \<and> frame_cnt s' = frame_cnt s \<and> pmm_wf s' \<and> mem s' = mem s
    \<and> pmm_state.more s' = pmm_state.more s"
proof -
  from wf obtain bm where bm: "page_allocator s = Some bm" "bm_wf bm" "bm_bits bm \<le> 2 ^ 35"
    by (auto simp: pmm_wf_def)
  have page: "unat ((ptr AND NOT PHYS_BASE) div PAGE_SIZE) = p"
    using p by (simp add: unat_div_page direct_def)
  have pn: "p + n \<le> bm_bits bm" using n bm(1) by (simp add: frame_cnt_def)
  then have "wadd ((ptr AND NOT PHYS_BASE) div PAGE_SIZE) (of_nat n)
      = Inr ((ptr AND NOT PHYS_BASE) div PAGE_SIZE + of_nat n)"
    using page bm(3) by (simp add: wadd_def)
  moreover have "unat ((ptr AND NOT PHYS_BASE) div PAGE_SIZE + of_nat n) = p + n"
    using unat_plus_no_wrap[of "(ptr AND NOT PHYS_BASE) div PAGE_SIZE" n] page pn bm(3) by simp
  moreover obtain bm' where "for_each p (p + n) (\<lambda>i bm. bitmap_set bm i) bm = Inr bm'"
      "bm_ones bm' = bm_ones bm \<union> {p..<p + n}" "bm_bits bm' = bm_bits bm" "bm_shape bm' = bm_shape bm"
    using bm.put_range[of p "p + n" bm] pn by auto
  ultimately show ?thesis using bm page
    by (auto simp: pmm_free_def pmm_get_def Let_def pmm_wf_def free_frames_def frame_cnt_def
        intro: bm_wf_shape[OF bm(2)])
qed

text \<open>Releasing frames the bitmap does not cover is caught by its bounds check.\<close>

lemma pmm_free_out:
  assumes wf: "pmm_wf s" and p: "unat (direct ptr) div 4096 = p" and n: "0 < n" "n < 2 ^ 63"
    and out: "frame_cnt s < p + n"
  shows "pmm_free ptr n s = Inl IndexOutOfBounds"
proof -
  from wf obtain bm where bm: "page_allocator s = Some bm" "bm_bits bm < p + n"
    using out by (auto simp: pmm_wf_def frame_cnt_def)
  have page: "unat ((ptr AND NOT PHYS_BASE) div PAGE_SIZE) = p"
    using p by (simp add: unat_div_page direct_def)
  have "unat (direct ptr) < 2 ^ 47" using lower_direct[of ptr] by (simp add: lower_def word_less_nat_alt)
  then have "p < 2 ^ 35" using p by (auto simp: less_mult_imp_div_less)
  then have no: "p + n < 2 ^ 64" using n by simp
  then have "wadd ((ptr AND NOT PHYS_BASE) div PAGE_SIZE) (of_nat n)
      = Inr ((ptr AND NOT PHYS_BASE) div PAGE_SIZE + of_nat n)"
    using page n by (simp add: wadd_def)
  moreover have "unat ((ptr AND NOT PHYS_BASE) div PAGE_SIZE + of_nat n) = p + n"
    using unat_plus_no_wrap[of "(ptr AND NOT PHYS_BASE) div PAGE_SIZE" n] page no by simp
  ultimately show ?thesis using bm page bm.put_range_out[of p "p + n" bm] n
    by (simp add: pmm_free_def pmm_get_def Let_def)
qed

section \<open>The contract of a frame allocator\<close>

text \<open>
  A client's history with an allocator: it holds blocks \<open>(p, n)\<close> of \<open>n\<close> frames from frame \<open>p\<close>,
  gets blocks granted and releases blocks it holds, through any pointer to the block.
\<close>

inductive frames_run ::
  "(usize \<Rightarrow> 's \<Rightarrow> (phys_addr option \<times> 's) res) \<Rightarrow> (u64 \<Rightarrow> usize \<Rightarrow> 's \<Rightarrow> 's res) \<Rightarrow> 's
    \<Rightarrow> 's \<times> (nat \<times> nat) list \<Rightarrow> bool"
  for alloc free s0 where
  start: "frames_run alloc free s0 (s0, [])"
| grant: "frames_run alloc free s0 (s, bs) \<Longrightarrow> alloc n s = Inr (Some a, s') \<Longrightarrow>
    frames_run alloc free s0 (s', (unat (as_u64 a) div 4096, n) # bs)"
| refuse: "frames_run alloc free s0 (s, bs) \<Longrightarrow> alloc n s = Inr (None, s') \<Longrightarrow>
    frames_run alloc free s0 (s', bs)"
| release: "frames_run alloc free s0 (s, xs @ (p, n) # ys) \<Longrightarrow> unat (direct ptr) = p * 4096 \<Longrightarrow>
    free ptr n s = Inr s' \<Longrightarrow> frames_run alloc free s0 (s', xs @ ys)"

definition owned :: "(nat \<times> nat) list \<Rightarrow> nat list" where
  "owned bs = concat (map (\<lambda>(p, n). [p..<p + n]) bs)"

lemma owned_simps [simp]:
  "owned [] = []" "owned ((p, n) # bs) = [p..<p + n] @ owned bs" "owned (xs @ ys) = owned xs @ owned ys"
  by (simp_all add: owned_def)

locale frame_allocator =
  fixes alloc :: "usize \<Rightarrow> 's \<Rightarrow> (phys_addr option \<times> 's) res"
    and free :: "u64 \<Rightarrow> usize \<Rightarrow> 's \<Rightarrow> 's res"
    and inv :: "'s \<Rightarrow> bool"
    and avail :: "'s \<Rightarrow> nat set"
    and cap :: "'s \<Rightarrow> nat"
  assumes avail_cap: "inv s \<Longrightarrow> avail s \<subseteq> {..<cap s}"
    and cap_bound: "inv s \<Longrightarrow> cap s \<le> 2 ^ 35"
    and alloc_some: "inv s \<Longrightarrow> alloc n s = Inr (Some a, s') \<Longrightarrow>
      \<exists>p. a = frame_addr p \<and> 0 < p \<and> 0 < n \<and> {p..<p + n} \<subseteq> avail s \<and> p + n \<le> cap s
        \<and> avail s' = avail s - {p..<p + n} \<and> inv s' \<and> cap s' = cap s"
    and alloc_none: "inv s \<Longrightarrow> alloc n s = Inr (None, s') \<Longrightarrow> s' = s"
    and free_ok: "inv s \<Longrightarrow> unat (direct ptr) = p * 4096 \<Longrightarrow> p + n \<le> cap s \<Longrightarrow>
      \<exists>s'. free ptr n s = Inr s' \<and> avail s' = avail s \<union> {p..<p + n} \<and> inv s' \<and> cap s' = cap s"
begin

lemma granted:
  assumes "inv s" and "alloc n s = Inr (Some a, s')"
  obtains p where "unat (as_u64 a) div 4096 = p" "0 < n" "{p..<p + n} \<subseteq> avail s" "p + n \<le> cap s"
    "avail s' = avail s - {p..<p + n}" "inv s'" "cap s' = cap s"
proof -
  from alloc_some[OF assms] obtain p where p: "a = frame_addr p" "0 < n" "{p..<p + n} \<subseteq> avail s"
      "p + n \<le> cap s" "avail s' = avail s - {p..<p + n}" "inv s'" "cap s' = cap s" by auto
  have "p < 2 ^ 52" using p(4) cap_bound[OF assms(1)] by simp
  then have "unat (as_u64 a) div 4096 = p" using p(1) by (simp add: frame_addr_def unat_frame_addr)
  then show ?thesis using that p by blast
qed

lemma run_inv:
  assumes "frames_run alloc free s0 (s, bs)" and "inv s0"
  shows "inv s \<and> cap s = cap s0 \<and> (\<forall>(p, n) \<in> set bs. 0 < n) \<and> distinct (owned bs)
    \<and> set (owned bs) \<inter> avail s = {} \<and> set (owned bs) \<union> avail s = avail s0"
  using assms
proof (induction "(s, bs)" arbitrary: s bs rule: frames_run.induct)
  case start
  then show ?case by simp
next
  case (grant s bs n a s')
  then have IH: "inv s" "cap s = cap s0" "\<forall>(p, n) \<in> set bs. 0 < n" "distinct (owned bs)"
      "set (owned bs) \<inter> avail s = {}" "set (owned bs) \<union> avail s = avail s0" by auto
  from granted[OF IH(1) grant.hyps(3)] obtain p where "unat (as_u64 a) div 4096 = p" "0 < n"
      "{p..<p + n} \<subseteq> avail s" "avail s' = avail s - {p..<p + n}" "inv s'" "cap s' = cap s" .
  then show ?case using IH by auto
next
  case (refuse s bs n s')
  then show ?case using alloc_none[of s n s'] by auto
next
  case (release s xs p n ys ptr s')
  then have IH: "inv s" "cap s = cap s0" "\<forall>(p, n) \<in> set (xs @ (p, n) # ys). 0 < n"
      "distinct (owned (xs @ (p, n) # ys))"
      "set (owned (xs @ (p, n) # ys)) \<inter> avail s = {}"
      "set (owned (xs @ (p, n) # ys)) \<union> avail s = avail s0" by auto
  have n: "0 < n" using IH(3) by auto
  then have "p + n - 1 \<in> set (owned (xs @ (p, n) # ys))" by auto
  then have "p + n - 1 \<in> avail s0" using IH(6) by blast
  then have "p + n \<le> cap s0" using avail_cap[OF release.prems] n by auto
  then show ?case using free_ok[OF IH(1) release.hyps(3), of n] release.hyps(4) IH by auto
qed

end

lemma pmm_wf_cap: "pmm_wf s \<Longrightarrow> free_frames s \<subseteq> {..<frame_cnt s} \<and> frame_cnt s \<le> 2 ^ 35"
  by (auto simp: pmm_wf_def free_frames_def frame_cnt_def dest!: subsetD[OF bm.ones_cap])

lemma pmm_free_ok:
  "pmm_wf s \<Longrightarrow> unat (direct ptr) = p * 4096 \<Longrightarrow> p + n \<le> frame_cnt s \<Longrightarrow>
    \<exists>s'. pmm_free ptr n s = Inr s' \<and> free_frames s' = free_frames s \<union> {p..<p + n} \<and> pmm_wf s'
      \<and> frame_cnt s' = frame_cnt s"
  using pmm_free_frames[of s ptr p n] by auto

lemma pmm_calloc_None: "pmm_wf s \<Longrightarrow> pmm_calloc n s = Inr (None, s') \<Longrightarrow> s' = s"
  using pmm_alloc_None[of s n]
  by (auto simp: pmm_calloc_def res_simps split: option.splits)

lemma calloc_one:
  assumes "pmm_wf s" "free_frames s \<noteq> {}" "0 \<notin> free_frames s"
  shows "\<exists>a s'. pmm_calloc 1 s = Inr (Some a, s')"
proof -
  from assms(2) obtain p where p: "p \<in> free_frames s" "p < frame_cnt s" using pmm_wf_cap[OF assms(1)] by auto
  have "first_fit (free_frames s) (frame_cnt s) 1 \<noteq> None"
    using p by (auto simp: first_fit_def find_upt_None)
  then obtain q where "first_fit (free_frames s) (frame_cnt s) 1 = Some q" by auto
  with pmm_alloc_first_fit[OF assms(1), of 1] assms(3)
  obtain s' where "pmm_alloc 1 s = Inr (Some (frame_addr q), s')" by (cases "q = 0") auto
  then show ?thesis by (auto simp: pmm_calloc_def umul_def)
qed

interpretation fa: frame_allocator pmm_alloc pmm_free pmm_wf free_frames frame_cnt
  by unfold_locales (use pmm_wf_cap pmm_alloc_Some pmm_alloc_None pmm_free_ok in blast)+

interpretation fc: frame_allocator pmm_calloc pmm_free pmm_wf free_frames frame_cnt
  by unfold_locales (use pmm_wf_cap pmm_calloc_Some pmm_calloc_None pmm_free_ok in blast)+

section \<open>Kernel pointers and contiguous regions\<close>

text \<open>The higher-half pointer to the start of a frame, which is how the kernel holds its pages.\<close>

definition kptr :: "nat \<Rightarrow> u64" where
  "kptr f = as_u64 (higher_half (frame_addr f))"

lemma kptr_plus: "f < 2 ^ 35 \<Longrightarrow> kptr f = of_nat f * PAGE_SIZE + PHYS_BASE"
proof -
  assume f: "f < 2 ^ 35"
  let ?a = "of_nat f * PAGE_SIZE"
  have "(?a AND mask 47) AND NOT (mask 47) = 0" by (rule bit_word_eqI) (auto simp: bit_simps)
  then have "?a AND PHYS_BASE = 0" using lower_frame[OF f] by (simp add: lower_iff_mask PHYS_BASE_eq)
  then show ?thesis by (simp add: kptr_def higher_half_def frame_addr_def disjunctive_add_eq_or)
qed

lemma unat_kptr: "f < 2 ^ 35 \<Longrightarrow> unat (kptr f) = 0xffff800000000000 + f * 4096"
  by (simp add: kptr_plus unat_word_ariths unat_frame_addr PHYS_BASE_def PAGE_SIZE_def)

lemma direct_kptr: "f < 2 ^ 35 \<Longrightarrow> direct (kptr f) = of_nat f * PAGE_SIZE"
  by (simp add: kptr_plus lower_frame)

lemma kptr_nonzero: "f < 2 ^ 35 \<Longrightarrow> kptr f \<noteq> 0"
  using unat_kptr[of f] by (metis add_is_0 unat_0 zero_neq_numeral)

lemma kptr_inject: "f < 2 ^ 35 \<Longrightarrow> g < 2 ^ 35 \<Longrightarrow> kptr f = kptr g \<longleftrightarrow> f = g"
  by (simp add: word_unat_eq_iff unat_kptr)

lemma calloc_frame:
  assumes "pmm_wf s" and "pmm_calloc n s = Inr (Some a, s')"
  shows "\<exists>f. as_u64 (higher_half a) = kptr f \<and> 0 < f \<and> 0 < n \<and> f + n \<le> 2 ^ 35
    \<and> {f..<f + n} \<subseteq> free_frames s \<and> free_frames s' = free_frames s - {f..<f + n} \<and> pmm_wf s'
    \<and> frame_cnt s' = frame_cnt s \<and> mem s' = fill_bytes (mem s) (of_nat f * PAGE_SIZE) 0 (n * 4096)
    \<and> pmm_state.more s' = pmm_state.more s"
proof -
  from pmm_calloc_Some[OF assms] obtain p where p: "a = frame_addr p" "0 < p" "0 < n"
      "{p..<p + n} \<subseteq> free_frames s" "p + n \<le> frame_cnt s"
      "free_frames s' = free_frames s - {p..<p + n}" "frame_cnt s' = frame_cnt s" "pmm_wf s'"
      "mem s' = fill_bytes (mem s) (as_u64 a) 0 (n * 4096)" "pmm_state.more s' = pmm_state.more s" by blast
  have "p + n \<le> 2 ^ 35" using p(5) pmm_wf_cap[OF assms(1)] by linarith
  moreover have "as_u64 (higher_half a) = kptr p" "as_u64 a = of_nat p * PAGE_SIZE"
    by (simp_all add: p(1) kptr_def frame_addr_def)
  ultimately show ?thesis using p(2-4,6-10) by metis
qed

lemma bitmap_new_effect:
  assumes wf: "pmm_wf s" and sz: "sz < 2 ^ 60" and new: "bitmap_new sz s = Inr (bm, s')"
  shows "\<exists>f. bm_ones bm = {} \<and> bm_wf bm \<and> bm_bits bm = 8 * sz \<and> bm_ptr bm = kptr f
    \<and> {f..<f + ceil_div sz 4096} \<subseteq> free_frames s
    \<and> free_frames s' = free_frames s - {f..<f + ceil_div sz 4096} \<and> pmm_wf s'
    \<and> pmm_state.more s' = pmm_state.more s"
proof -
  have dc: "div_ceil sz 4096 = Inr (ceil_div sz 4096)" using sz by (simp add: div_ceil_eq)
  from new dc obtain a where a: "pmm_calloc (ceil_div sz 4096) s = Inr (Some a, s')"
      "bm = bitmap_from_raw_ptr (mem s') (as_u64 (higher_half a)) sz"
    by (auto simp: bitmap_new_def res_simps)
  from calloc_frame[OF wf a(1)] obtain f where f0: "as_u64 (higher_half a) = kptr f" "f + ceil_div sz 4096 \<le> 2 ^ 35"
      "0 < ceil_div sz 4096" "{f..<f + ceil_div sz 4096} \<subseteq> free_frames s"
      "free_frames s' = free_frames s - {f..<f + ceil_div sz 4096}" "pmm_wf s'"
      "mem s' = fill_bytes (mem s) (of_nat f * PAGE_SIZE) 0 (ceil_div sz 4096 * 4096)"
      "pmm_state.more s' = pmm_state.more s" by blast
  have "f < 2 ^ 35" using f0(2,3) by linarith
  note f = f0(1,2) this f0(4-)
  have "unat (of_nat f * PAGE_SIZE) = f * 4096" using f(3) by (simp add: unat_frame_addr)
  then have "load_bytes (mem s') (direct (kptr f)) sz = replicate sz 0"
    using f ceil_div_le[of 4096 sz] by (simp add: direct_kptr load_fill_inside)
  then have "bm_ones bm = {}" "bm_wf bm" "bm_bits bm = 8 * sz" "bm_ptr bm = kptr f"
    using a(2) f(1) bm_from_zeros[of "mem s'" "kptr f" sz] sz by (simp_all add: bm_shape_def)
  then show ?thesis using f(4-6,8) by blast
qed

lemma calloc_region:
  assumes wf: "pmm_wf s" and fr: "free_frames s = {a..<b}" and "0 < a" "0 < n" "a + n \<le> b"
  shows "\<exists>s'. pmm_calloc n s = Inr (Some (frame_addr a), s') \<and> free_frames s' = {a + n..<b}
    \<and> pmm_wf s' \<and> pmm_state.more s' = pmm_state.more s"
proof -
  have cap: "b \<le> frame_cnt s" "frame_cnt s \<le> 2 ^ 35"
    using pmm_wf_cap[OF wf] fr assms(4,5) by (auto simp: lessThan_atLeast0 ivl_subset)
  have run: "{p..<p + n} \<subseteq> {a..<b} \<longleftrightarrow> a \<le> p \<and> p + n \<le> b" for p
    using assms(4) by (auto simp: ivl_subset)
  have "first_fit (free_frames s) (frame_cnt s) n = Some a"
    unfolding first_fit_def using assms cap by (auto simp: find_upt_Some fr run)
  with pmm_alloc_first_fit[OF wf, of n] assms(3)
  obtain s1 where "pmm_alloc n s = Inr (Some (frame_addr a), s1)" by auto
  moreover have "n * 4096 < usize_limit" using cap assms(5) by simp
  ultimately obtain s' where s': "pmm_calloc n s = Inr (Some (frame_addr a), s')"
    by (auto simp: pmm_calloc_def umul_def)
  from pmm_calloc_Some[OF wf this] obtain p where p: "frame_addr a = frame_addr p" "p + n \<le> frame_cnt s"
      "free_frames s' = free_frames s - {p..<p + n}" "pmm_wf s'" "pmm_state.more s' = pmm_state.more s" by auto
  have "p = a" using frame_addr_inject[of a p] p(1,2) cap assms(4,5) by simp
  moreover have "{a..<b} - {a..<a + n} = {a + n..<b}" by auto
  ultimately have "free_frames s' = {a + n..<b}" using p(3) fr by simp
  then show ?thesis using s' p(4,5) by blast
qed

lemma bitmap_new_region:
  assumes wf: "pmm_wf s" and fr: "free_frames s = {a..<b}" and "0 < a" "0 < sz" "sz < 2 ^ 60"
    and "a + ceil_div sz 4096 \<le> b"
  shows "\<exists>bm s'. bitmap_new sz s = Inr (bm, s') \<and> free_frames s' = {a + ceil_div sz 4096..<b}
    \<and> pmm_wf s' \<and> pmm_state.more s' = pmm_state.more s"
proof -
  have "div_ceil sz 4096 = Inr (ceil_div sz 4096)" using assms(5) by (simp add: div_ceil_eq)
  moreover have "0 < ceil_div sz 4096" using ceil_div_le[of 4096 sz] assms(4) by (cases "ceil_div sz 4096") auto
  ultimately show ?thesis using calloc_region[OF wf fr assms(3) _ assms(6)] by (auto simp: bitmap_new_def)
qed

section \<open>Properties\<close>

text \<open>
  C2. \<^verbatim>\<open>Pmm::alloc\<close> is first fit: it grants the lowest run of \<open>pages\<close> free frames and takes
  exactly these frames from the free set, changing nothing else; it returns \<^verbatim>\<open>None\<close> and leaves
  the state alone exactly when there is no such run (or none is asked for). The one other outcome
  is a run that starts at frame 0, where \<^verbatim>\<open>i - pages + 1\<close> underflows and the kernel panics.
\<close>

theorem pmm_alloc_is_first_fit:
  assumes "pmm_wf s"
  shows "case first_fit (free_frames s) (frame_cnt s) pages of
      None \<Rightarrow> pmm_alloc pages s = Inr (None, s)
    | Some p \<Rightarrow> {p..<p + pages} \<subseteq> free_frames s \<and> p + pages \<le> frame_cnt s \<and>
       (p = 0 \<and> pmm_alloc pages s = Inl Overflow
        \<or> (\<exists>s'. 0 < p \<and> pmm_alloc pages s = Inr (Some (frame_addr p), s') \<and> pmm_wf s'
             \<and> free_frames s' = free_frames s - {p..<p + pages} \<and> frame_cnt s' = frame_cnt s
             \<and> mem s' = mem s \<and> pmm_state.more s' = pmm_state.more s))"
  by (rule pmm_alloc_first_fit[OF assms])

lemmas pmm_eval = pmm_alloc_def pmm_calloc_def pmm_free_def pmm_get_def alloc_step_def Let_def
  umul_def uadd_def usub_def udiv_def wmul_def wadd_def wsub_def loop_simps PAGE_SIZE_def
  bitmap_is_set_def bitmap_set_def bitmap_clear_def bit_mask_def

text \<open>A machine with sixteen frames, of which frames 1, 4, 5, 6 and 9 are free.\<close>

definition sample_pmm :: pmm_state where
  "sample_pmm = \<lparr>mem = (\<lambda>_. 255), page_allocator = Some \<lparr>bm_ptr = PHYS_BASE, bm_data = [0x72, 2], bm_size = 2\<rparr>\<rparr>"

text \<open>Bitmaps whose bits are set from the ninth on, for the examples of the clients.\<close>

lemma upper_ones_many: "bm_ones \<lparr>bm_ptr = p, bm_data = 0 # replicate n (- 1), bm_size = m\<rparr> = {8..<8 * Suc n}"
proof -
  have "i \<in> bm_ones \<lparr>bm_ptr = p, bm_data = 0 # replicate n (- 1), bm_size = m\<rparr> \<longleftrightarrow> i \<in> {8..<8 * Suc n}" for i
  proof (cases "i < 8")
    case False
    then have "i div 8 = Suc (i div 8 - 1)" by (metis Suc_pred' div_greater_zero_iff leI zero_less_numeral)
    then have "i < 8 * Suc n \<Longrightarrow> (0 # replicate n (- 1 :: u8)) ! (i div 8) = - 1"
      using nth_Cons_Suc[of "0 :: u8" "replicate n (- 1)" "i div 8 - 1"] by (metis Suc_less_eq less_mult_imp_div_less mult.commute nth_replicate)
    then show ?thesis using False by (auto simp: bm_ones_def bm_bits_def)
  qed (auto simp: bm_ones_def)
  then show ?thesis by blast
qed

lemma upper_ones: "bm_ones \<lparr>bm_ptr = p, bm_data = [0, - 1], bm_size = n\<rparr> = {8..<16}"
  using upper_ones_many[of p 1 n] by simp

lemma sample_pmm_wf: "pmm_wf sample_pmm"
  by (simp add: pmm_wf_def sample_pmm_def bm_wf_def bm_bits_def)

lemma sample_pmm_alloc_2: "map_sum id fst (pmm_alloc 2 sample_pmm) = Inr (Some (frame_addr 4))"
  by (simp add: sample_pmm_def pmm_eval frame_addr_def)

theorem pmm_alloc_is_first_fit_witness:
  "pmm_wf sample_pmm
   \<and> (case first_fit (free_frames sample_pmm) (frame_cnt sample_pmm) 2 of
      None \<Rightarrow> pmm_alloc 2 sample_pmm = Inr (None, sample_pmm)
    | Some p \<Rightarrow> {p..<p + 2} \<subseteq> free_frames sample_pmm \<and> p + 2 \<le> frame_cnt sample_pmm \<and>
       (p = 0 \<and> pmm_alloc 2 sample_pmm = Inl Overflow
        \<or> (\<exists>s'. 0 < p \<and> pmm_alloc 2 sample_pmm = Inr (Some (frame_addr p), s') \<and> pmm_wf s'
             \<and> free_frames s' = free_frames sample_pmm - {p..<p + 2} \<and> frame_cnt s' = frame_cnt sample_pmm
             \<and> mem s' = mem sample_pmm \<and> pmm_state.more s' = pmm_state.more sample_pmm)))
   \<and> map_sum id fst (pmm_alloc 2 sample_pmm) = Inr (Some (frame_addr 4))"
  using sample_pmm_wf sample_pmm_alloc_2 pmm_alloc_is_first_fit[OF sample_pmm_wf, of 2] by blast

text \<open>
  C3. No frame is ever handed out twice and none is lost: however a client of the allocator
  interleaves successful and refused requests with releases of blocks it holds, the frames of its
  blocks are pairwise different and none of them is free, and together with the free frames they
  are exactly the frames that were free at the start.
\<close>

theorem pmm_frames_exclusive:
  assumes "frames_run pmm_alloc pmm_free s0 (s, bs)" and "pmm_wf s0"
  shows "distinct (owned bs) \<and> set (owned bs) \<inter> free_frames s = {}
    \<and> set (owned bs) \<union> free_frames s = free_frames s0"
  using fa.run_inv[OF assms] by blast

theorem pmm_frames_exclusive_witness:
  "\<exists>s. frames_run pmm_alloc pmm_free sample_pmm (s, [(4, 2)])
     \<and> distinct (owned [(4, 2)]) \<and> set (owned [(4, 2)]) \<inter> free_frames s = {}
     \<and> set (owned [(4, 2)]) \<union> free_frames s = free_frames sample_pmm"
proof -
  obtain s where s: "pmm_alloc 2 sample_pmm = Inr (Some (frame_addr 4), s)"
    using sample_pmm_alloc_2 by (cases "pmm_alloc 2 sample_pmm") auto
  have "unat (as_u64 (frame_addr 4)) div 4096 = 4"
    by (simp add: frame_addr_def PAGE_SIZE_def)
  then have "frames_run pmm_alloc pmm_free sample_pmm (s, [(4, 2)])"
    using frames_run.grant[OF frames_run.start[of pmm_alloc pmm_free sample_pmm] s] by simp
  then show ?thesis using pmm_frames_exclusive sample_pmm_wf by blast
qed

text \<open>
  Releasing a block that was just allocated, through its higher-half or its physical address,
  succeeds and restores the set of free frames.
\<close>

theorem pmm_alloc_free_roundtrip:
  assumes "pmm_wf s" and "pmm_alloc n s = Inr (Some a, s1)"
    and "ptr = as_u64 a \<or> ptr = as_u64 (higher_half a)"
  shows "\<exists>s2. pmm_free ptr n s1 = Inr s2 \<and> pmm_wf s2 \<and> free_frames s2 = free_frames s \<and> mem s2 = mem s"
proof -
  from pmm_alloc_Some[OF assms(1,2)] obtain p where p: "a = frame_addr p" "{p..<p + n} \<subseteq> free_frames s"
      "p + n \<le> frame_cnt s" "free_frames s1 = free_frames s - {p..<p + n}" "frame_cnt s1 = frame_cnt s"
      "pmm_wf s1" "mem s1 = mem s" "0 < n" by auto
  have "p < 2 ^ 35" using p(3,8) pmm_wf_cap[OF assms(1)] by simp
  then have "unat (direct ptr) div 4096 = p"
    using assms(3) p(1) by (auto simp: higher_half_def frame_addr_def lower_frame unat_frame_addr)
  then show ?thesis using pmm_free_frames[OF p(6), of ptr p n] p by auto
qed

theorem pmm_alloc_free_roundtrip_witness:
  "\<exists>s1 s2. pmm_alloc 2 sample_pmm = Inr (Some (frame_addr 4), s1)
     \<and> pmm_free (as_u64 (higher_half (frame_addr 4))) 2 s1 = Inr s2
     \<and> free_frames s2 = free_frames sample_pmm"
proof -
  obtain s where s: "pmm_alloc 2 sample_pmm = Inr (Some (frame_addr 4), s)"
    using sample_pmm_alloc_2 by (cases "pmm_alloc 2 sample_pmm") auto
  from pmm_alloc_free_roundtrip[OF sample_pmm_wf s] s show ?thesis by blast
qed

text \<open>
  \<^verbatim>\<open>Pmm::calloc\<close> grants frames that were free and clears every byte of them, and no other
  byte of memory changes.
\<close>

theorem pmm_calloc_zeroes:
  assumes "pmm_wf s" and "pmm_calloc n s = Inr (Some a, s')"
  shows "\<exists>p. a = frame_addr p \<and> {p..<p + n} \<subseteq> free_frames s \<and> free_frames s' = free_frames s - {p..<p + n}
    \<and> pmm_wf s' \<and> (\<forall>x. mem s' x = (if unat x div 4096 \<in> {p..<p + n} then 0 else mem s x))"
proof -
  from pmm_calloc_Some[OF assms] obtain p where p: "a = frame_addr p" "{p..<p + n} \<subseteq> free_frames s"
      "p + n \<le> frame_cnt s" "free_frames s' = free_frames s - {p..<p + n}" "pmm_wf s'"
      "mem s' = fill_bytes (mem s) (as_u64 a) 0 (n * 4096)" "0 < n" by auto
  have bound: "p + n \<le> 2 ^ 35" using p(3) pmm_wf_cap[OF assms(1)] by simp
  then have a: "unat (as_u64 a) = p * 4096" using p(1,7) by (simp add: frame_addr_def unat_frame_addr)
  have "unat (x - as_u64 a) < n * 4096 \<longleftrightarrow> unat x div 4096 \<in> {p..<p + n}" for x
  proof -
    have "unat x div 4096 \<in> {p..<p + n} \<longleftrightarrow> p * 4096 \<le> unat x \<and> unat x < (p + n) * 4096"
      by (simp add: less_eq_div_iff_mult_less_eq div_less_iff_less_mult)
    also have "\<dots> \<longleftrightarrow> unat (x - as_u64 a) < n * 4096"
      using bound by (auto simp: unat_minus_word a)
    finally show ?thesis by blast
  qed
  then show ?thesis using p by (auto simp: fill_bytes_def)
qed

theorem pmm_calloc_zeroes_witness:
  "\<exists>s'. pmm_calloc 1 sample_pmm = Inr (Some (frame_addr 1), s') \<and> mem s' 0x1000 = 0 \<and> mem s' 0x2000 = 255"
proof -
  have "map_sum id fst (pmm_calloc 1 sample_pmm) = Inr (Some (frame_addr 1))"
    by (simp add: sample_pmm_def pmm_eval frame_addr_def)
  then obtain s' where s': "pmm_calloc 1 sample_pmm = Inr (Some (frame_addr 1), s')"
    by (cases "pmm_calloc 1 sample_pmm") auto
  from pmm_calloc_zeroes[OF sample_pmm_wf s'] obtain p where p: "frame_addr 1 = frame_addr p"
      "{p..<p + 1} \<subseteq> free_frames sample_pmm"
      "\<forall>x. mem s' x = (if unat x div 4096 \<in> {p..<p + 1} then 0 else mem sample_pmm x)" by blast
  have "p < 2 ^ 35" using p(2) pmm_wf_cap[OF sample_pmm_wf] by auto
  then have "p = 1" using p(1) frame_addr_inject[of 1 p] by simp
  then show ?thesis using s' p(3) by (simp add: sample_pmm_def)
qed

text \<open>
  A box of pages is large enough for the size it was asked for and its pages are exclusively
  its own; dropping it gives back exactly its pages. A box of size 0 cannot be made: the request
  for zero pages is refused and the constructor panics.
\<close>

theorem pmm_box_lifecycle:
  assumes wf: "pmm_wf s" and sz: "sz + 4096 < usize_limit"
  shows "(sz = 0 \<longrightarrow> pmm_box_new sz s = Inl (Panicked ''PmmBox: could not allocate the pages needed''))
    \<and> (pmm_box_new sz s = Inr (b, s1) \<longrightarrow>
        sz \<le> page_cnt b * 4096 \<and> page_cnt b * 4096 < sz + 4096
        \<and> (\<exists>s2. pmm_box_drop b s1 = Inr s2 \<and> pmm_wf s2 \<and> free_frames s2 = free_frames s))"
proof (intro conjI impI)
  assume "sz = 0"
  have "pmm_alloc 0 s = Inr (None, s)" using pmm_alloc_first_fit[OF wf, of 0] by (simp add: first_fit_def)
  then show "pmm_box_new sz s = Inl (Panicked ''PmmBox: could not allocate the pages needed'')"
    using \<open>sz = 0\<close> by (simp add: pmm_box_new_def div_ceil_def pmm_eval pmm_calloc_def del: pmm_alloc_def)
next
  assume new: "pmm_box_new sz s = Inr (b, s1)"
  have dc: "div_ceil sz 4096 = Inr (ceil_div sz 4096)" using sz by (simp add: div_ceil_eq)
  from new dc obtain a where a: "pmm_calloc (ceil_div sz 4096) s = Inr (Some a, s1)"
      "b = \<lparr>box_data = as_u64 (higher_half a), page_cnt = ceil_div sz 4096\<rparr>"
    by (auto simp: pmm_box_new_def res_simps)
  show "sz \<le> page_cnt b * 4096" using a(2) ceil_div_le[of 4096 sz] by simp
  show "page_cnt b * 4096 < sz + 4096"
    using a(2) ceil_div_less[of 4096 sz] by simp
  from pmm_calloc_Some[OF wf a(1)] obtain p where p: "a = frame_addr p" "0 < ceil_div sz 4096"
      "{p..<p + ceil_div sz 4096} \<subseteq> free_frames s" "p + ceil_div sz 4096 \<le> frame_cnt s"
      "free_frames s1 = free_frames s - {p..<p + ceil_div sz 4096}" "frame_cnt s1 = frame_cnt s" "pmm_wf s1"
    by auto
  have "p < 2 ^ 35" using p(2,4) pmm_wf_cap[OF wf] by simp
  then have "unat (direct (box_data b)) div 4096 = p"
    using a(2) p(1) by (simp add: higher_half_def frame_addr_def lower_frame unat_frame_addr)
  then show "\<exists>s2. pmm_box_drop b s1 = Inr s2 \<and> pmm_wf s2 \<and> free_frames s2 = free_frames s"
    using pmm_free_frames[OF p(7), of "box_data b" p "page_cnt b"] a(2) p by (auto simp: pmm_box_drop_def)
qed

theorem pmm_box_lifecycle_witness:
  "\<exists>b s1 s2. pmm_box_new 8000 sample_pmm = Inr (b, s1) \<and> page_cnt b = 2 \<and> pmm_box_drop b s1 = Inr s2
     \<and> free_frames s2 = free_frames sample_pmm"
proof -
  have "map_sum id (\<lambda>(b, s). b) (pmm_box_new 8000 sample_pmm)
      = Inr \<lparr>box_data = as_u64 (higher_half (frame_addr 4)), page_cnt = 2\<rparr>"
    by (simp add: sample_pmm_def pmm_box_new_def div_ceil_def pmm_eval frame_addr_def)
  then obtain s1 where s1: "pmm_box_new 8000 sample_pmm
      = Inr (\<lparr>box_data = as_u64 (higher_half (frame_addr 4)), page_cnt = 2\<rparr>, s1)"
    by (cases "pmm_box_new 8000 sample_pmm") auto
  with pmm_box_lifecycle[OF sample_pmm_wf, of 8000] show ?thesis by fastforce
qed

end
