(* ===== verification/Pmm_Init.thy ===== *)
theory Pmm_Init
  imports Pmm
begin

text \<open>
  \<^verbatim>\<open>pmm::init\<close>: the frame allocator is set up from the boot loader's memory map. The bitmap is
  placed at the start of the first usable entry that can hold it, and every whole page of a usable
  entry is marked free.
\<close>

section \<open>Initialisation\<close>

text \<open>
  The fields of the boot loader's memory map entries that the code reads; the code tells
  these three entry types from all the others.
\<close>

datatype entry_type = Usable | BootloaderReclaimable | Kernel | OtherType

record memmap_entry =
  base :: u64
  length_field :: u64
  entry_type :: entry_type

fun init_biggest :: "memmap_entry list \<Rightarrow> u64 \<Rightarrow> u64 res" where
  "init_biggest [] biggest = Inr biggest"
| "init_biggest (entry # entries) biggest =
     (if entry_type entry \<in> {BootloaderReclaimable, Usable, Kernel}
      then bnd (wadd (base entry) (length_field entry)) (\<lambda>peak.
             init_biggest entries (if peak > biggest then peak else biggest))
      else init_biggest entries biggest)"

fun init_carve ::
  "u64 \<Rightarrow> memmap_entry list \<Rightarrow> memory \<Rightarrow> (u64 option \<times> memory \<times> memmap_entry list) res" where
  "init_carve bitmap_size [] m = Inr (None, m, [])"
| "init_carve bitmap_size (entry # entries) m =
     (if entry_type entry \<noteq> Usable \<or> length_field entry < bitmap_size
      then bnd (init_carve bitmap_size entries m) (\<lambda>(p, m, entries). Inr (p, m, entry # entries))
      else bnd (wadd (base entry) PHYS_BASE) (\<lambda>bitmap_ptr.
           let m = fill_bytes m (direct bitmap_ptr) 0 (unat bitmap_size) in
           bnd (wadd (base entry) bitmap_size) (\<lambda>b.
           bnd (wsub (length_field entry) bitmap_size) (\<lambda>l.
             Inr (Some bitmap_ptr, m, entry\<lparr>base := b, length_field := l\<rparr> # entries)))))"

fun init_mark :: "memmap_entry list \<Rightarrow> bitmap \<Rightarrow> bitmap res" where
  "init_mark [] bm = Inr bm"
| "init_mark (entry # entries) bm =
     (if entry_type entry \<noteq> Usable then init_mark entries bm
      else let page = base entry div PAGE_SIZE; len = length_field entry div PAGE_SIZE in
           bnd (wadd page len) (\<lambda>last.
           bnd (for_each (unat page) (unat last) (\<lambda>p bm. bitmap_set bm p) bm)
             (init_mark entries)))"

definition pmm_init ::
  "memmap_entry list \<Rightarrow> 'z pmm_state_scheme \<Rightarrow> (memmap_entry list \<times> 'z pmm_state_scheme) res" where
  "pmm_init entries s =
     bnd (init_biggest entries 0) (\<lambda>biggest.
     bnd (div_ceil (unat (biggest div PAGE_SIZE)) 8) (\<lambda>bitmap_size.
     bnd (init_carve (of_nat bitmap_size) entries (mem s)) (\<lambda>(ptr, m, entries).
     bnd (expect ''[PMM] Could not allocate the memory needed for the bitmap'' ptr) (\<lambda>bitmap_ptr.
     bnd (init_mark entries (bitmap_from_raw_ptr m bitmap_ptr bitmap_size)) (\<lambda>bm.
       Inr (entries, s\<lparr>mem := m, page_allocator := Some bm\<rparr>))))))"

section \<open>Specification\<close>

text \<open>The frames a usable entry contributes.\<close>

definition entry_frames :: "memmap_entry \<Rightarrow> nat set" where
  "entry_frames e = (if entry_type e = Usable
     then {unat (base e) div 4096 ..< unat (base e) div 4096 + unat (length_field e) div 4096} else {})"

text \<open>The entries end below the top of the lower half, as physical memory does.\<close>

definition memmap_ok :: "memmap_entry list \<Rightarrow> bool" where
  "memmap_ok entries \<longleftrightarrow> (\<forall>e \<in> set entries. unat (base e) + unat (length_field e) < 2 ^ 47)"

definition memmap_top :: "memmap_entry list \<Rightarrow> nat" where
  "memmap_top entries =
     Max (insert 0 {unat (base e) + unat (length_field e) | e. e \<in> set entries \<and> entry_type e \<noteq> OtherType})"

definition bitmap_bytes :: "memmap_entry list \<Rightarrow> nat" where
  "bitmap_bytes entries = ceil_div (memmap_top entries div 4096) 8"

definition holds_bitmap :: "nat \<Rightarrow> memmap_entry \<Rightarrow> bool" where
  "holds_bitmap k e \<longleftrightarrow> entry_type e = Usable \<and> k \<le> unat (length_field e)"

text \<open>The entry the bitmap is placed in, and what is left of it.\<close>

definition bitmap_home :: "memmap_entry list \<Rightarrow> memmap_entry option" where
  "bitmap_home entries =
     List.find (holds_bitmap (bitmap_bytes entries)) entries"

definition shrink :: "nat \<Rightarrow> memmap_entry \<Rightarrow> memmap_entry" where
  "shrink k e = e\<lparr>base := base e + of_nat k, length_field := length_field e - of_nat k\<rparr>"

fun shrink_first :: "nat \<Rightarrow> memmap_entry list \<Rightarrow> memmap_entry list" where
  "shrink_first k [] = []"
| "shrink_first k (e # es) = (if holds_bitmap k e then shrink k e # es else e # shrink_first k es)"

definition init_rest :: "memmap_entry list \<Rightarrow> memmap_entry list" where
  "init_rest entries = shrink_first (bitmap_bytes entries) entries"

text \<open>The bytes of an entry, and usable entries that do not overlap.\<close>

definition entry_bytes :: "memmap_entry \<Rightarrow> nat set" where
  "entry_bytes e = {unat (base e)..<unat (base e) + unat (length_field e)}"

fun entries_disjoint :: "memmap_entry list \<Rightarrow> bool" where
  "entries_disjoint [] = True"
| "entries_disjoint (e # es) = ((\<forall>x \<in> set es. entry_type e = Usable \<longrightarrow> entry_type x = Usable \<longrightarrow>
      entry_bytes e \<inter> entry_bytes x = {}) \<and> entries_disjoint es)"

section \<open>Lemmas\<close>

lemma div_add_le: "a div k + b div k \<le> (a + b) div (k::nat)"
  by (cases "k = 0") (simp_all add: div_add1_eq[of a b k])

lemma div_pred: "x mod n \<noteq> 0 \<Longrightarrow> (x - 1) div n = x div (n::nat)"
proof -
  assume r: "x mod n \<noteq> 0"
  define y where "y = x mod n - 1"
  have "x - 1 = y + x div n * n" using r div_mult_mod_eq[of x n] unfolding y_def by linarith
  moreover have "y < n \<or> n = 0" using mod_less_divisor[of n x] unfolding y_def by linarith
  ultimately show ?thesis by auto
qed

lemma memmap_ok_Cons [simp]:
  "memmap_ok (e # es) \<longleftrightarrow> unat (base e) + unat (length_field e) < 2 ^ 47 \<and> memmap_ok es"
  by (simp add: memmap_ok_def)

lemma memmap_top_Cons:
  "memmap_top (e # es) = (if entry_type e \<noteq> OtherType
     then max (unat (base e) + unat (length_field e)) (memmap_top es) else memmap_top es)"
proof -
  let ?S = "\<lambda>es. {unat (base e) + unat (length_field e) | e. e \<in> set es \<and> entry_type e \<noteq> OtherType}"
  have fin: "finite (?S es)" for es by (rule finite_subset[of _ "(\<lambda>e. unat (base e) + unat (length_field e)) ` set es"]) auto
  have "?S (e # es) = (if entry_type e \<noteq> OtherType
      then insert (unat (base e) + unat (length_field e)) (?S es) else ?S es)" by auto
  then show ?thesis using fin[of es]
    by (auto simp: memmap_top_def insert_commute[of 0] max.left_commute)
qed

lemma memmap_top_Nil [simp]: "memmap_top [] = 0"
  by (simp add: memmap_top_def)

lemma memmap_top_bound: "memmap_ok es \<Longrightarrow> memmap_top es < 2 ^ 47"
  by (induction es) (auto simp: memmap_top_Cons)

lemma memmap_top_ge:
  "e \<in> set es \<Longrightarrow> entry_type e \<noteq> OtherType \<Longrightarrow> unat (base e) + unat (length_field e) \<le> memmap_top es"
  by (induction es) (auto simp: memmap_top_Cons)

lemma counted_iff: "t \<in> {BootloaderReclaimable, Usable, Kernel} \<longleftrightarrow> t \<noteq> OtherType"
  by (cases t) auto

lemma init_biggest_eq:
  "memmap_ok es \<Longrightarrow> \<exists>top. init_biggest es b = Inr top \<and> unat top = max (unat b) (memmap_top es)"
proof (induction es arbitrary: b)
  case (Cons e es)
  then have "unat (base e) + unat (length_field e) < 2 ^ 64" by simp
  then have peak: "wadd (base e) (length_field e) = Inr (base e + length_field e)"
      "unat (base e + length_field e) = unat (base e) + unat (length_field e)"
    by (simp_all add: wadd_def unat_word_ariths)
  from Cons.prems have ok: "memmap_ok es" by simp
  show ?case
  proof (cases "entry_type e = OtherType")
    case True
    then show ?thesis using Cons.IH[OF ok, of b] by (simp add: memmap_top_Cons)
  next
    case False
    let ?b = "if b < base e + length_field e then base e + length_field e else b"
    have "unat ?b = max (unat b) (unat (base e) + unat (length_field e))"
      by (simp add: peak word_less_nat_alt)
    then show ?thesis
      using Cons.IH[OF ok, of ?b] False peak(1) counted_iff[of "entry_type e"]
      by (simp add: memmap_top_Cons max.assoc)
  qed
qed simp

text \<open>Loop 2: the first usable entry that is large enough gives up its first bytes.\<close>

lemma init_carve_eq:
  assumes "memmap_ok es" and k: "k < 2 ^ 47"
  shows "init_carve (of_nat k) es m =
    (case List.find (holds_bitmap k) es of
       None \<Rightarrow> Inr (None, m, es)
     | Some e \<Rightarrow> Inr (Some (base e + PHYS_BASE), fill_bytes m (base e) 0 k, shrink_first k es))"
  using assms(1)
proof (induction es)
  case (Cons e es)
  have small: "length_field e < of_nat k \<longleftrightarrow> \<not> k \<le> unat (length_field e)"
    using k by (simp add: word_less_nat_alt not_le)
  show ?case
  proof (cases "holds_bitmap k e")
    case False
    then show ?thesis using Cons small by (auto simp: holds_bitmap_def split: option.splits)
  next
    case True
    from Cons.prems have le: "unat (base e) + unat (length_field e) < 2 ^ 47" by simp
    then have "lower (base e)" by (simp add: lower_def word_less_nat_alt)
    moreover have "wadd (base e) PHYS_BASE = Inr (base e + PHYS_BASE)"
      using le by (simp add: wadd_def PHYS_BASE_def)
    moreover have "wadd (base e) (of_nat k) = Inr (base e + of_nat k)"
      using le k True by (simp add: wadd_def)
    moreover have "wsub (length_field e) (of_nat k) = Inr (length_field e - of_nat k)"
      using True small by (simp add: wsub_def not_less holds_bitmap_def)
    ultimately show ?thesis using True small k by (simp add: shrink_def holds_bitmap_def)
  qed
qed simp

text \<open>Loop 3: every whole page of a usable entry becomes free.\<close>

lemma init_mark_eq:
  assumes "\<And>e. e \<in> set es \<Longrightarrow> entry_type e = Usable \<Longrightarrow>
      unat (base e) div 4096 + unat (length_field e) div 4096 \<le> bm_bits bm"
  shows "\<exists>bm'. init_mark es bm = Inr bm' \<and> bm_ones bm' = bm_ones bm \<union> \<Union> (entry_frames ` set es)
      \<and> bm_bits bm' = bm_bits bm \<and> bm_shape bm' = bm_shape bm"
  using assms
proof (induction es arbitrary: bm)
  case (Cons e es)
  show ?case
  proof (cases "entry_type e = Usable")
    case False
    then show ?thesis using Cons.IH[of bm] Cons.prems by (simp add: entry_frames_def)
  next
    case True
    let ?p = "unat (base e) div 4096" and ?l = "unat (length_field e) div 4096"
    have bound: "?p + ?l \<le> bm_bits bm" using Cons.prems[of e] True by simp
    have "?p < 2 ^ 52" "?l < 2 ^ 52"
      using unat_less_limit[of "base e"] unat_less_limit[of "length_field e"] by (simp_all add: less_mult_imp_div_less)
    then have nw: "?p + ?l < 2 ^ 64" by simp
    have "wadd (base e div PAGE_SIZE) (length_field e div PAGE_SIZE)
        = Inr (base e div PAGE_SIZE + length_field e div PAGE_SIZE)"
      and "unat (base e div PAGE_SIZE + length_field e div PAGE_SIZE) = ?p + ?l"
      using nw by (simp_all add: wadd_def unat_div_page unat_word_ariths)
    moreover obtain b1 where b1: "for_each ?p (?p + ?l) (\<lambda>p bm. bitmap_set bm p) bm = Inr b1"
        "bm_ones b1 = bm_ones bm \<union> {?p..<?p + ?l}" "bm_bits b1 = bm_bits bm" "bm_shape b1 = bm_shape bm"
      using bm.put_range[of ?p "?p + ?l" bm] bound by auto
    moreover obtain b2 where "init_mark es b1 = Inr b2"
        "bm_ones b2 = bm_ones b1 \<union> \<Union> (entry_frames ` set es)" "bm_bits b2 = bm_bits b1"
        "bm_shape b2 = bm_shape b1"
      using Cons.IH[of b1] Cons.prems b1(3) by auto
    ultimately show ?thesis using True
      by (auto simp: Let_def unat_div_page entry_frames_def)
  qed
qed simp

lemma unat_shrink:
  assumes "k \<le> unat (length_field e)" and "unat (base e) + unat (length_field e) < 2 ^ 47"
  shows "unat (base (shrink k e)) = unat (base e) + k"
    and "unat (length_field (shrink k e)) = unat (length_field e) - k"
    and "entry_type (shrink k e) = entry_type e"
proof -
  have k: "k < 2 ^ 64" using assms by simp
  show "unat (base (shrink k e)) = unat (base e) + k"
    using assms by (simp add: shrink_def unat_plus_no_wrap)
  show "unat (length_field (shrink k e)) = unat (length_field e) - k"
    using assms k by (simp add: shrink_def unat_minus_word)
  show "entry_type (shrink k e) = entry_type e" by (simp add: shrink_def)
qed

lemma bitmap_homeD:
  assumes "bitmap_home entries = Some e"
  shows "e \<in> set entries" "entry_type e = Usable" "bitmap_bytes entries \<le> unat (length_field e)"
  using assms by (auto simp: bitmap_home_def find_Some_iff holds_bitmap_def)

lemma bitmap_bytes_bound: "memmap_ok entries \<Longrightarrow> bitmap_bytes entries \<le> 2 ^ 32"
proof -
  assume "memmap_ok entries"
  then have "memmap_top entries div 4096 \<le> 2 ^ 35"
    using memmap_top_bound[of entries] by (simp add: div_le_mono[of _ "2 ^ 47" 4096, simplified])
  then show ?thesis unfolding bitmap_bytes_def by (intro ceil_div_least) auto
qed

lemma init_rest_set:
  assumes "x \<in> set (init_rest entries)"
  shows "x \<in> set entries \<or> (\<exists>e. bitmap_home entries = Some e \<and> x = shrink (bitmap_bytes entries) e)"
proof -
  have "x \<in> set (shrink_first k es) \<Longrightarrow>
      x \<in> set es \<or> (\<exists>e. List.find (holds_bitmap k) es = Some e \<and> x = shrink k e)" for k es
    by (induction es) (auto split: if_splits)
  then show ?thesis using assms by (auto simp: init_rest_def bitmap_home_def)
qed

lemma init_rest_home:
  assumes "bitmap_home entries = Some e"
  shows "shrink (bitmap_bytes entries) e \<in> set (init_rest entries)"
proof -
  have "List.find (holds_bitmap k) es = Some e \<Longrightarrow> shrink k e \<in> set (shrink_first k es)" for k es
    by (induction es) (auto split: if_splits)
  then show ?thesis using assms by (simp add: init_rest_def bitmap_home_def)
qed

lemma pmm_init_cases:
  assumes ok: "memmap_ok entries"
  shows "case bitmap_home entries of
      None \<Rightarrow> pmm_init entries s
        = Inl (Panicked ''[PMM] Could not allocate the memory needed for the bitmap'')
    | Some e \<Rightarrow> \<exists>s'. pmm_init entries s = Inr (init_rest entries, s') \<and> pmm_wf s'
        \<and> free_frames s' = \<Union> (entry_frames ` set (init_rest entries))
        \<and> frame_cnt s' = 8 * bitmap_bytes entries
        \<and> mem s' = fill_bytes (mem s) (base e) 0 (bitmap_bytes entries)
        \<and> map_option bm_shape (page_allocator s') = Some (base e + PHYS_BASE, bitmap_bytes entries)
        \<and> pmm_state.more s' = pmm_state.more s"
proof -
  let ?k = "bitmap_bytes entries"
  have k: "?k \<le> 2 ^ 32" by (rule bitmap_bytes_bound[OF ok])
  obtain top where top: "init_biggest entries 0 = Inr top" "unat top = memmap_top entries"
    using init_biggest_eq[OF ok, of 0] by auto
  have dc: "div_ceil (unat (top div PAGE_SIZE)) 8 = Inr ?k"
    using memmap_top_bound[OF ok] top(2)
    by (simp add: div_ceil_eq unat_div_page bitmap_bytes_def div_le_dividend[THEN le_less_trans])
  have carve: "init_carve (of_nat ?k) entries (mem s) = (case bitmap_home entries of
      None \<Rightarrow> Inr (None, mem s, entries)
    | Some e \<Rightarrow> Inr (Some (base e + PHYS_BASE), fill_bytes (mem s) (base e) 0 ?k, init_rest entries))"
    unfolding bitmap_home_def init_rest_def by (rule init_carve_eq[OF ok]) (use k in simp)
  show ?thesis
  proof (cases "bitmap_home entries")
    case None
    then show ?thesis using top dc carve by (simp add: pmm_init_def)
  next
    case (Some e)
    note home = bitmap_homeD[OF Some]
    have le: "unat (base e) + unat (length_field e) < 2 ^ 47"
      using ok home(1) by (simp add: memmap_ok_def)
    then have low: "lower (base e)" by (simp add: lower_def word_less_nat_alt)
    let ?m = "fill_bytes (mem s) (base e) 0 ?k"
    let ?bm = "bitmap_from_raw_ptr ?m (base e + PHYS_BASE) ?k"
    have "load_bytes ?m (direct (base e + PHYS_BASE)) ?k = replicate ?k 0"
      using low le home(3) by (simp add: load_fill_inside)
    note bm = bm_from_zeros[OF this]
    have bits: "bm_ones ?bm = {}" "bm_wf ?bm" "bm_bits ?bm = 8 * ?k"
        "bm_shape ?bm = (base e + PHYS_BASE, ?k)"
      using bm k by simp_all
    have "unat (base x) div 4096 + unat (length_field x) div 4096 \<le> bm_bits ?bm"
      if x: "x \<in> set (init_rest entries)" "entry_type x = Usable" for x
    proof -
      have "unat (base x) + unat (length_field x) \<le> memmap_top entries"
        using init_rest_set[OF x(1)] memmap_top_ge[of x entries] memmap_top_ge[OF home(1)] x(2)
          unat_shrink[OF home(3) le] home(2,3) Some by auto
      then have "unat (base x) div 4096 + unat (length_field x) div 4096 \<le> memmap_top entries div 4096"
        by (meson div_add_le div_le_mono order_trans)
      also have "\<dots> \<le> 8 * ?k" using ceil_div_le[of 8 "memmap_top entries div 4096"]
        by (simp add: bitmap_bytes_def)
      finally show ?thesis by (simp add: bits)
    qed
    then obtain bm' where "init_mark (init_rest entries) ?bm = Inr bm'"
        "bm_ones bm' = \<Union> (entry_frames ` set (init_rest entries))"
        "bm_bits bm' = bm_bits ?bm" "bm_shape bm' = bm_shape ?bm"
      using init_mark_eq[of "init_rest entries" ?bm] bits(1) by auto
    then show ?thesis using Some top dc carve bits k
      by (auto simp: pmm_init_def pmm_wf_def free_frames_def frame_cnt_def intro: bm_wf_shape[OF bits(2)])
  qed
qed

text \<open>
  The frame that holds the last byte of the bitmap. The code rounds the base of the entry that
  is left down to a page, so this frame is marked free unless the bitmap ends on a page boundary.
\<close>

definition bitmap_last_frame :: "memmap_entry list \<Rightarrow> memmap_entry \<Rightarrow> nat" where
  "bitmap_last_frame entries e = (unat (base e) + bitmap_bytes entries - 1) div 4096"

lemma bitmap_last_frame_marked:
  assumes "memmap_ok entries" and home: "bitmap_home entries = Some e"
    and "unat (base e) mod 4096 = 0" and "bitmap_bytes entries mod 4096 \<noteq> 0"
    and "bitmap_bytes entries + 4096 \<le> unat (length_field e)"
  shows "bitmap_last_frame entries e \<in> entry_frames (shrink (bitmap_bytes entries) e)"
proof -
  let ?k = "bitmap_bytes entries"
  note h = bitmap_homeD[OF home]
  have le: "unat (base e) + unat (length_field e) < 2 ^ 47" using assms(1) h(1) by (simp add: memmap_ok_def)
  have "(unat (base e) + ?k) mod 4096 \<noteq> 0"
    using assms(3,4) by (simp add: mod_add_left_eq[of "unat (base e)" 4096 ?k, symmetric])
  then have "(unat (base e) + ?k - 1) div 4096 = (unat (base e) + ?k) div 4096"
    by (rule div_pred)
  moreover have "1 \<le> (unat (length_field e) - ?k) div 4096"
    using assms(5) by (simp add: div_le_mono[of 4096 _ 4096, simplified])
  ultimately show ?thesis
    using h(2) unat_shrink[OF h(3) le] by (simp add: entry_frames_def bitmap_last_frame_def)
qed

lemma entry_frames_bytes:
  assumes "f \<in> entry_frames e" and "unat (base e) mod 4096 = 0"
  shows "{f * 4096..<f * 4096 + 4096} \<subseteq> entry_bytes e"
proof -
  obtain b where b: "unat (base e) = b * 4096" using assms(2) by (metis mult.commute mod_0_imp_dvd dvdE)
  have f: "b \<le> f" "f < b + unat (length_field e) div 4096"
    using assms(1) b by (auto simp: entry_frames_def split: if_splits)
  have "(f - b + 1) * 4096 \<le> unat (length_field e)"
    using f by (simp add: less_eq_div_iff_mult_less_eq[symmetric])
  then show ?thesis using f(1) by (auto simp: entry_bytes_def b algebra_simps)
qed

lemma shrink_first_frames:
  assumes "entries_disjoint es" and "List.find (holds_bitmap k) es = Some e" and "memmap_ok es"
    and "\<forall>x \<in> set es. entry_type x = Usable \<longrightarrow> unat (base x) mod 4096 = 0" and "k mod 4096 = 0"
    and "x \<in> set (shrink_first k es)" and "f \<in> entry_frames x"
  shows "{f * 4096..<f * 4096 + 4096} \<inter> {unat (base e)..<unat (base e) + k} = {}"
  using assms
proof (induction es)
  case (Cons y es)
  have usable: "entry_type x = Usable" using Cons.prems(7) by (auto simp: entry_frames_def split: if_splits)
  have sub: "{unat (base e)..<unat (base e) + k} \<subseteq> entry_bytes e"
    if "holds_bitmap k e" using that by (auto simp: entry_bytes_def holds_bitmap_def)
  show ?case
  proof (cases "holds_bitmap k y")
    case True
    then have e: "e = y" using Cons.prems(2) by simp
    have le: "k \<le> unat (length_field y)" "unat (base y) + unat (length_field y) < 2 ^ 47" "entry_type y = Usable"
      using True Cons.prems(3) by (auto simp: holds_bitmap_def)
    from Cons.prems(6) True consider "x = shrink k y" | "x \<in> set es" by auto
    then show ?thesis
    proof cases
      case 1
      have "unat (base x) mod 4096 = 0"
        using 1 unat_shrink(1)[OF le(1,2)] Cons.prems(4,5) le(3) by (auto simp: mod_add_eq[symmetric])
      then have "{f * 4096..<f * 4096 + 4096} \<subseteq> entry_bytes x" using Cons.prems(7) by (rule entry_frames_bytes[rotated])
      then show ?thesis using 1 e unat_shrink[OF le(1,2)] by (auto simp: entry_bytes_def)
    next
      case 2
      then have "{f * 4096..<f * 4096 + 4096} \<subseteq> entry_bytes x"
        using Cons.prems(4,7) usable by (intro entry_frames_bytes) auto
      moreover have "entry_bytes y \<inter> entry_bytes x = {}" using Cons.prems(1) 2 usable le(3) by simp
      ultimately show ?thesis using sub True e by blast
    qed
  next
    case False
    then have find: "List.find (holds_bitmap k) es = Some e" using Cons.prems(2) by simp
    then have ee: "e \<in> set es" "holds_bitmap k e" by (auto simp: find_Some_iff)
    from Cons.prems(6) False consider "x = y" | "x \<in> set (shrink_first k es)" by auto
    then show ?thesis
    proof cases
      case 1
      then have "{f * 4096..<f * 4096 + 4096} \<subseteq> entry_bytes x"
        using Cons.prems(4,7) usable by (intro entry_frames_bytes) auto
      moreover have "entry_bytes x \<inter> entry_bytes e = {}"
        using Cons.prems(1) ee usable 1 by (auto simp: holds_bitmap_def)
      ultimately show ?thesis using sub ee(2) by blast
    next
      case 2
      then show ?thesis using Cons.IH find Cons.prems by simp
    qed
  qed
qed simp

section \<open>Properties\<close>

text \<open>
  C6. \<^verbatim>\<open>pmm::init\<close> on a memory map below the top of the lower half never runs out of the bitmap
  or overflows: it panics exactly when no usable entry can hold the bitmap, and otherwise places
  the bitmap at the start of the first one that can, clears it, and marks free exactly the whole
  pages of the usable entries that are left.
\<close>

theorem pmm_init_correct:
  assumes "memmap_ok entries"
  shows "case bitmap_home entries of
      None \<Rightarrow> pmm_init entries s
        = Inl (Panicked ''[PMM] Could not allocate the memory needed for the bitmap'')
    | Some e \<Rightarrow> \<exists>s'. pmm_init entries s = Inr (init_rest entries, s') \<and> pmm_wf s'
        \<and> free_frames s' = \<Union> (entry_frames ` set (init_rest entries))
        \<and> frame_cnt s' = 8 * bitmap_bytes entries
        \<and> mem s' = fill_bytes (mem s) (base e) 0 (bitmap_bytes entries)
        \<and> map_option bm_shape (page_allocator s') = Some (base e + PHYS_BASE, bitmap_bytes entries)
        \<and> pmm_state.more s' = pmm_state.more s"
  by (rule pmm_init_cases[OF assms])

text \<open>A reserved entry, and one usable entry of thirty pages from address \<open>0x1000\<close>.\<close>

definition sample_map :: "memmap_entry list" where
  "sample_map = [\<lparr>base = 0, length_field = 0x1000, entry_type = OtherType\<rparr>,
     \<lparr>base = 0x1000, length_field = 0x1e000, entry_type = Usable\<rparr>]"

lemma sample_map_facts:
  "memmap_ok sample_map" "bitmap_bytes sample_map = 4"
  "bitmap_home sample_map = Some \<lparr>base = 0x1000, length_field = 0x1e000, entry_type = Usable\<rparr>"
proof -
  show "memmap_ok sample_map" by (simp add: sample_map_def memmap_ok_def)
  show k: "bitmap_bytes sample_map = 4"
    by (simp add: bitmap_bytes_def sample_map_def memmap_top_Cons ceil_div_def)
  show "bitmap_home sample_map = Some \<lparr>base = 0x1000, length_field = 0x1e000, entry_type = Usable\<rparr>"
    unfolding bitmap_home_def k by (simp add: sample_map_def holds_bitmap_def)
qed

definition blank_pmm :: pmm_state where
  "blank_pmm = \<lparr>mem = (\<lambda>_. 0), page_allocator = None\<rparr>"

theorem pmm_init_correct_witness:
  "memmap_ok sample_map \<and> (\<exists>s'. pmm_init sample_map blank_pmm = Inr (init_rest sample_map, s')
     \<and> pmm_wf s' \<and> frame_cnt s' = 32 \<and> free_frames s' = {1..<30})"
proof -
  have "\<Union> (entry_frames ` set (init_rest sample_map)) = {1..<30}"
    unfolding init_rest_def sample_map_facts(2)
    by (simp add: sample_map_def holds_bitmap_def shrink_def entry_frames_def)
  then show ?thesis
    using pmm_init_correct[OF sample_map_facts(1), of blank_pmm] sample_map_facts by auto
qed

text \<open>
  C25. The bitmap does not protect itself: when the bitmap starts on a page boundary, its size is
  not a whole number of pages and at least a page of its entry is left, the frame with the last
  bytes of the bitmap is marked free by \<^verbatim>\<open>pmm::init\<close>, so a later \<^verbatim>\<open>calloc\<close> can hand it out and clear
  part of the live bitmap.
\<close>

theorem pmm_init_frees_bitmap_frame:
  assumes "memmap_ok entries" and "bitmap_home entries = Some e"
    and "unat (base e) mod 4096 = 0" and "bitmap_bytes entries mod 4096 \<noteq> 0"
    and "bitmap_bytes entries + 4096 \<le> unat (length_field e)"
  shows "\<exists>s'. pmm_init entries s = Inr (init_rest entries, s') \<and> bitmap_last_frame entries e \<in> free_frames s'"
  using pmm_init_cases[OF assms(1), of s] assms(2) bitmap_last_frame_marked[OF assms]
    init_rest_home[OF assms(2)] by auto

theorem pmm_init_frees_bitmap_frame_witness:
  "\<exists>s' b. pmm_init sample_map blank_pmm = Inr (init_rest sample_map, s')
     \<and> bitmap_home sample_map = Some b \<and> bitmap_last_frame sample_map b = 1 \<and> 1 \<in> free_frames s'"
  using pmm_init_frees_bitmap_frame[OF sample_map_facts(1) sample_map_facts(3), of blank_pmm]
  by (simp add: sample_map_facts bitmap_last_frame_def)

text \<open>
  When the usable entries are page aligned and do not overlap, and the bitmap fills whole pages,
  no frame of the bitmap is marked free.
\<close>

lemma pmm_init_keeps_whole_page_bitmap:
  assumes "memmap_ok entries" and "entries_disjoint entries" and "bitmap_home entries = Some e"
    and "\<forall>x \<in> set entries. entry_type x = Usable \<longrightarrow> unat (base x) mod 4096 = 0"
    and "bitmap_bytes entries mod 4096 = 0"
  shows "\<exists>s'. pmm_init entries s = Inr (init_rest entries, s')
    \<and> (\<forall>f \<in> free_frames s'. {f * 4096..<f * 4096 + 4096}
          \<inter> {unat (base e)..<unat (base e) + bitmap_bytes entries} = {})"
  using pmm_init_cases[OF assms(1), of s] assms(3)
    shrink_first_frames[OF assms(2) _ assms(1,4,5)]
  by (fastforce simp: bitmap_home_def init_rest_def)

text \<open>128 MiB of usable memory from address \<open>0x8000\<close>, up to \<open>0x8000000\<close>.\<close>

definition sample_map_128m :: "memmap_entry list" where
  "sample_map_128m = [\<lparr>base = 0x8000, length_field = 0x7ff8000, entry_type = Usable\<rparr>]"

lemma pmm_init_keeps_whole_page_bitmap_witness:
  "\<exists>s'. pmm_init sample_map_128m blank_pmm = Inr (init_rest sample_map_128m, s')
     \<and> (\<forall>f \<in> free_frames s'. {f * 4096..<f * 4096 + 4096} \<inter> {0x8000..<0x8000 + 4096} = {})"
proof -
  have k: "bitmap_bytes sample_map_128m = 4096"
    by (simp add: bitmap_bytes_def sample_map_128m_def memmap_top_Cons ceil_div_def)
  have home: "bitmap_home sample_map_128m = Some \<lparr>base = 0x8000, length_field = 0x7ff8000, entry_type = Usable\<rparr>"
    unfolding bitmap_home_def k by (simp add: sample_map_128m_def holds_bitmap_def)
  have "memmap_ok sample_map_128m" "entries_disjoint sample_map_128m"
    "\<forall>x \<in> set sample_map_128m. entry_type x = Usable \<longrightarrow> unat (base x) mod 4096 = 0"
    by (simp_all add: sample_map_128m_def memmap_ok_def)
  from pmm_init_keeps_whole_page_bitmap[OF this(1,2) home this(3), of blank_pmm]
  show ?thesis by (simp add: k)
qed

end
