(* ===== verification/Slab.thy ===== *)
theory Slab
  imports Pmm
begin

text \<open>
  \<^verbatim>\<open>mm/slab.rs\<close>: the kernel heap. A \<open>slab\<close> is a run of pages with a header and 256 objects of
  one size; a \<open>cache\<close> is a linked list of slabs of that size; the allocator is a linked list of
  caches. Caches and slabs live in pages of the frame allocator and refer to each other by raw
  pointers, so the state has a store from addresses to each of them; dereferencing null or an address
  that holds no such object is a fault.

  \<^verbatim>\<open>size_of::<Slab>()\<close> depends on the layout of the mutex of the \<^verbatim>\<open>spin\<close> crate; it is the parameter
  \<open>slab_hdr\<close> of the definitions.
  A loop along \<^verbatim>\<open>next\<close> pointers ends only if the list does: such a loop is a partial function with
  value \<^const>\<open>None\<close> when it does not end.
\<close>

section \<open>State\<close>

record slab =
  free_objs :: usize
  sl_object_size :: usize
  sl_data :: u64
  sl_bitmap :: bitmap
  sl_next :: u64
  sl_previous :: u64

record cache =
  cache_name :: string
  object_size :: usize
  pages_per_slab :: usize
  slab_count :: usize
  slabs :: u64
  cache_next :: u64

record slab_state = pmm_state +
  caches :: u64
  cache_at :: "u64 \<rightharpoonup> cache"
  slab_at :: "u64 \<rightharpoonup> slab"

definition OBJS_PER_SLAB :: usize where
  "OBJS_PER_SLAB = 256"

definition deref :: "(u64 \<rightharpoonup> 'a) \<Rightarrow> u64 \<Rightarrow> 'a res" where
  "deref h p = (if p = 0 then Inl BadPointer else case h p of None \<Rightarrow> Inl BadPointer | Some x \<Rightarrow> Inr x)"

section \<open>Slabs\<close>

definition slab_new ::
  "usize \<Rightarrow> cache \<Rightarrow> 'z slab_state_scheme \<Rightarrow> (u64 \<times> cache \<times> 'z slab_state_scheme) res" where
  "slab_new slab_hdr parent s =
     bnd (pmm_calloc (pages_per_slab parent) s) (\<lambda>(r, s).
     bnd (expect ''Could not allocate pages for the new slab'' r) (\<lambda>a.
     bnd (bitmap_new (unat PAGE_SIZE) s) (\<lambda>(bm, s).
     let slab_ptr = as_u64 (higher_half a);
         slab = \<lparr>free_objs = OBJS_PER_SLAB, sl_object_size = object_size parent,
                 sl_data = slab_ptr + of_nat slab_hdr, sl_bitmap = bm,
                 sl_next = slabs parent, sl_previous = 0\<rparr> in
     bnd (uadd (slab_count parent) 1) (\<lambda>cnt.
       Inr (slab_ptr, parent\<lparr>slabs := slab_ptr, slab_count := cnt\<rparr>,
            s\<lparr>slab_at := (slab_at s)(slab_ptr \<mapsto> slab)\<rparr>)))))"

text \<open>\<^verbatim>\<open>Slab::alloc\<close>: the address of the object, null (0) when there is none.\<close>

definition slab_alloc :: "slab \<Rightarrow> (u64 \<times> slab) res" where
  "slab_alloc sl =
     (if free_objs sl = 0 then Inr (0, sl)
      else bnd (claim_first bitmap_is_set bitmap_set OBJS_PER_SLAB (sl_bitmap sl)) (\<lambda>r. case r of
          Some (i, bm) \<Rightarrow>
            bnd (usub (free_objs sl) 1) (\<lambda>f.
            bnd (umul i (sl_object_size sl)) (\<lambda>off.
              Inr (sl_data sl + of_nat off, sl\<lparr>free_objs := f, sl_bitmap := bm\<rparr>)))
        | None \<Rightarrow> Inr (0, sl)))"

definition slab_dealloc :: "u64 \<Rightarrow> slab \<Rightarrow> slab res" where
  "slab_dealloc ptr sl =
     bnd (usub (unat ptr) (unat (sl_data sl))) (\<lambda>d.
     bnd (udiv d (sl_object_size sl)) (\<lambda>b.
     bnd (uadd (free_objs sl) 1) (\<lambda>f.
     bnd (bitmap_clear (sl_bitmap sl) b) (\<lambda>bm.
       Inr (sl\<lparr>free_objs := f, sl_bitmap := bm\<rparr>)))))"

section \<open>Caches\<close>

definition cache_new ::
  "usize \<Rightarrow> string \<Rightarrow> usize \<Rightarrow> 'z slab_state_scheme \<Rightarrow> (u64 \<times> 'z slab_state_scheme) res" where
  "cache_new slab_hdr name obj_size s =
     bnd (pmm_calloc 1 s) (\<lambda>(r, s).
     bnd (expect ''Could not allocate pages for the cache'' r) (\<lambda>a.
     let cache_ptr = as_u64 (higher_half a) in
     bnd (umul OBJS_PER_SLAB obj_size) (\<lambda>objs.
     bnd (uadd objs slab_hdr) (\<lambda>bytes.
     bnd (div_ceil bytes (unat PAGE_SIZE)) (\<lambda>pages.
     let cache = \<lparr>cache_name = name, object_size = obj_size, pages_per_slab = pages,
                  slab_count = 0, slabs = 0, cache_next = 0\<rparr> in
     bnd (slab_new slab_hdr cache s) (\<lambda>(slab_ptr, cache, s).
       Inr (cache_ptr, s\<lparr>cache_at := (cache_at s)(cache_ptr \<mapsto> cache\<lparr>slabs := slab_ptr\<rparr>)\<rparr>)))))))"

text \<open>The loop \<^verbatim>\<open>while curr_slab.free_objs == 0\<close> of \<^verbatim>\<open>alloc_obj\<close>.\<close>

partial_function (option) find_slab :: "(u64 \<rightharpoonup> slab) \<Rightarrow> u64 \<Rightarrow> u64 res option" where
  "find_slab h p =
     (case deref h p of
        Inl e \<Rightarrow> Some (Inl e)
      | Inr sl \<Rightarrow> if free_objs sl = 0 then find_slab h (sl_next sl) else Some (Inr p))"

definition alloc_obj ::
  "usize \<Rightarrow> u64 \<Rightarrow> 'z slab_state_scheme \<Rightarrow> (u64 \<times> 'z slab_state_scheme) res option" where
  "alloc_obj slab_hdr c s =
     (case deref (cache_at s) c of
        Inl e \<Rightarrow> Some (Inl e)
      | Inr self \<Rightarrow>
     (case find_slab (slab_at s) (slabs self) of
        None \<Rightarrow> None
      | Some r \<Rightarrow> Some (
          bnd r (\<lambda>cur.
          bnd (deref (slab_at s) cur) (\<lambda>sl.
          bnd (if free_objs sl = 0
               then bnd (slab_new slab_hdr self s) (\<lambda>(new_slab, self, s).
                    bnd (deref (slab_at s) new_slab) (\<lambda>n.
                      Inr (new_slab,
                           s\<lparr>slab_at := (slab_at s)(new_slab \<mapsto> n\<lparr>sl_next := slabs self\<rparr>),
                             cache_at := (cache_at s)(c \<mapsto> self\<lparr>slabs := new_slab\<rparr>)\<rparr>)))
               else Inr (cur, s)) (\<lambda>(cur, s).
          bnd (deref (slab_at s) cur) (\<lambda>sl.
          bnd (slab_alloc sl) (\<lambda>(ptr, sl).
            Inr (ptr, s\<lparr>slab_at := (slab_at s)(cur \<mapsto> sl)\<rparr>)))))))))"

definition free_obj :: "u64 \<Rightarrow> u64 \<Rightarrow> 'z slab_state_scheme \<Rightarrow> 'z slab_state_scheme res" where
  "free_obj c ptr s =
     bnd (deref (cache_at s) c) (\<lambda>self.
     bnd (for_loop 0 (slab_count self)
            (\<lambda>_ cur.
               bnd (deref (slab_at s) cur) (\<lambda>sl.
               bnd (umul (pages_per_slab self) (unat PAGE_SIZE)) (\<lambda>n.
               bnd (uadd (unat (sl_data sl)) n) (\<lambda>data_end.
                 if unat (sl_data sl) \<le> unat ptr \<and> unat ptr < data_end
                 then Inr (Return cur) else Inr (Continue (sl_next sl))))))
            (slabs self)) (\<lambda>r.
     case r of
       Continue _ \<Rightarrow> Inl (Panicked ''Tried do deallocate memory not allocated by the heap'')
     | Return cur \<Rightarrow>
         bnd (deref (slab_at s) cur) (\<lambda>sl.
         bnd (slab_dealloc ptr sl) (\<lambda>sl.
           Inr (s\<lparr>slab_at := (slab_at s)(cur \<mapsto> sl)\<rparr>)))))"

section \<open>The allocator\<close>

definition add_cache ::
  "usize \<Rightarrow> string \<Rightarrow> usize \<Rightarrow> 'z slab_state_scheme \<Rightarrow> 'z slab_state_scheme res" where
  "add_cache slab_hdr name obj_size s =
     (if caches s = 0
      then bnd (cache_new slab_hdr name obj_size s) (\<lambda>(c, s). Inr (s\<lparr>caches := c\<rparr>))
      else bnd (cache_new slab_hdr name obj_size s) (\<lambda>(new_cache, s).
           bnd (deref (cache_at s) new_cache) (\<lambda>n.
             Inr (s\<lparr>cache_at := (cache_at s)(new_cache \<mapsto> n\<lparr>cache_next := caches s\<rparr>),
                    caches := new_cache\<rparr>))))"

partial_function (option) cache_walk :: "(u64 \<rightharpoonup> cache) \<Rightarrow> u64 \<Rightarrow> usize \<Rightarrow> u64 res option" where
  "cache_walk h cur sz =
     (if cur = 0 then Some (Inr cur)
      else case deref h cur of
          Inl e \<Rightarrow> Some (Inl e)
        | Inr c \<Rightarrow> if object_size c < sz then cache_walk h (cache_next c) sz else Some (Inr cur))"

definition cache_for :: "usize \<Rightarrow> 'z slab_state_scheme \<Rightarrow> u64 option res option" where
  "cache_for sz s =
     map_option (\<lambda>r. bnd r (\<lambda>cur.
         if cur = 0 then Inr None
         else bnd (deref (cache_at s) cur) (\<lambda>c.
           if object_size c < sz then Inr None else Inr (Some cur))))
       (cache_walk (cache_at s) (caches s) sz)"

definition slab_init :: "usize \<Rightarrow> 'z slab_state_scheme \<Rightarrow> 'z slab_state_scheme res" where
  "slab_init hdr s =
     bnd (add_cache hdr ''4096 bytes'' 4096 s) (\<lambda>s.
     bnd (add_cache hdr ''2048 bytes'' 2048 s) (\<lambda>s.
     bnd (add_cache hdr ''1024 bytes'' 1024 s) (\<lambda>s.
     bnd (add_cache hdr ''512 bytes'' 512 s) (\<lambda>s.
     bnd (add_cache hdr ''256 bytes'' 256 s) (\<lambda>s.
     bnd (add_cache hdr ''128 bytes'' 128 s) (\<lambda>s.
     bnd (add_cache hdr ''64 bytes'' 64 s) (\<lambda>s.
     bnd (add_cache hdr ''32 bytes'' 32 s) (\<lambda>s.
     bnd (add_cache hdr ''16 bytes'' 16 s) (\<lambda>s.
          add_cache hdr ''8 bytes'' 8 s)))))))))"

text \<open>\<^verbatim>\<open>GlobalAlloc::alloc\<close> and \<^verbatim>\<open>dealloc\<close>; the alignment of the layout is not used.\<close>

definition heap_alloc ::
  "usize \<Rightarrow> usize \<Rightarrow> 'z slab_state_scheme \<Rightarrow> (u64 \<times> 'z slab_state_scheme) res option" where
  "heap_alloc slab_hdr layout_size s =
     (case cache_for layout_size s of
        None \<Rightarrow> None
      | Some (Inl e) \<Rightarrow> Some (Inl e)
      | Some (Inr (Some c)) \<Rightarrow> alloc_obj slab_hdr c s
      | Some (Inr None) \<Rightarrow>
          Some (Inl (Panicked ''Could not find a cache large enough to suffice the heap allocation'')))"

definition heap_dealloc ::
  "u64 \<Rightarrow> usize \<Rightarrow> 'z slab_state_scheme \<Rightarrow> 'z slab_state_scheme res option" where
  "heap_dealloc ptr layout_size s =
     map_option (\<lambda>r. bnd r (\<lambda>c. case c of
         Some c \<Rightarrow> free_obj c ptr s
       | None \<Rightarrow> Inl (Panicked ''Tried do deallocate memory not allocated by the heap'')))
       (cache_for layout_size s)"

section \<open>One slab\<close>

definition taken :: "slab \<Rightarrow> nat set" where
  "taken sl = bm_ones (sl_bitmap sl) \<inter> {..<256}"

definition object_addr :: "slab \<Rightarrow> nat \<Rightarrow> u64" where
  "object_addr sl i = sl_data sl + of_nat (i * sl_object_size sl)"

text \<open>The object counter agrees with the bitmap, and the objects fit in the address space.\<close>

definition slab_wf :: "slab \<Rightarrow> bool" where
  "slab_wf sl \<longleftrightarrow> bm_wf (sl_bitmap sl) \<and> 256 \<le> bm_bits (sl_bitmap sl) \<and> 0 < sl_object_size sl
     \<and> free_objs sl = 256 - card (taken sl)
     \<and> sl_data sl \<noteq> 0 \<and> unat (sl_data sl) + 256 * sl_object_size sl \<le> usize_limit"

text \<open>The fields of a slab that its operations do not change.\<close>

definition slab_frame :: "slab \<Rightarrow> usize \<times> u64 \<times> u64 \<times> u64" where
  "slab_frame sl = (sl_object_size sl, sl_data sl, sl_next sl, sl_previous sl)"

lemma slab_frame_simps:
  "slab_frame sl' = slab_frame sl \<Longrightarrow> sl_object_size sl' = sl_object_size sl \<and> sl_data sl' = sl_data sl
     \<and> sl_next sl' = sl_next sl \<and> sl_previous sl' = sl_previous sl"
  by (simp add: slab_frame_def)

lemma object_addr_frame: "slab_frame sl' = slab_frame sl \<Longrightarrow> object_addr sl' = object_addr sl"
  by (simp add: object_addr_def slab_frame_def fun_eq_iff)

lemma finite_taken [simp]: "finite (taken sl)"
  by (simp add: taken_def)

lemma taken_sub: "taken sl \<subseteq> {..<256}"
  by (simp add: taken_def)

lemma card_taken: "card (taken sl) \<le> 256"
  using card_mono[OF _ taken_sub, of sl] by simp

lemma unat_object_addr:
  assumes "slab_wf sl" and "i < 256"
  shows "unat (object_addr sl i) = unat (sl_data sl) + i * sl_object_size sl"
proof -
  have "i * sl_object_size sl < 256 * sl_object_size sl" using assms by (simp add: slab_wf_def)
  then have "unat (sl_data sl) + i * sl_object_size sl < 2 ^ 64"
    using assms(1) unfolding slab_wf_def by linarith
  then show ?thesis unfolding object_addr_def by (rule unat_plus_no_wrap)
qed

lemma object_addr_nonzero: "slab_wf sl \<Longrightarrow> i < 256 \<Longrightarrow> object_addr sl i \<noteq> 0"
  using unat_object_addr[of sl i] by (auto simp: slab_wf_def unat_eq_zero)

lemma slab_alloc_full: "free_objs sl = 0 \<Longrightarrow> slab_alloc sl = Inr (0, sl)"
  by (simp add: slab_alloc_def)

lemma slab_alloc_free:
  assumes wf: "slab_wf sl" and free: "0 < free_objs sl"
  shows "\<exists>i sl'. i < 256 \<and> i \<notin> taken sl \<and> {..<i} \<subseteq> taken sl \<and> slab_alloc sl = Inr (object_addr sl i, sl')
    \<and> taken sl' = insert i (taken sl) \<and> free_objs sl' = free_objs sl - 1 \<and> slab_wf sl'
    \<and> slab_frame sl' = slab_frame sl"
proof -
  let ?bm = "sl_bitmap sl"
  have not_full: "\<not> {..<256} \<subseteq> bm_ones ?bm"
  proof
    assume "{..<256} \<subseteq> bm_ones ?bm"
    then have "taken sl = {..<256}" by (auto simp: taken_def)
    then show False using wf free by (simp add: slab_wf_def)
  qed
  have "256 \<le> bm_bits ?bm" using wf by (simp add: slab_wf_def)
  from bm.claim_first_cases[OF this] not_full obtain i bm' where i:
      "claim_first bitmap_is_set bitmap_set 256 ?bm = Inr (Some (i, bm'))" "i < 256" "i \<notin> bm_ones ?bm"
      "{..<i} \<subseteq> bm_ones ?bm" "bm_ones bm' = insert i (bm_ones ?bm)" "bm_bits bm' = bm_bits ?bm"
      "bm_shape bm' = bm_shape ?bm" by blast
  have "i * sl_object_size sl < 256 * sl_object_size sl" using i(2) wf by (simp add: slab_wf_def)
  then have off: "i * sl_object_size sl < usize_limit" using wf unfolding slab_wf_def by linarith
  let ?sl = "sl\<lparr>free_objs := free_objs sl - 1, sl_bitmap := bm'\<rparr>"
  have "slab_alloc sl = Inr (object_addr sl i, ?sl)"
    using free i off by (simp add: slab_alloc_def OBJS_PER_SLAB_def usub_def umul_def object_addr_def)
  moreover have t: "taken ?sl = insert i (taken sl)" using i by (auto simp: taken_def)
  moreover have "i \<notin> taken sl" "{..<i} \<subseteq> taken sl" using i by (auto simp: taken_def)
  moreover have "card (taken ?sl) = Suc (card (taken sl))" using t i(3) by (simp add: taken_def)
  then have "slab_wf ?sl"
    using wf i bm_wf_shape[of ?bm bm'] by (simp add: slab_wf_def)
  ultimately show ?thesis using i(2) by (auto simp: slab_frame_def)
qed

lemma slab_dealloc_taken:
  assumes wf: "slab_wf sl" and i: "i \<in> taken sl" and off: "off < sl_object_size sl"
  shows "\<exists>sl'. slab_dealloc (object_addr sl i + of_nat off) sl = Inr sl' \<and> taken sl' = taken sl - {i}
    \<and> free_objs sl' = free_objs sl + 1 \<and> slab_wf sl' \<and> slab_frame sl' = slab_frame sl"
proof -
  let ?bm = "sl_bitmap sl" and ?n = "sl_object_size sl"
  have i256: "i < 256" using i taken_sub[of sl] by blast
  then have "Suc i * ?n \<le> 256 * ?n" by (intro mult_le_mono1) simp
  then have "i * ?n + off < 256 * ?n" using off unfolding mult_Suc by linarith
  then have "unat (object_addr sl i) + off < 2 ^ 64"
    using unat_object_addr[OF wf i256] wf unfolding slab_wf_def by linarith
  then have "unat (object_addr sl i + of_nat off) = unat (sl_data sl) + i * ?n + off"
    using unat_object_addr[OF wf i256] by (simp add: unat_plus_no_wrap)
  moreover have "(i * ?n + off) div ?n = i" using off by (simp add: div_add1_eq)
  moreover have "i < bm_bits ?bm" using wf i256 by (simp add: slab_wf_def)
  then obtain bm' where bm': "bitmap_clear ?bm i = Inr bm'" "bm_ones bm' = bm_ones ?bm - {i}"
      "bm_bits bm' = bm_bits ?bm" "bm_shape bm' = bm_shape ?bm" using bitmap_clear_in by blast
  moreover have "free_objs sl + 1 < usize_limit" using wf by (simp add: slab_wf_def)
  moreover let ?sl = "sl\<lparr>free_objs := free_objs sl + 1, sl_bitmap := bm'\<rparr>"
  have t: "taken ?sl = taken sl - {i}" using bm' by (auto simp: taken_def)
  have "0 < card (taken sl)" using i by (auto simp: card_gt_0_iff)
  then have "free_objs sl + 1 = 256 - card (taken ?sl)"
    using wf t i card_taken[of sl] by (simp add: slab_wf_def)
  then have "slab_wf ?sl" using wf bm' bm_wf_shape[of ?bm bm'] by (simp add: slab_wf_def)
  ultimately show ?thesis using wf t
    by (simp add: slab_dealloc_def usub_def udiv_def uadd_def slab_wf_def slab_frame_def)
qed

text \<open>
  The history of one slab from the point where all its objects are free: the addresses handed out
  and not yet given back.
\<close>

inductive slab_run :: "slab \<Rightarrow> slab \<times> u64 list \<Rightarrow> bool" for sl0 where
  fresh: "slab_run sl0 (sl0, [])"
| granted: "slab_run sl0 (sl, held) \<Longrightarrow> slab_alloc sl = Inr (p, sl') \<Longrightarrow> p \<noteq> 0 \<Longrightarrow>
    slab_run sl0 (sl', p # held)"
| full: "slab_run sl0 (sl, held) \<Longrightarrow> slab_alloc sl = Inr (0, sl') \<Longrightarrow> slab_run sl0 (sl', held)"
| returned: "slab_run sl0 (sl, xs @ p # ys) \<Longrightarrow> slab_dealloc p sl = Inr sl' \<Longrightarrow>
    slab_run sl0 (sl', xs @ ys)"

lemma slab_run_inv:
  assumes "slab_run sl0 (sl, held)" and "slab_wf sl0" and "taken sl0 = {}"
  shows "slab_wf sl \<and> slab_frame sl = slab_frame sl0
    \<and> (\<exists>is. held = map (object_addr sl0) is \<and> distinct is \<and> set is = taken sl)"
  using assms
proof (induction "(sl, held)" arbitrary: sl held rule: slab_run.induct)
  case fresh
  then show ?case by simp
next
  case (granted sl held p sl')
  then obtain "is" where IH: "slab_wf sl" "slab_frame sl = slab_frame sl0"
      "held = map (object_addr sl0) is" "distinct is" "set is = taken sl" by auto
  have "0 < free_objs sl" using granted.hyps(3,4) slab_alloc_full[of sl] by (cases "free_objs sl") auto
  from slab_alloc_free[OF IH(1) this] granted.hyps(3) obtain i where
      "p = object_addr sl i" "i \<notin> taken sl" "taken sl' = insert i (taken sl)" "slab_wf sl'"
      "slab_frame sl' = slab_frame sl" by auto
  then show ?case using IH object_addr_frame[OF IH(2)] by (auto intro!: exI[of _ "i # is"])
next
  case (full sl held sl')
  then obtain "is" where IH: "slab_wf sl" "slab_frame sl = slab_frame sl0"
      "held = map (object_addr sl0) is" "distinct is" "set is = taken sl" by auto
  have "free_objs sl = 0"
    using slab_alloc_free[OF IH(1)] full.hyps(3) object_addr_nonzero[OF IH(1)] by fastforce
  then show ?case using slab_alloc_full[of sl] full.hyps(3) IH by auto
next
  case (returned sl xs p ys sl')
  then obtain "is" where IH: "slab_wf sl" "slab_frame sl = slab_frame sl0"
      "xs @ p # ys = map (object_addr sl0) is" "distinct is" "set is = taken sl" by auto
  from IH(3) obtain js i ks where split: "is = js @ i # ks" "xs = map (object_addr sl0) js"
      "p = object_addr sl0 i" "ys = map (object_addr sl0) ks"
    by (auto simp: append_eq_map_conv Cons_eq_map_conv map_eq_append_conv map_eq_Cons_conv)
  have "i \<in> taken sl" using IH(5) split(1) by auto
  moreover have "0 < sl_object_size sl" using IH(1) by (simp add: slab_wf_def)
  ultimately obtain sl2 where sl2: "slab_dealloc (object_addr sl i) sl = Inr sl2"
      "taken sl2 = taken sl - {i}" "slab_wf sl2" "slab_frame sl2 = slab_frame sl"
    using slab_dealloc_taken[OF IH(1), of i 0] by auto
  then have "sl' = sl2" using returned.hyps(3) split(3) object_addr_frame[OF IH(2)] by simp
  then show ?case using sl2 IH split by (auto intro!: exI[of _ "js @ ks"])
qed

end
