(* ===== verification/Slab_Heap.thy ===== *)
theory Slab_Heap
  imports Slab
begin

text \<open>
  The linked structure of the heap: the lists of caches and slabs that the raw pointers form, what
  the pointer loops of \<^verbatim>\<open>mm/slab.rs\<close> do on them, and what \<^verbatim>\<open>slab::init\<close> builds.
\<close>

section \<open>Linked lists\<close>

fun cache_chain :: "(u64 \<rightharpoonup> cache) \<Rightarrow> u64 \<Rightarrow> cache list \<Rightarrow> bool" where
  "cache_chain h p [] = (p = 0)"
| "cache_chain h p (c # cs) = (p \<noteq> 0 \<and> h p = Some c \<and> cache_chain h (cache_next c) cs)"

fun slab_chain :: "(u64 \<rightharpoonup> slab) \<Rightarrow> u64 \<Rightarrow> slab list \<Rightarrow> bool" where
  "slab_chain h p [] = (p = 0)"
| "slab_chain h p (sl # sls) = (p \<noteq> 0 \<and> h p = Some sl \<and> slab_chain h (sl_next sl) sls)"

lemma cache_chain_mono: "cache_chain h p cs \<Longrightarrow> h \<subseteq>\<^sub>m h' \<Longrightarrow> cache_chain h' p cs"
  by (induction cs arbitrary: p) (auto simp: map_le_def dom_def)

lemma slab_chain_mono: "slab_chain h p sls \<Longrightarrow> h \<subseteq>\<^sub>m h' \<Longrightarrow> slab_chain h' p sls"
  by (induction sls arbitrary: p) (auto simp: map_le_def dom_def)

lemma slab_chain_unique: "slab_chain h p xs \<Longrightarrow> slab_chain h p ys \<Longrightarrow> xs = ys"
proof (induction xs arbitrary: p ys)
  case Nil
  then show ?case by (cases ys) auto
next
  case (Cons x xs)
  then show ?case by (cases ys) auto
qed

lemma deref_eq [simp]: "p \<noteq> 0 \<Longrightarrow> h p = Some x \<Longrightarrow> deref h p = Inr x"
  by (simp add: deref_def)

lemma deref_null [simp]: "deref h 0 = Inl BadPointer"
  by (simp add: deref_def)

text \<open>The search for a slab with a free object ends, at one or at the null pointer.\<close>

lemma find_slab_chain:
  assumes "slab_chain h p sls"
  shows "case List.find (\<lambda>sl. free_objs sl \<noteq> 0) sls of
      None \<Rightarrow> find_slab h p = Some (Inl BadPointer)
    | Some sl \<Rightarrow> \<exists>q. find_slab h p = Some (Inr q) \<and> q \<noteq> 0 \<and> h q = Some sl"
  using assms
proof (induction sls arbitrary: p)
  case Nil
  then show ?case by (simp add: find_slab.simps)
next
  case (Cons sl sls)
  then have "find_slab h p = (if free_objs sl = 0 then find_slab h (sl_next sl) else Some (Inr p))"
    by (simp add: find_slab.simps[of h p])
  then show ?case using Cons.IH[of "sl_next sl"] Cons.prems by (auto split: option.splits)
qed

lemma cache_walk_chain:
  assumes "cache_chain h p cs"
  shows "case List.find (\<lambda>c. sz \<le> object_size c) cs of
      None \<Rightarrow> cache_walk h p sz = Some (Inr 0)
    | Some c \<Rightarrow> \<exists>q. cache_walk h p sz = Some (Inr q) \<and> q \<noteq> 0 \<and> h q = Some c"
  using assms
proof (induction cs arbitrary: p)
  case Nil
  then show ?case by (simp add: cache_walk.simps)
next
  case (Cons c cs)
  then have "cache_walk h p sz
      = (if object_size c < sz then cache_walk h (cache_next c) sz else Some (Inr p))"
    by (simp add: cache_walk.simps[of h p])
  then show ?case using Cons.IH[of "cache_next c"] Cons.prems by (auto split: option.splits)
qed

lemma cache_for_chain:
  assumes "cache_chain (cache_at s) (caches s) cs"
  shows "case List.find (\<lambda>c. sz \<le> object_size c) cs of
      None \<Rightarrow> cache_for sz s = Some (Inr None)
    | Some c \<Rightarrow> \<exists>q. cache_for sz s = Some (Inr (Some q)) \<and> q \<noteq> 0 \<and> cache_at s q = Some c"
proof (cases "List.find (\<lambda>c. sz \<le> object_size c) cs")
  case None
  then show ?thesis using cache_walk_chain[OF assms, of sz] by (simp add: cache_for_def)
next
  case (Some c)
  then have "sz \<le> object_size c" by (auto simp: find_Some_iff)
  then show ?thesis using Some cache_walk_chain[OF assms, of sz] by (auto simp: cache_for_def)
qed

section \<open>Fresh pages\<close>

text \<open>Every cache and slab sits at the start of a frame that is not free.\<close>

definition heap_frames :: "'z slab_state_scheme \<Rightarrow> bool" where
  "heap_frames s \<longleftrightarrow> (\<forall>p \<in> dom (cache_at s) \<union> dom (slab_at s). \<exists>f < 2 ^ 35. p = kptr f \<and> f \<notin> free_frames s)"

lemma heap_frames_fresh:
  "heap_frames s \<Longrightarrow> f < 2 ^ 35 \<Longrightarrow> f \<in> free_frames s \<Longrightarrow> cache_at s (kptr f) = None \<and> slab_at s (kptr f) = None"
proof (rule ccontr)
  assume h: "heap_frames s" and f: "f < 2 ^ 35" "f \<in> free_frames s"
    and "\<not> (cache_at s (kptr f) = None \<and> slab_at s (kptr f) = None)"
  then have "kptr f \<in> dom (cache_at s) \<union> dom (slab_at s)" by auto
  then obtain g where "g < 2 ^ 35" "kptr f = kptr g" "g \<notin> free_frames s"
    using h unfolding heap_frames_def by blast
  then show False using f kptr_inject[of f g] by simp
qed

lemma more_fields:
  assumes "pmm_state.more s' = pmm_state.more s"
  shows "caches s' = caches s" "cache_at s' = cache_at s" "slab_at s' = slab_at s"
    "slab_state.more s' = slab_state.more s"
  using assms by (cases s, cases s', simp)+

lemma slab_new_effect:
  assumes wf: "pmm_wf s" and new: "slab_new hdr parent s = Inr (p, parent', s')"
    and obj: "0 < object_size parent"
    and room: "256 * object_size parent + hdr \<le> pages_per_slab parent * 4096"
  shows "\<exists>f sl. p = kptr f \<and> f < 2 ^ 35 \<and> f \<in> free_frames s
    \<and> parent' = parent\<lparr>slabs := p, slab_count := slab_count parent + 1\<rparr>
    \<and> slab_at s' = (slab_at s)(p \<mapsto> sl) \<and> cache_at s' = cache_at s \<and> caches s' = caches s
    \<and> slab_state.more s' = slab_state.more s \<and> pmm_wf s' \<and> free_frames s' \<subseteq> free_frames s - {f}
    \<and> slab_wf sl \<and> taken sl = {} \<and> sl_object_size sl = object_size parent \<and> sl_next sl = slabs parent
    \<and> unat (sl_data sl) = unat p + hdr"
proof -
  let ?n = "pages_per_slab parent"
  from new obtain a s1 bm s2 where a: "pmm_calloc ?n s = Inr (Some a, s1)"
      and bm: "bitmap_new 4096 s1 = Inr (bm, s2)"
      and out: "p = as_u64 (higher_half a)" "parent' = parent\<lparr>slabs := p, slab_count := slab_count parent + 1\<rparr>"
        "s' = s2\<lparr>slab_at := (slab_at s2)(p \<mapsto> \<lparr>free_objs = 256, sl_object_size = object_size parent,
           sl_data = p + of_nat hdr, sl_bitmap = bm, sl_next = slabs parent, sl_previous = 0\<rparr>)\<rparr>"
    by (auto simp: slab_new_def res_simps Let_def OBJS_PER_SLAB_def)
  from calloc_frame[OF wf a] obtain f where f0: "as_u64 (higher_half a) = kptr f" "0 < ?n" "f + ?n \<le> 2 ^ 35"
      "{f..<f + ?n} \<subseteq> free_frames s" "free_frames s1 = free_frames s - {f..<f + ?n}"
      "pmm_wf s1" "pmm_state.more s1 = pmm_state.more s" by blast
  have "f < 2 ^ 35" using f0(2,3) by linarith
  note f = f0(1-3) this f0(4-)
  from bitmap_new_effect[OF f(7) _ bm] obtain g where g: "bm_ones bm = {}" "bm_wf bm" "bm_bits bm = 8 * 4096"
      "free_frames s2 = free_frames s1 - {g..<g + ceil_div 4096 4096}" "pmm_wf s2"
      "pmm_state.more s2 = pmm_state.more s1" by auto
  let ?sl = "\<lparr>free_objs = 256, sl_object_size = object_size parent, sl_data = p + of_nat hdr,
      sl_bitmap = bm, sl_next = slabs parent, sl_previous = 0\<rparr>"
  have p: "p = kptr f" using out(1) f(1) by simp
  have top: "unat p + ?n * 4096 \<le> 2 ^ 64" using f(3,4) p by (simp add: unat_kptr)
  have data: "unat (p + of_nat hdr) = unat p + hdr"
    using top room obj by (intro unat_plus_no_wrap) simp
  have "taken ?sl = {}" using g by (simp add: taken_def)
  moreover have "slab_wf ?sl"
    using g obj room top data p f(4)
    by (auto simp: slab_wf_def taken_def unat_kptr unat_eq_zero[symmetric] simp del: unat_eq_zero)
  moreover have "f \<in> free_frames s" "free_frames s' \<subseteq> free_frames s - {f}" "pmm_wf s'"
    using f(2,5,6) g(4,5) out(3) by (auto simp: pmm_wf_def free_frames_def)
  ultimately show ?thesis
    using p f(4) out more_fields[OF f(8)] more_fields[OF g(6)] data by (intro exI[of _ f] exI[of _ ?sl]) simp
qed

lemma slab_new_region:
  assumes wf: "pmm_wf s" and fr: "free_frames s = {a..<b}" and "0 < a" "0 < pages_per_slab parent"
    and "a + pages_per_slab parent + 1 \<le> b" and "slab_count parent < 2 ^ 63"
  shows "\<exists>p parent' s'. slab_new hdr parent s = Inr (p, parent', s')
    \<and> free_frames s' = {a + pages_per_slab parent + 1..<b}"
proof -
  let ?n = "pages_per_slab parent"
  obtain s1 where s1: "pmm_calloc ?n s = Inr (Some (frame_addr a), s1)" "free_frames s1 = {a + ?n..<b}" "pmm_wf s1"
    using calloc_region[OF wf fr assms(3,4)] assms(5) by auto
  obtain bm s2 where "bitmap_new 4096 s1 = Inr (bm, s2)" "free_frames s2 = {a + ?n + 1..<b}"
    using bitmap_new_region[OF s1(3,2), of 4096] assms(3,5) by (auto simp: ceil_div_def)
  then show ?thesis using s1 assms(6) by (simp add: slab_new_def Let_def uadd_def free_frames_def)
qed

section \<open>Caches\<close>

text \<open>A cache whose slabs form a list of the recorded length, each sound and of the cache's size.\<close>

definition cache_ok :: "(u64 \<rightharpoonup> slab) \<Rightarrow> cache \<Rightarrow> bool" where
  "cache_ok h c \<longleftrightarrow> (\<exists>sls. slab_chain h (slabs c) sls \<and> length sls = slab_count c
     \<and> (\<forall>sl \<in> set sls. slab_wf sl \<and> sl_object_size sl = object_size c))"

definition cache_fresh :: "(u64 \<rightharpoonup> slab) \<Rightarrow> cache \<Rightarrow> bool" where
  "cache_fresh h c \<longleftrightarrow> slab_count c = 1 \<and> (\<exists>sl. slab_chain h (slabs c) [sl] \<and> slab_wf sl
     \<and> sl_object_size sl = object_size c \<and> taken sl = {})"

definition heap_ok :: "'z slab_state_scheme \<Rightarrow> cache list \<Rightarrow> bool" where
  "heap_ok s cs \<longleftrightarrow> pmm_wf s \<and> heap_frames s \<and> cache_chain (cache_at s) (caches s) cs
     \<and> (\<forall>c \<in> set cs. cache_ok (slab_at s) c)"

lemma cache_fresh_ok: "cache_fresh h c \<Longrightarrow> cache_ok h c"
  unfolding cache_fresh_def cache_ok_def by (metis One_nat_def list.size(3,4) set_ConsD empty_iff empty_set plus_1_eq_Suc add.commute)

lemma cache_ok_mono: "cache_ok h c \<Longrightarrow> h \<subseteq>\<^sub>m h' \<Longrightarrow> cache_ok h' c"
  using slab_chain_mono unfolding cache_ok_def by blast

lemma cache_fresh_mono: "cache_fresh h c \<Longrightarrow> h \<subseteq>\<^sub>m h' \<Longrightarrow> cache_fresh h' c"
  using slab_chain_mono unfolding cache_fresh_def by blast

definition slab_pages :: "usize \<Rightarrow> usize \<Rightarrow> nat" where
  "slab_pages hdr sz = ceil_div (256 * sz + hdr) 4096"

lemma slab_pages_eq:
  assumes "sz \<le> 2 ^ 20" "hdr \<le> 2 ^ 20"
  shows "umul OBJS_PER_SLAB sz = Inr (256 * sz)" "uadd (256 * sz) hdr = Inr (256 * sz + hdr)"
    "div_ceil (256 * sz + hdr) 4096 = Inr (slab_pages hdr sz)"
  using assms by (simp_all add: OBJS_PER_SLAB_def umul_def uadd_def div_ceil_eq slab_pages_def)

lemma cache_new_effect:
  assumes wf: "pmm_wf s" and hf: "heap_frames s" and new: "cache_new hdr nm sz s = Inr (c, s')"
    and sz: "0 < sz" "sz \<le> 2 ^ 20" "hdr \<le> 2 ^ 20"
  shows "\<exists>k. c \<noteq> 0 \<and> cache_at s c = None \<and> cache_at s' = (cache_at s)(c \<mapsto> k) \<and> caches s' = caches s
    \<and> object_size k = sz \<and> cache_next k = 0 \<and> cache_fresh (slab_at s') k
    \<and> slab_at s \<subseteq>\<^sub>m slab_at s' \<and> pmm_wf s' \<and> heap_frames s'"
proof -
  let ?k0 = "\<lparr>cache_name = nm, object_size = sz, pages_per_slab = slab_pages hdr sz,
      slab_count = 0, slabs = 0, cache_next = 0\<rparr>"
  from new slab_pages_eq[OF sz(2,3)] obtain a s1 p k s2 where a: "pmm_calloc 1 s = Inr (Some a, s1)"
      and sn: "slab_new hdr ?k0 s1 = Inr (p, k, s2)"
      and out: "c = as_u64 (higher_half a)" "s' = s2\<lparr>cache_at := (cache_at s2)(c \<mapsto> k\<lparr>slabs := p\<rparr>)\<rparr>"
    by (auto simp: cache_new_def Let_def res_simps)
  from calloc_frame[OF wf a] obtain f where f: "as_u64 (higher_half a) = kptr f" "f + 1 \<le> 2 ^ 35"
      "{f..<f + 1} \<subseteq> free_frames s" "free_frames s1 = free_frames s - {f..<f + 1}" "pmm_wf s1"
      "pmm_state.more s1 = pmm_state.more s" by blast
  have "256 * object_size ?k0 + hdr \<le> pages_per_slab ?k0 * 4096"
    using ceil_div_le[of 4096 "256 * sz + hdr"] by (simp add: slab_pages_def)
  from slab_new_effect[OF f(5) sn _ this] sz(1) obtain g sl where g: "p = kptr g" "g < 2 ^ 35"
      "g \<in> free_frames s1" "k = ?k0\<lparr>slabs := p, slab_count := 1\<rparr>" "slab_at s2 = (slab_at s1)(p \<mapsto> sl)"
      "cache_at s2 = cache_at s1" "caches s2 = caches s1" "pmm_wf s2" "free_frames s2 \<subseteq> free_frames s1 - {g}"
      "slab_wf sl" "taken sl = {}" "sl_object_size sl = sz" "sl_next sl = 0" by auto
  note same = more_fields[OF f(6)]
  have cf: "c = kptr f" "f < 2 ^ 35" "f \<in> free_frames s" using f out by auto
  have gs: "g \<in> free_frames s" "g \<noteq> f" using g(3) f(4) by auto
  have fresh: "cache_at s c = None" "slab_at s p = None"
    using heap_frames_fresh[OF hf] cf gs g(1,2) by auto
  have "p \<noteq> 0" "c \<noteq> 0" using g(1,2) cf kptr_nonzero by auto
  then have "cache_fresh (slab_at s') (k\<lparr>slabs := p\<rparr>)"
    using g out(2) by (auto simp: cache_fresh_def)
  moreover have "slab_at s \<subseteq>\<^sub>m slab_at s'" using g(5) same fresh out(2) by (auto simp: map_le_def)
  moreover have "heap_frames s'" unfolding heap_frames_def
  proof
    fix q assume "q \<in> dom (cache_at s') \<union> dom (slab_at s')"
    then consider "q = kptr f" | "q = kptr g" | "q \<in> dom (cache_at s) \<union> dom (slab_at s)"
      using out(2) g(1,5,6) same cf(1) by (auto split: if_splits)
    moreover have "free_frames s' \<subseteq> free_frames s - {f, g}"
      using g(9) f(4) out(2) by (auto simp: free_frames_def)
    ultimately show "\<exists>h<2 ^ 35. q = kptr h \<and> h \<notin> free_frames s'"
      using hf cf(2) g(2) unfolding heap_frames_def by cases blast+
  qed
  moreover have "pmm_wf s'" using g(8) out(2) by (simp add: pmm_wf_def)
  ultimately show ?thesis using fresh \<open>c \<noteq> 0\<close> out(2) g same by (intro exI[of _ "k\<lparr>slabs := p\<rparr>"]) auto
qed

lemma add_cache_effect:
  assumes ok: "heap_ok s cs" and add: "add_cache hdr nm sz s = Inr s'"
    and sz: "0 < sz" "sz \<le> 2 ^ 20" "hdr \<le> 2 ^ 20"
  shows "\<exists>k. heap_ok s' (k # cs) \<and> object_size k = sz \<and> cache_fresh (slab_at s') k
    \<and> slab_at s \<subseteq>\<^sub>m slab_at s'"
proof -
  from ok have wf: "pmm_wf s" "heap_frames s" "cache_chain (cache_at s) (caches s) cs"
      "\<forall>c \<in> set cs. cache_ok (slab_at s) c" by (auto simp: heap_ok_def)
  from add obtain c s1 where new: "cache_new hdr nm sz s = Inr (c, s1)"
    by (auto simp: add_cache_def res_simps split: if_splits)
  from cache_new_effect[OF wf(1,2) new sz] obtain k where k: "c \<noteq> 0" "cache_at s c = None"
      "cache_at s1 = (cache_at s)(c \<mapsto> k)" "caches s1 = caches s" "object_size k = sz"
      "cache_fresh (slab_at s1) k" "slab_at s \<subseteq>\<^sub>m slab_at s1" "pmm_wf s1" "heap_frames s1"
      "cache_next k = 0" by blast
  have le: "cache_at s \<subseteq>\<^sub>m (cache_at s)(c \<mapsto> x)" for x using k(2) by (auto simp: map_le_def)
  have chain: "cache_chain ((cache_at s)(c \<mapsto> x)) (caches s) cs" for x
    using cache_chain_mono[OF wf(3) le] .
  have old: "\<forall>d \<in> set cs. cache_ok (slab_at s1) d" using wf(4) cache_ok_mono k(7) by blast
  have frames: "heap_frames (s1\<lparr>cache_at := (cache_at s)(c \<mapsto> x), caches := c\<rparr>)" for x
    using k(3,9) by (auto simp: heap_frames_def free_frames_def)
  have wf1: "pmm_wf (s1\<lparr>cache_at := (cache_at s)(c \<mapsto> x), caches := c\<rparr>)" for x
    using k(8) by (simp add: pmm_wf_def)
  have fr: "cache_fresh (slab_at s1) (k\<lparr>cache_next := p\<rparr>)" for p using k(6) by (simp add: cache_fresh_def)
  show ?thesis
  proof (cases "caches s = 0")
    case True
    then have "cs = []" using wf(3) by (cases cs) auto
    moreover have "s' = s1\<lparr>cache_at := (cache_at s)(c \<mapsto> k), caches := c\<rparr>"
      using add True new k(3) by (cases s1) (auto simp: add_cache_def)
    ultimately show ?thesis using k frames wf1 cache_fresh_ok[OF k(6)]
      by (intro exI[of _ k]) (simp add: heap_ok_def)
  next
    case False
    then have "s' = s1\<lparr>cache_at := (cache_at s)(c \<mapsto> k\<lparr>cache_next := caches s\<rparr>), caches := c\<rparr>"
      using add new k(1,3,4) by (simp add: add_cache_def)
    then show ?thesis using k(1,5,7) frames wf1 fr[of "caches s"] cache_fresh_ok[OF fr] chain old
      by (intro exI[of _ "k\<lparr>cache_next := caches s\<rparr>"]) (simp add: heap_ok_def)
  qed
qed

section \<open>Initialisation\<close>

lemma add_cache_region:
  assumes ok: "heap_ok s cs" and fr: "free_frames s = {a..<b}" and "0 < a"
    and "a + slab_pages hdr sz + 2 \<le> b" and sz: "0 < sz" "sz \<le> 2 ^ 20" "hdr \<le> 2 ^ 20"
  shows "\<exists>s' k. add_cache hdr nm sz s = Inr s' \<and> free_frames s' = {a + slab_pages hdr sz + 2..<b}
    \<and> heap_ok s' (k # cs) \<and> object_size k = sz \<and> cache_fresh (slab_at s') k \<and> slab_at s \<subseteq>\<^sub>m slab_at s'"
proof -
  let ?n = "slab_pages hdr sz"
  let ?k0 = "\<lparr>cache_name = nm, object_size = sz, pages_per_slab = ?n, slab_count = 0, slabs = 0, cache_next = 0\<rparr>"
  have n: "0 < ?n" using sz(1) ceil_div_le[of 4096 "256 * sz + hdr"] by (auto simp: slab_pages_def intro: gr0I)
  have wf: "pmm_wf s" "heap_frames s" using ok by (auto simp: heap_ok_def)
  obtain s1 where s1: "pmm_calloc 1 s = Inr (Some (frame_addr a), s1)" "free_frames s1 = {a + 1..<b}" "pmm_wf s1"
    using calloc_region[OF wf(1) fr assms(3), of 1] assms(4) by auto
  obtain p k s2 where s2: "slab_new hdr ?k0 s1 = Inr (p, k, s2)" "free_frames s2 = {a + ?n + 2..<b}"
    using slab_new_region[OF s1(3,2), of ?k0 hdr] n assms(4) by (auto simp: algebra_simps)
  let ?c = "as_u64 (higher_half (frame_addr a))"
  let ?s3 = "s2\<lparr>cache_at := (cache_at s2)(?c \<mapsto> k\<lparr>slabs := p\<rparr>)\<rparr>"
  have new: "cache_new hdr nm sz s = Inr (?c, ?s3)"
    using s1 s2 slab_pages_eq[OF sz(2,3)] by (simp add: cache_new_def Let_def)
  have "?c \<noteq> 0" using cache_new_effect[OF wf new sz] by blast
  then have "\<exists>s'. add_cache hdr nm sz s = Inr s' \<and> free_frames s' = {a + ?n + 2..<b}"
    using new s2(2) by (simp add: add_cache_def free_frames_def)
  then show ?thesis using add_cache_effect[OF ok _ sz] by blast
qed

fun add_caches :: "usize \<Rightarrow> (string \<times> usize) list \<Rightarrow> 'z slab_state_scheme \<Rightarrow> 'z slab_state_scheme res" where
  "add_caches hdr [] s = Inr s"
| "add_caches hdr ((nm, sz) # xs) s = bnd (add_cache hdr nm sz s) (add_caches hdr xs)"

definition init_caches :: "(string \<times> usize) list" where
  "init_caches = [(''4096 bytes'', 4096), (''2048 bytes'', 2048), (''1024 bytes'', 1024), (''512 bytes'', 512),
     (''256 bytes'', 256), (''128 bytes'', 128), (''64 bytes'', 64), (''32 bytes'', 32), (''16 bytes'', 16),
     (''8 bytes'', 8)]"

lemma bnd_Inr_right: "bnd r (\<lambda>x. Inr x) = r"
  by (cases r) auto

lemma add_caches_eta:
  "add_caches hdr [] = (\<lambda>s. Inr s)"
  "add_caches hdr ((nm, sz) # xs) = (\<lambda>s. bnd (add_cache hdr nm sz s) (add_caches hdr xs))"
  by (simp_all add: fun_eq_iff)

lemma slab_init_add_caches: "slab_init hdr s = add_caches hdr init_caches s"
  by (simp add: slab_init_def init_caches_def bnd_Inr_right add_caches_eta del: add_caches.simps)

lemma add_caches_region:
  assumes "heap_ok s cs" and "free_frames s = {a..<b}" and "0 < a" and "hdr \<le> 2 ^ 20"
    and "\<forall>(nm, sz) \<in> set xs. 0 < sz \<and> sz \<le> 2 ^ 20"
    and "a + (\<Sum>(nm, sz) \<leftarrow> xs. slab_pages hdr sz + 2) \<le> b"
    and "\<forall>c \<in> set cs. cache_fresh (slab_at s) c"
  shows "\<exists>s' ks. add_caches hdr xs s = Inr s' \<and> heap_ok s' (ks @ cs) \<and> map object_size ks = rev (map snd xs)
    \<and> (\<forall>c \<in> set (ks @ cs). cache_fresh (slab_at s') c)
    \<and> free_frames s' = {a + (\<Sum>(nm, sz) \<leftarrow> xs. slab_pages hdr sz + 2)..<b}"
  using assms
proof (induction xs arbitrary: s cs a)
  case Nil
  then show ?case by simp
next
  case (Cons x xs)
  obtain nm sz where x: "x = (nm, sz)" by (cases x)
  let ?a = "a + slab_pages hdr sz + 2"
  obtain s1 k where k: "add_cache hdr nm sz s = Inr s1" "free_frames s1 = {?a..<b}" "heap_ok s1 (k # cs)"
      "object_size k = sz" "cache_fresh (slab_at s1) k" "slab_at s \<subseteq>\<^sub>m slab_at s1"
    using add_cache_region[OF Cons.prems(1-3), where hdr = hdr and sz = sz and nm = nm] Cons.prems(4-6) x by auto
  have "\<forall>c \<in> set (k # cs). cache_fresh (slab_at s1) c"
    using k(5,6) Cons.prems(7) cache_fresh_mono by auto
  from Cons.IH[OF k(3,2) _ Cons.prems(4) _ _ this] Cons.prems(5,6) x
  obtain s' ks where "add_caches hdr xs s1 = Inr s'" "heap_ok s' (ks @ k # cs)" "map object_size ks = rev (map snd xs)"
      "\<forall>c \<in> set (ks @ k # cs). cache_fresh (slab_at s') c"
      "free_frames s' = {?a + (\<Sum>(nm, sz) \<leftarrow> xs. slab_pages hdr sz + 2)..<b}" by auto
  then show ?case using k x by (intro exI[of _ s'] exI[of _ "ks @ [k]"]) (simp add: algebra_simps)
qed

section \<open>Requests\<close>

lemma slab_chain_update:
  assumes "slab_chain h p sls" and "h q = Some sl" and "slab_frame sl' = slab_frame sl" and "slab_wf sl'"
    and "\<forall>x \<in> set sls. slab_wf x \<and> sl_object_size x = n"
  shows "\<exists>sls'. slab_chain (h(q \<mapsto> sl')) p sls' \<and> length sls' = length sls
    \<and> (\<forall>x \<in> set sls'. slab_wf x \<and> sl_object_size x = n)"
  using assms
proof (induction sls arbitrary: p)
  case Nil
  then show ?case by simp
next
  case (Cons x xs)
  note keep = slab_frame_simps[OF Cons.prems(3)]
  obtain ys where ys: "slab_chain (h(q \<mapsto> sl')) (sl_next x) ys" "length ys = length xs"
      "\<forall>x \<in> set ys. slab_wf x \<and> sl_object_size x = n"
    using Cons.IH[OF _ Cons.prems(2-4), of "sl_next x"] Cons.prems(1,5)
    by (auto simp del: fun_upd_apply)
  then show ?case using Cons.prems keep
    by (intro exI[of _ "(if p = q then sl' else x) # ys"]) (auto simp: fun_upd_def)
qed

lemma heap_ok_update:
  assumes "heap_ok s cs" and "slab_at s q = Some sl" and "slab_frame sl' = slab_frame sl" and "slab_wf sl'"
  shows "heap_ok (s\<lparr>slab_at := (slab_at s)(q \<mapsto> sl')\<rparr>) cs"
proof -
  have "cache_ok ((slab_at s)(q \<mapsto> sl')) c" if "cache_ok (slab_at s) c" for c
    using that slab_chain_update[where h = "slab_at s", OF _ assms(2-4)] unfolding cache_ok_def by metis
  moreover have "heap_frames (s\<lparr>slab_at := (slab_at s)(q \<mapsto> sl')\<rparr>)"
    using assms(1,2) by (auto simp: heap_ok_def heap_frames_def free_frames_def)
  ultimately show ?thesis using assms(1) by (auto simp: heap_ok_def pmm_wf_def)
qed

lemma alloc_obj_chain:
  assumes c: "c \<noteq> 0" "cache_at s c = Some k" and ch: "slab_chain (slab_at s) (slabs k) sls"
    and wf: "\<forall>sl \<in> set sls. slab_wf sl"
  shows "case List.find (\<lambda>sl. free_objs sl \<noteq> 0) sls of
      None \<Rightarrow> alloc_obj hdr c s = Some (Inl BadPointer)
    | Some sl \<Rightarrow> \<exists>q i sl'. slab_at s q = Some sl \<and> i < 256 \<and> i \<notin> taken sl
        \<and> alloc_obj hdr c s = Some (Inr (object_addr sl i, s\<lparr>slab_at := (slab_at s)(q \<mapsto> sl')\<rparr>))
        \<and> taken sl' = insert i (taken sl) \<and> slab_wf sl' \<and> slab_frame sl' = slab_frame sl"
proof (cases "List.find (\<lambda>sl. free_objs sl \<noteq> 0) sls")
  case None
  then show ?thesis using find_slab_chain[OF ch] c by (simp add: alloc_obj_def)
next
  case (Some sl)
  then have sl: "free_objs sl \<noteq> 0" "sl \<in> set sls" by (auto simp: find_Some_iff)
  obtain q where q: "find_slab (slab_at s) (slabs k) = Some (Inr q)" "q \<noteq> 0" "slab_at s q = Some sl"
    using find_slab_chain[OF ch] Some by auto
  obtain i sl' where "i < 256" "i \<notin> taken sl" "slab_alloc sl = Inr (object_addr sl i, sl')"
      "taken sl' = insert i (taken sl)" "slab_wf sl'" "slab_frame sl' = slab_frame sl"
    using slab_alloc_free[of sl] wf sl by blast
  then show ?thesis using q c sl Some by (auto simp: alloc_obj_def)
qed

lemma heap_alloc_fresh:
  assumes "heap_ok s cs" and f: "List.find (\<lambda>c. sz \<le> object_size c) cs = Some c" and "cache_fresh (slab_at s) c"
  shows "\<exists>p h. heap_alloc hdr sz s = Some (Inr (p, s\<lparr>slab_at := h\<rparr>)) \<and> heap_ok (s\<lparr>slab_at := h\<rparr>) cs"
proof -
  have "cache_chain (cache_at s) (caches s) cs" using assms(1) by (simp add: heap_ok_def)
  then obtain q where q: "cache_for sz s = Some (Inr (Some q))" "q \<noteq> 0" "cache_at s q = Some c"
    using cache_for_chain[of s cs sz] f by auto
  from assms(3) obtain sl where sl: "slab_chain (slab_at s) (slabs c) [sl]" "slab_wf sl" "taken sl = {}" by (auto simp: cache_fresh_def)
  then have "free_objs sl \<noteq> 0" by (simp add: slab_wf_def)
  then obtain r i sl' where r: "slab_at s r = Some sl" "alloc_obj hdr q s = Some (Inr (object_addr sl i, s\<lparr>slab_at := (slab_at s)(r \<mapsto> sl')\<rparr>))"
      "slab_wf sl'" "slab_frame sl' = slab_frame sl"
    using alloc_obj_chain[OF q(2,3) sl(1), of hdr] sl(2) by auto
  then show ?thesis using heap_ok_update[OF assms(1) r(1,4,3)] q(1) by (auto simp: heap_alloc_def)
qed

text \<open>The whole of \<open>slab::init\<close>.\<close>

lemma slab_init_region:
  assumes wf: "pmm_wf s" and empty: "caches s = 0" "cache_at s = Map.empty" "slab_at s = Map.empty"
    and fr: "free_frames s = {a..<b}" and "0 < a" "a + 541 \<le> b" and hdr: "0 < hdr" "hdr \<le> 2048"
  shows "\<exists>s' cs. slab_init hdr s = Inr s' \<and> heap_ok s' cs
    \<and> map object_size cs = [8, 16, 32, 64, 128, 256, 512, 1024, 2048, 4096]
    \<and> (\<forall>c \<in> set cs. cache_fresh (slab_at s') c) \<and> free_frames s' = {a + 541..<b}"
proof -
  have pages: "slab_pages hdr 4096 = 257" "slab_pages hdr 2048 = 129" "slab_pages hdr 1024 = 65"
    "slab_pages hdr 512 = 33" "slab_pages hdr 256 = 17" "slab_pages hdr 128 = 9" "slab_pages hdr 64 = 5"
    "slab_pages hdr 32 = 3" "slab_pages hdr 16 = 2" "slab_pages hdr 8 = 1"
    using hdr unfolding slab_pages_def by (intro ceil_div_eqI; simp)+
  have sum: "(\<Sum>(nm, sz) \<leftarrow> init_caches. slab_pages hdr sz + 2) = 541" by (simp add: init_caches_def pages)
  have "heap_ok s []" using wf empty by (simp add: heap_ok_def heap_frames_def)
  moreover have "\<forall>(nm, sz) \<in> set init_caches. 0 < sz \<and> sz \<le> 2 ^ 20" by (simp add: init_caches_def)
  ultimately show ?thesis
    using add_caches_region[of s "[]" a b hdr init_caches] fr assms(6,7) hdr sum
    by (fastforce simp: slab_init_add_caches init_caches_def)
qed

section \<open>Properties\<close>

text \<open>
  C7. An allocation on a sound heap takes the first cache of the list that is large enough and the first slab
  of it with a free object, returns the address of an object that was free, marks it taken and
  changes no other slab, and the heap stays sound. A request larger than every cache panics. When every slab of the
  chosen cache is full the search runs into the null pointer: the branch that would add a slab is never reached.
\<close>

theorem heap_alloc_correct:
  assumes "heap_ok s cs"
  shows "case List.find (\<lambda>c. sz \<le> object_size c) cs of
      None \<Rightarrow> heap_alloc hdr sz s
        = Some (Inl (Panicked ''Could not find a cache large enough to suffice the heap allocation''))
    | Some c \<Rightarrow> \<exists>sls. slab_chain (slab_at s) (slabs c) sls \<and> length sls = slab_count c
        \<and> (case List.find (\<lambda>sl. free_objs sl \<noteq> 0) sls of
            None \<Rightarrow> heap_alloc hdr sz s = Some (Inl BadPointer)
          | Some sl \<Rightarrow> \<exists>q i sl'. slab_at s q = Some sl \<and> i < 256 \<and> i \<notin> taken sl \<and> sz \<le> sl_object_size sl
              \<and> heap_alloc hdr sz s = Some (Inr (object_addr sl i, s\<lparr>slab_at := (slab_at s)(q \<mapsto> sl')\<rparr>))
              \<and> taken sl' = insert i (taken sl) \<and> slab_frame sl' = slab_frame sl
              \<and> heap_ok (s\<lparr>slab_at := (slab_at s)(q \<mapsto> sl')\<rparr>) cs)"
proof (cases "List.find (\<lambda>c. sz \<le> object_size c) cs")
  case None
  have "cache_chain (cache_at s) (caches s) cs" using assms by (simp add: heap_ok_def)
  then show ?thesis using cache_for_chain[of s cs sz] None by (simp add: heap_alloc_def)
next
  case (Some c)
  then have c: "sz \<le> object_size c" "c \<in> set cs" by (auto simp: find_Some_iff)
  have "cache_chain (cache_at s) (caches s) cs" using assms by (simp add: heap_ok_def)
  then obtain q where q: "cache_for sz s = Some (Inr (Some q))" "q \<noteq> 0" "cache_at s q = Some c"
    using cache_for_chain[of s cs sz] Some by auto
  obtain sls where sls: "slab_chain (slab_at s) (slabs c) sls" "length sls = slab_count c"
      "\<forall>sl \<in> set sls. slab_wf sl \<and> sl_object_size sl = object_size c"
    using assms c(2) unfolding heap_ok_def cache_ok_def by blast
  note alloc = alloc_obj_chain[OF q(2,3) sls(1), of hdr]
  have eq: "heap_alloc hdr sz s = alloc_obj hdr q s" using q(1) by (simp add: heap_alloc_def)
  show ?thesis
  proof (cases "List.find (\<lambda>sl. free_objs sl \<noteq> 0) sls")
    case None
    then show ?thesis using alloc sls eq Some by auto
  next
    case (Some sl)
    then have "sl \<in> set sls" by (auto simp: find_Some_iff)
    then have "sz \<le> sl_object_size sl" using sls(3) c(1) by simp
    moreover obtain r i sl' where r: "slab_at s r = Some sl" "i < 256" "i \<notin> taken sl"
        "alloc_obj hdr q s = Some (Inr (object_addr sl i, s\<lparr>slab_at := (slab_at s)(r \<mapsto> sl')\<rparr>))"
        "taken sl' = insert i (taken sl)" "slab_wf sl'" "slab_frame sl' = slab_frame sl"
      using alloc sls(3) Some by auto
    moreover have "heap_ok (s\<lparr>slab_at := (slab_at s)(r \<mapsto> sl')\<rparr>) cs"
      using heap_ok_update[OF assms r(1,7,6)] .
    ultimately have "\<exists>q i sl'. slab_at s q = Some sl \<and> i < 256 \<and> i \<notin> taken sl \<and> sz \<le> sl_object_size sl
              \<and> heap_alloc hdr sz s = Some (Inr (object_addr sl i, s\<lparr>slab_at := (slab_at s)(q \<mapsto> sl')\<rparr>))
              \<and> taken sl' = insert i (taken sl) \<and> slab_frame sl' = slab_frame sl
              \<and> heap_ok (s\<lparr>slab_at := (slab_at s)(q \<mapsto> sl')\<rparr>) cs" using eq by auto
    then show ?thesis using sls(1,2) Some \<open>List.find (\<lambda>c. sz \<le> object_size c) cs = Some c\<close>
      by (simp del: neq0_conv) (intro exI[of _ sls], simp del: neq0_conv)
  qed
qed

text \<open>
  A heap with one cache of 8-byte objects, in frame 2, and one slab of it, in frame 3; objects 0 and 2
  are taken.
\<close>

definition sample_slab :: slab where
  "sample_slab = \<lparr>free_objs = 254, sl_object_size = 8, sl_data = kptr 3 + 80,
     sl_bitmap = \<lparr>bm_ptr = kptr 10, bm_data = 5 # replicate 31 0, bm_size = 32\<rparr>, sl_next = 0, sl_previous = 0\<rparr>"

definition sample_cache :: cache where
  "sample_cache = \<lparr>cache_name = ''8 bytes'', object_size = 8, pages_per_slab = 1, slab_count = 1,
     slabs = kptr 3, cache_next = 0\<rparr>"

definition sample_heap :: slab_state where
  "sample_heap = \<lparr>mem = mem sample_pmm, page_allocator = page_allocator sample_pmm, caches = kptr 2,
     cache_at = [kptr 2 \<mapsto> sample_cache], slab_at = [kptr 3 \<mapsto> sample_slab]\<rparr>"

lemma sample_taken: "taken sample_slab = {0, 2}"
proof -
  have "i \<in> taken sample_slab \<longleftrightarrow> i \<in> {0, 2}" for i
  proof (cases "i < 8")
    case True
    then have "i \<in> set [0..<8]" by simp
    then have "i = 0 \<or> i = 1 \<or> i = 2 \<or> i = 3 \<or> i = 4 \<or> i = 5 \<or> i = 6 \<or> i = 7" by auto
    then show ?thesis by (auto simp: taken_def sample_slab_def bm_ones_def bm_bits_def bit_numeral_rec)
  next
    case False
    then have "0 < i div 8" by (simp add: div_greater_zero_iff)
    moreover have "i < 256 \<Longrightarrow> i div 8 < 32" by auto
    ultimately show ?thesis using False
      by (auto simp: taken_def sample_slab_def bm_ones_def bm_bits_def nth_Cons')
  qed
  then show ?thesis by blast
qed

lemma sample_slab_wf: "slab_wf sample_slab"
proof -
  have "unat (kptr 3 + 80) = 0xffff800000003050"
    by (simp add: kptr_def higher_half_def frame_addr_def PAGE_SIZE_def PHYS_BASE_def)
  moreover have "kptr 3 + 80 \<noteq> 0"
    by (simp add: kptr_def higher_half_def frame_addr_def PAGE_SIZE_def PHYS_BASE_def)
  moreover have "card (taken sample_slab) = 2" by (simp add: sample_taken)
  ultimately show ?thesis by (simp add: slab_wf_def sample_slab_def bm_wf_def bm_bits_def)
qed

lemma sample_chain: "slab_chain (slab_at sample_heap) (slabs sample_cache) [sample_slab]"
  using kptr_nonzero[of 3] by (simp add: sample_heap_def sample_cache_def sample_slab_def)

lemma sample_heap_ok: "heap_ok sample_heap [sample_cache]"
proof -
  have f: "2 \<notin> free_frames sample_heap" "3 \<notin> free_frames sample_heap"
    by (simp_all add: sample_heap_def sample_pmm_def free_frames_def bm_ones_def bit_numeral_rec)
  have "heap_frames sample_heap" unfolding heap_frames_def
  proof
    fix p assume "p \<in> dom (cache_at sample_heap) \<union> dom (slab_at sample_heap)"
    then have "p = kptr 2 \<or> p = kptr 3" by (auto simp: sample_heap_def)
    then show "\<exists>f<2 ^ 35. p = kptr f \<and> f \<notin> free_frames sample_heap"
      using f by (auto intro: exI[of _ 2] exI[of _ 3])
  qed
  moreover have "pmm_wf sample_heap" using sample_pmm_wf by (simp add: pmm_wf_def sample_heap_def)
  moreover have "cache_ok (slab_at sample_heap) sample_cache" unfolding cache_ok_def
    using sample_slab_wf sample_chain by (intro exI[of _ "[sample_slab]"]) (simp add: sample_cache_def sample_slab_def)
  moreover have "cache_chain (cache_at sample_heap) (caches sample_heap) [sample_cache]"
    using kptr_nonzero[of 2] by (simp add: sample_heap_def sample_cache_def)
  ultimately show ?thesis by (simp add: heap_ok_def)
qed

theorem heap_alloc_correct_witness:
  "(\<exists>i s'. i < 256 \<and> i \<notin> {0, 2} \<and> heap_alloc 80 5 sample_heap = Some (Inr (object_addr sample_slab i, s')))
   \<and> heap_alloc 80 9 sample_heap
        = Some (Inl (Panicked ''Could not find a cache large enough to suffice the heap allocation''))"
proof -
  have f5: "find (\<lambda>c. 5 \<le> object_size c) [sample_cache] = Some sample_cache"
    and f9: "find (\<lambda>c. 9 \<le> object_size c) [sample_cache] = None" by (simp_all add: sample_cache_def)
  have full: "List.find (\<lambda>sl. free_objs sl \<noteq> 0) [sample_slab] = Some sample_slab" by (simp add: sample_slab_def)
  note alloc = heap_alloc_correct[OF sample_heap_ok, where sz = 5 and hdr = 80, unfolded f5 option.case]
  have "sls = [sample_slab]" if "slab_chain (slab_at sample_heap) (slabs sample_cache) sls" for sls
    by (rule slab_chain_unique[OF that sample_chain])
  with alloc have "case List.find (\<lambda>sl. free_objs sl \<noteq> 0) [sample_slab] of
        None \<Rightarrow> heap_alloc 80 5 sample_heap = Some (Inl BadPointer)
      | Some sl \<Rightarrow> \<exists>q i sl'. slab_at sample_heap q = Some sl \<and> i < 256 \<and> i \<notin> taken sl \<and> 5 \<le> sl_object_size sl
          \<and> heap_alloc 80 5 sample_heap
            = Some (Inr (object_addr sl i, sample_heap\<lparr>slab_at := (slab_at sample_heap)(q \<mapsto> sl')\<rparr>))
          \<and> taken sl' = insert i (taken sl) \<and> slab_frame sl' = slab_frame sl
          \<and> heap_ok (sample_heap\<lparr>slab_at := (slab_at sample_heap)(q \<mapsto> sl')\<rparr>) [sample_cache]"
    by blast
  then have "\<exists>i s'. i < 256 \<and> i \<notin> {0, 2} \<and> heap_alloc 80 5 sample_heap = Some (Inr (object_addr sample_slab i, s'))"
    unfolding full option.case sample_taken by blast
  moreover note heap_alloc_correct[OF sample_heap_ok, where sz = 9 and hdr = 80, unfolded f9 option.case]
  ultimately show ?thesis by blast
qed

text \<open>
  C8. The objects a slab has handed out and not got back never overlap: over any history of allocations, refused
  allocations and releases of held objects, each held object lies inside the data area of the slab, any two of them are
  apart, and the free counter is 256 minus their number. Such a history never meets a fault
  (\<^verbatim>\<open>should never get here\<close> is not reached): an allocation succeeds whenever fewer than 256 are held.
\<close>

theorem slab_objects_exclusive:
  assumes run: "slab_run sl0 (sl, held)" and wf: "slab_wf sl0" and "taken sl0 = {}"
  shows "length held + free_objs sl = 256
    \<and> (\<forall>p \<in> set held. unat (sl_data sl0) \<le> unat p
         \<and> unat p + sl_object_size sl0 \<le> unat (sl_data sl0) + 256 * sl_object_size sl0)
    \<and> (\<forall>m < length held. \<forall>n < m. unat (held ! m) + sl_object_size sl0 \<le> unat (held ! n)
         \<or> unat (held ! n) + sl_object_size sl0 \<le> unat (held ! m))
    \<and> (length held < 256 \<longrightarrow> (\<exists>p sl'. p \<noteq> 0 \<and> slab_alloc sl = Inr (p, sl')))
    \<and> (\<forall>p \<in> set held. \<exists>sl'. slab_dealloc p sl = Inr sl')"
proof (intro conjI ballI allI impI)
  from slab_run_inv[OF assms] obtain "is" where inv: "slab_wf sl" "slab_frame sl = slab_frame sl0"
      "held = map (object_addr sl0) is" "distinct is" "set is = taken sl" by blast
  have sub: "set is \<subseteq> {..<256}" using inv(5) taken_sub by blast
  have len: "length is = card (taken sl)" using inv(4,5) by (metis distinct_card)
  show sum: "length held + free_objs sl = 256"
    using len inv(1,3) card_taken[of sl] by (simp add: slab_wf_def)
  let ?z = "sl_object_size sl0"
  have step: "i * ?z + ?z \<le> j * ?z" if "i < j" for i j :: nat
    using that by (metis Suc_leI add.commute mult_Suc mult_le_mono1)
  have addr: "unat (object_addr sl0 i) = unat (sl_data sl0) + i * ?z" if "i < 256" for i
    using unat_object_addr[OF wf that] .
  { fix p assume "p \<in> set held"
    then obtain i where i: "p = object_addr sl0 i" "i < 256" "i \<in> taken sl" using inv(3,5) sub by auto
    show "unat (sl_data sl0) \<le> unat p" using addr i by simp
    show "unat p + ?z \<le> unat (sl_data sl0) + 256 * ?z" using addr i step[of i 256] by simp
    have "0 < sl_object_size sl" using inv(1) by (simp add: slab_wf_def)
    then show "\<exists>sl'. slab_dealloc p sl = Inr sl'"
      using slab_dealloc_taken[OF inv(1) i(3), of 0] i(1) object_addr_frame[OF inv(2)] by auto }
  have held: "unat (held ! m) = unat (sl_data sl0) + is ! m * ?z" if "m < length held" for m
    using that inv(3) addr[of "is ! m"] sub by (auto simp: subset_iff)
  { fix m n assume mn: "m < length held" "n < m"
    then have "is ! m \<noteq> is ! n" using inv(3,4) by (simp add: nth_eq_iff_index_eq)
    then show "unat (held ! m) + ?z \<le> unat (held ! n) \<or> unat (held ! n) + ?z \<le> unat (held ! m)"
      using step[of "is ! m" "is ! n"] step[of "is ! n" "is ! m"] held[OF mn(1)] held[of n] mn
      by (cases "is ! m < is ! n") (simp_all add: algebra_simps) }
  assume "length held < 256"
  then have "0 < free_objs sl" using sum by simp
  from slab_alloc_free[OF inv(1) this] object_addr_nonzero[OF inv(1)]
  show "\<exists>p sl'. p \<noteq> 0 \<and> slab_alloc sl = Inr (p, sl')" by blast
qed

definition fresh_slab :: slab where
  "fresh_slab = sample_slab\<lparr>free_objs := 256, sl_bitmap := \<lparr>bm_ptr = kptr 10, bm_data = replicate 32 0, bm_size = 32\<rparr>\<rparr>"

lemma fresh_slab_wf: "slab_wf fresh_slab \<and> taken fresh_slab = {}"
proof -
  have t: "taken fresh_slab = {}" by (auto simp: taken_def fresh_slab_def bm_ones_def bm_bits_def)
  then show ?thesis using sample_slab_wf
    by (simp add: slab_wf_def fresh_slab_def sample_slab_def bm_wf_def bm_bits_def)
qed

theorem slab_objects_exclusive_witness:
  "\<exists>p q sl. slab_run fresh_slab (sl, [p, q]) \<and> (unat p + 8 \<le> unat q \<or> unat q + 8 \<le> unat p)"
proof -
  note run0 = slab_run.fresh[of fresh_slab]
  from slab_objects_exclusive[OF run0] fresh_slab_wf obtain q sl1 where q: "q \<noteq> 0" "slab_alloc fresh_slab = Inr (q, sl1)" by auto
  note run1 = slab_run.granted[OF run0 q(2,1)]
  from slab_objects_exclusive[OF run1] fresh_slab_wf obtain p sl2 where p: "p \<noteq> 0" "slab_alloc sl1 = Inr (p, sl2)" by auto
  note run2 = slab_run.granted[OF run1 p(2,1)]
  have "sl_object_size fresh_slab = 8" by (simp add: fresh_slab_def sample_slab_def)
  moreover from slab_objects_exclusive[OF run2] fresh_slab_wf
  have "\<forall>m < length [p, q]. \<forall>n < m. unat ([p, q] ! m) + sl_object_size fresh_slab \<le> unat ([p, q] ! n)
         \<or> unat ([p, q] ! n) + sl_object_size fresh_slab \<le> unat ([p, q] ! m)" by blast
  from this[rule_format, of 1 0]
  have "unat q + sl_object_size fresh_slab \<le> unat p \<or> unat p + sl_object_size fresh_slab \<le> unat q" by simp
  ultimately show ?thesis using run2 by auto
qed

text \<open>
  An object that was just allocated can be given back: in a cache with one slab, whose pages do not wrap
  around the address space, \<^verbatim>\<open>dealloc\<close> with the same layout finds the slab by the address, and the slab has the
  same taken objects and the same counter as before the allocation.
\<close>

theorem heap_alloc_dealloc_roundtrip:
  assumes ok: "heap_ok s cs" and c: "List.find (\<lambda>c. sz \<le> object_size c) cs = Some c"
    and ch: "slab_chain (slab_at s) (slabs c) [sl]" and cnt: "slab_count c = 1"
    and room: "256 * object_size c \<le> pages_per_slab c * 4096"
      "unat (sl_data sl) + pages_per_slab c * 4096 < usize_limit"
    and al: "heap_alloc hdr sz s = Some (Inr (p, s1))"
  shows "\<exists>s2 sl2. heap_dealloc p sz s1 = Some (Inr s2) \<and> s2 = s\<lparr>slab_at := (slab_at s)(slabs c \<mapsto> sl2)\<rparr>
    \<and> taken sl2 = taken sl \<and> free_objs sl2 = free_objs sl \<and> slab_frame sl2 = slab_frame sl \<and> slab_wf sl2"
proof -
  have mem: "c \<in> set cs" using c by (auto simp: find_Some_iff)
  have chain: "cache_chain (cache_at s) (caches s) cs" using ok by (simp add: heap_ok_def)
  obtain k where k: "cache_for sz s = Some (Inr (Some k))" "k \<noteq> 0" "cache_at s k = Some c"
    using cache_for_chain[OF chain, of sz] c by auto
  obtain sls where sls: "slab_chain (slab_at s) (slabs c) sls"
      "\<forall>x \<in> set sls. slab_wf x \<and> sl_object_size x = object_size c"
    using ok mem unfolding heap_ok_def cache_ok_def by blast
  have "sls = [sl]" using slab_chain_unique[OF sls(1) ch] .
  then have wf: "slab_wf sl" "sl_object_size sl = object_size c" using sls(2) by auto
  have al': "alloc_obj hdr k s = Some (Inr (p, s1))" using al k(1) by (simp add: heap_alloc_def)
  note walk = alloc_obj_chain[OF k(2,3) ch, of hdr]
  have ptr: "slabs c \<noteq> 0" "slab_at s (slabs c) = Some sl" using ch by auto
  have free: "0 < free_objs sl" using walk wf al' by (cases "free_objs sl = 0") auto
  then obtain i sl' where i: "i < 256" "i \<notin> taken sl" "slab_alloc sl = Inr (object_addr sl i, sl')"
      "taken sl' = insert i (taken sl)" "free_objs sl' = free_objs sl - 1" "slab_wf sl'" "slab_frame sl' = slab_frame sl"
    using slab_alloc_free[OF wf(1)] by blast
  have "find_slab (slab_at s) (slabs c) = Some (Inr (slabs c))"
    using ptr free by (simp add: find_slab.simps[of _ "slabs c"])
  then have p: "p = object_addr sl i" "s1 = s\<lparr>slab_at := (slab_at s)(slabs c \<mapsto> sl')\<rparr>"
    using al' i(3) ptr k free by (auto simp: alloc_obj_def)
  have keep: "sl_data sl' = sl_data sl" "sl_object_size sl' = sl_object_size sl"
    using slab_frame_simps[OF i(7)] by auto
  have "i * object_size c < 256 * object_size c" using i(1) wf by (simp add: slab_wf_def)
  then have "i * object_size c < pages_per_slab c * 4096" using room(1) by linarith
  then have range: "unat (sl_data sl) \<le> unat p" "unat p < unat (sl_data sl) + pages_per_slab c * 4096"
    using unat_object_addr[OF wf(1) i(1)] p(1) wf(2) by auto
  have "0 < sl_object_size sl'" using i(6) by (simp add: slab_wf_def)
  then obtain sl2 where sl2: "slab_dealloc (object_addr sl' i) sl' = Inr sl2" "taken sl2 = taken sl' - {i}"
      "free_objs sl2 = free_objs sl' + 1" "slab_wf sl2" "slab_frame sl2 = slab_frame sl'"
    using slab_dealloc_taken[OF i(6), of i 0] i(4) by auto
  have "cache_at s1 = cache_at s" "caches s1 = caches s" using p(2) by simp_all
  then have "cache_for sz s1 = Some (Inr (Some k))" using k(1) unfolding cache_for_def by metis
  moreover have "free_obj k p s1 = Inr (s\<lparr>slab_at := (slab_at s)(slabs c \<mapsto> sl2)\<rparr>)"
    using k(2,3) p(2) ptr(1) cnt range room sl2(1) keep object_addr_frame[OF i(7)] p(1)
    by (simp add: free_obj_def loop_simps uadd_def umul_def PAGE_SIZE_def)
  ultimately show ?thesis using sl2 i free by (auto simp: heap_dealloc_def)
qed

theorem heap_alloc_dealloc_roundtrip_witness:
  "\<exists>p s1 s2 sl2. heap_alloc 80 5 sample_heap = Some (Inr (p, s1)) \<and> heap_dealloc p 5 s1 = Some (Inr s2)
     \<and> slab_at s2 (kptr 3) = Some sl2 \<and> taken sl2 = {0, 2} \<and> free_objs sl2 = 254"
proof -
  have f: "List.find (\<lambda>c. 5 \<le> object_size c) [sample_cache] = Some sample_cache" by (simp add: sample_cache_def)
  have chain: "cache_chain (cache_at sample_heap) (caches sample_heap) [sample_cache]"
    using sample_heap_ok by (simp add: heap_ok_def)
  obtain k where k: "cache_for 5 sample_heap = Some (Inr (Some k))" "k \<noteq> 0" "cache_at sample_heap k = Some sample_cache"
    using cache_for_chain[OF chain, of 5] f by auto
  have free: "free_objs sample_slab \<noteq> 0" by (simp add: sample_slab_def)
  from alloc_obj_chain[OF k(2,3) sample_chain, of 80] sample_slab_wf free
  obtain p s1 where "alloc_obj 80 k sample_heap = Some (Inr (p, s1))" by auto
  then have al: "heap_alloc 80 5 sample_heap = Some (Inr (p, s1))" using k(1) by (simp add: heap_alloc_def)
  have "unat (kptr 3 + 80) = 0xffff800000003050"
    by (simp add: kptr_def higher_half_def frame_addr_def PAGE_SIZE_def PHYS_BASE_def)
  then have room: "unat (sl_data sample_slab) + pages_per_slab sample_cache * 4096 < usize_limit"
    "256 * object_size sample_cache \<le> pages_per_slab sample_cache * 4096" "slab_count sample_cache = 1"
    by (simp_all add: sample_cache_def sample_slab_def)
  from heap_alloc_dealloc_roundtrip[OF sample_heap_ok f sample_chain room(3,2,1) al]
  obtain s2 sl2 where s2: "heap_dealloc p 5 s1 = Some (Inr s2)"
      "s2 = sample_heap\<lparr>slab_at := (slab_at sample_heap)(slabs sample_cache \<mapsto> sl2)\<rparr>"
      "taken sl2 = taken sample_slab" "free_objs sl2 = free_objs sample_slab" by blast
  then have "slab_at s2 (kptr 3) = Some sl2" "taken sl2 = {0, 2}" "free_objs sl2 = 254"
    by (simp_all add: sample_taken) (simp_all add: sample_slab_def sample_cache_def)
  then show ?thesis using al s2(1) by blast
qed

text \<open>
  \<^verbatim>\<open>slab::init\<close> succeeds on a machine with enough contiguous free frames (541 for any slab header of at most 2048 bytes) and builds the
  ten caches, the smallest objects first in the list, each with one slab whose objects are all free;
  it takes exactly these frames.
\<close>

theorem slab_init_builds:
  assumes wf: "pmm_wf s" and empty: "caches s = 0" "cache_at s = Map.empty" "slab_at s = Map.empty"
    and fr: "free_frames s = {a..<b}" and "0 < a" "a + 541 \<le> b" and hdr: "0 < hdr" "hdr \<le> 2048"
  shows "\<exists>s' cs. slab_init hdr s = Inr s' \<and> heap_ok s' cs
    \<and> map object_size cs = [8, 16, 32, 64, 128, 256, 512, 1024, 2048, 4096]
    \<and> (\<forall>c \<in> set cs. cache_fresh (slab_at s') c) \<and> free_frames s' = {a + 541..<b}"
  by (rule slab_init_region[OF assms])

text \<open>A machine whose frames 8 to 551 are free and whose heap is not initialised.\<close>

definition boot_heap :: slab_state where
  "boot_heap = \<lparr>mem = (\<lambda>_. 0), page_allocator = Some \<lparr>bm_ptr = PHYS_BASE, bm_data = 0 # replicate 68 (- 1), bm_size = 69\<rparr>,
     caches = 0, cache_at = Map.empty, slab_at = Map.empty\<rparr>"

lemma boot_heap_free: "free_frames boot_heap = {8..<552}"
proof -
  have "i \<in> free_frames boot_heap \<longleftrightarrow> i \<in> {8..<552}" for i
  proof (cases "i < 8")
    case False
    have "0 < i div 8" using False by (simp add: div_greater_zero_iff)
    moreover have "i div 8 - 1 < 68" if "i < 552" using that by auto
    ultimately show ?thesis using False
      by (auto simp: free_frames_def boot_heap_def bm_ones_def bm_bits_def nth_Cons')
  qed (simp add: free_frames_def boot_heap_def bm_ones_def)
  then show ?thesis by blast
qed

theorem slab_init_builds_witness:
  "\<exists>s' cs. slab_init 80 boot_heap = Inr s' \<and> heap_ok s' cs
     \<and> map object_size cs = [8, 16, 32, 64, 128, 256, 512, 1024, 2048, 4096] \<and> free_frames s' = {549..<552}"
proof -
  have "pmm_wf boot_heap" by (simp add: boot_heap_def pmm_wf_def bm_wf_def bm_bits_def)
  from slab_init_builds[OF this _ _ _ boot_heap_free, of 80] show ?thesis by (fastforce simp: boot_heap_def)
qed

end
