(* ===== verification/Vmm.thy ===== *)
theory Vmm
  imports Pmm
begin

text \<open>
  \<^verbatim>\<open>mm/vmm.rs\<close>: address spaces. A \<open>vmm\<close> is the physical address of a four-level page table and
  the list of its mapped ranges; the tables are words of physical memory, read and written through
  pointers. The state adds to the frame allocator the kernel's own address space, the register
  \<^verbatim>\<open>cr3\<close> and the addresses given to \<^verbatim>\<open>invlpg\<close>.

  The flag types are declared with the \<^verbatim>\<open>bitflags\<close> crate. A flag value is modelled by the word
  \<^verbatim>\<open>bits()\<close> returns, with the constants of the source; the operations of the crate are the
  parameter \<open>fl\<close> of the definitions, and \<open>bitflags_laws\<close> says what its documentation promises.
  The type \<open>'fd\<close> stands for \<^verbatim>\<open>vfs::FileDescription\<close>, which this file only stores.
\<close>

section \<open>Flags\<close>

record bitflags_api =
  fl_contains :: "u64 \<Rightarrow> u64 \<Rightarrow> bool"
  fl_union :: "u64 \<Rightarrow> u64 \<Rightarrow> u64"
  fl_remove :: "u64 \<Rightarrow> u64 \<Rightarrow> u64"

definition bitflags_laws :: "bitflags_api \<Rightarrow> bool" where
  "bitflags_laws fl \<longleftrightarrow>
     (\<forall>a b. fl_contains fl a b \<longleftrightarrow> a AND b = b) \<and> (\<forall>a b. fl_union fl a b = a OR b)
     \<and> (\<forall>a b. fl_remove fl a b = a AND NOT b)"

text \<open>Operations on the bits that satisfy these laws.\<close>

definition bitflags_ref :: bitflags_api where
  "bitflags_ref = \<lparr>fl_contains = (\<lambda>a b. a AND b = b), fl_union = (OR), fl_remove = (\<lambda>a b. a AND NOT b)\<rparr>"

definition PageFlags_PRESENT :: u64 where "PageFlags_PRESENT = push_bit 0 1"
definition PageFlags_WRITABLE :: u64 where "PageFlags_WRITABLE = push_bit 1 1"
definition PageFlags_USERMODE :: u64 where "PageFlags_USERMODE = push_bit 2 1"
definition PageFlags_WT :: u64 where "PageFlags_WT = push_bit 3 1"
definition PageFlags_UNCACHEABLE :: u64 where "PageFlags_UNCACHEABLE = push_bit 4 1"
definition PageFlags_MMAPED :: u64 where "PageFlags_MMAPED = push_bit 9 1"
definition PageFlags_NX :: u64 where "PageFlags_NX = push_bit 63 1"

definition MapProt_NONE :: u64 where "MapProt_NONE = 0x0"
definition MapProt_READ :: u64 where "MapProt_READ = 0x1"
definition MapProt_WRITE :: u64 where "MapProt_WRITE = 0x2"
definition MapProt_EXEC :: u64 where "MapProt_EXEC = 0x4"

definition MapFlags_SHARED :: u64 where "MapFlags_SHARED = 0x0001"
definition MapFlags_PRIVATE :: u64 where "MapFlags_PRIVATE = 0x0002"
definition MapFlags_FIXED :: u64 where "MapFlags_FIXED = 0x0010"
definition MapFlags_ANONYMOUS :: u64 where "MapFlags_ANONYMOUS = 0x1000"

text \<open>\<^verbatim>\<open>impl From<MapProt> for PageFlags\<close>.\<close>

definition page_flags_from :: "bitflags_api \<Rightarrow> u64 \<Rightarrow> u64" where
  "page_flags_from fl prot =
     (let page_flags = PageFlags_NX in
      if fl_contains fl prot MapProt_NONE then page_flags
      else
        let page_flags = if fl_contains fl prot MapProt_WRITE
                         then fl_union fl page_flags PageFlags_WRITABLE else page_flags;
            page_flags = if fl_contains fl prot MapProt_READ
                         then fl_union fl page_flags PageFlags_USERMODE else page_flags;
            page_flags = if fl_contains fl prot MapProt_EXEC
                         then fl_remove fl page_flags PageFlags_NX else page_flags
        in page_flags)"

section \<open>Addresses and mappings\<close>

datatype virt_addr = VirtAddr (va_u64: u64)

definition pml4 :: "virt_addr \<Rightarrow> u16" where
  "pml4 v = ucast (drop_bit 39 (va_u64 v) AND 0x1ff)"

definition pdp :: "virt_addr \<Rightarrow> u16" where
  "pdp v = ucast (drop_bit 30 (va_u64 v) AND 0x1ff)"

definition pd :: "virt_addr \<Rightarrow> u16" where
  "pd v = ucast (drop_bit 21 (va_u64 v) AND 0x1ff)"

definition pt :: "virt_addr \<Rightarrow> u16" where
  "pt v = ucast (drop_bit 12 (va_u64 v) AND 0x1ff)"

datatype page_mapping = PageMapping (pm_u64: u64)

definition pm_phys_addr :: "page_mapping \<Rightarrow> phys_addr" where
  "pm_phys_addr m = remove_flags (PhysAddr (pm_u64 m))"

definition is_present :: "page_mapping \<Rightarrow> bool" where
  "is_present m = (pm_u64 m AND PageFlags_PRESENT \<noteq> 0)"

definition is_writable :: "page_mapping \<Rightarrow> bool" where
  "is_writable m = (pm_u64 m AND PageFlags_WRITABLE \<noteq> 0)"

definition is_usermode :: "page_mapping \<Rightarrow> bool" where
  "is_usermode m = (pm_u64 m AND PageFlags_USERMODE \<noteq> 0)"

definition is_uncacheable :: "page_mapping \<Rightarrow> bool" where
  "is_uncacheable m = (pm_u64 m AND PageFlags_UNCACHEABLE \<noteq> 0)"

definition is_mmaped :: "page_mapping \<Rightarrow> bool" where
  "is_mmaped m = (pm_u64 m AND PageFlags_MMAPED \<noteq> 0)"

definition is_non_exec :: "page_mapping \<Rightarrow> bool" where
  "is_non_exec m = (pm_u64 m AND PageFlags_NX \<noteq> 0)"

section \<open>State\<close>

record 'fd vm_range =
  rg_base :: virt_addr
  rg_length :: usize
  rg_prot :: u64
  rg_flags :: u64
  rg_offset :: usize
  rg_fd :: "'fd option"

definition rg_start :: "'fd vm_range \<Rightarrow> u64" where
  "rg_start r = va_u64 (rg_base r)"

definition rg_end :: "'fd vm_range \<Rightarrow> u64 res" where
  "rg_end r = wadd (va_u64 (rg_base r)) (of_nat (rg_length r))"

definition is_anon_map :: "bitflags_api \<Rightarrow> 'fd vm_range \<Rightarrow> bool" where
  "is_anon_map fl r = fl_contains fl (rg_flags r) MapFlags_ANONYMOUS"

definition is_private_map :: "bitflags_api \<Rightarrow> 'fd vm_range \<Rightarrow> bool" where
  "is_private_map fl r = fl_contains fl (rg_flags r) MapFlags_PRIVATE"

definition is_shared_map :: "bitflags_api \<Rightarrow> 'fd vm_range \<Rightarrow> bool" where
  "is_shared_map fl r = fl_contains fl (rg_flags r) MapFlags_SHARED"

record 'fd vmm =
  pagemap :: phys_addr
  ranges :: "'fd vm_range list"

record 'fd vmm_state = pmm_state +
  kernel_vmm :: "'fd vmm option"
  cr3 :: u64
  flushed :: "u64 list"

definition vmm_get :: "('fd, 'z) vmm_state_scheme \<Rightarrow> 'fd vmm res" where
  "vmm_get s = expect ''The VMM hasn't been initialized'' (kernel_vmm s)"

section \<open>Page tables\<close>

text \<open>The pointer \<^verbatim>\<open>base.offset(i)\<close> to the \<open>i\<close>th word from \<open>base\<close>.\<close>

definition word_ptr :: "u64 \<Rightarrow> nat \<Rightarrow> u64" where
  "word_ptr base i = base + of_nat (8 * i)"

definition read_word :: "u64 \<Rightarrow> nat \<Rightarrow> 'z pmm_state_scheme \<Rightarrow> u64" where
  "read_word base i s = load_u64 (mem s) (direct (word_ptr base i))"

definition write_word :: "u64 \<Rightarrow> nat \<Rightarrow> u64 \<Rightarrow> 'z pmm_state_scheme \<Rightarrow> 'z pmm_state_scheme" where
  "write_word base i v s = s\<lparr>mem := store_u64 (mem s) (direct (word_ptr base i)) v\<rparr>"

definition vmm_new :: "bool \<Rightarrow> ('fd, 'z) vmm_state_scheme \<Rightarrow> ('fd vmm \<times> ('fd, 'z) vmm_state_scheme) res" where
  "vmm_new usermode s =
     (if \<not> usermode then Inr (\<lparr>pagemap = PhysAddr 0, ranges = []\<rparr>, s)
      else
        bnd (pmm_calloc 1 s) (\<lambda>(r, s).
        bnd (expect ''Could not allocate a new pml4'' r) (\<lambda>pml4.
        let pml4_ptr = as_u64 (higher_half pml4) in
        bnd (vmm_get s) (\<lambda>k.
        let kernel_vmm_ptr = as_u64 (pagemap k);
            s = write_word pml4_ptr 256 (read_word kernel_vmm_ptr 256 s) s;
            s = write_word pml4_ptr 511 (read_word kernel_vmm_ptr 511 s) s in
          Inr (\<lparr>pagemap = pml4, ranges = []\<rparr>, s)))))"

definition get_next_level ::
  "bitflags_api \<Rightarrow> phys_addr \<Rightarrow> nat \<Rightarrow> 'z pmm_state_scheme \<Rightarrow> (phys_addr \<times> 'z pmm_state_scheme) res" where
  "get_next_level fl cur index s =
     (let level = as_u64 (higher_half cur) in
      if read_word level index s AND 1 = 0 then
        bnd (pmm_calloc 1 s) (\<lambda>(r, s).
        bnd (expect ''Could not allocate a page needed for get_next_level'' r) (\<lambda>a.
        let entry = as_u64 a;
            flags = fl_union fl (fl_union fl PageFlags_PRESENT PageFlags_WRITABLE) PageFlags_USERMODE in
          Inr (PhysAddr entry, write_word level index (entry OR flags) s)))
      else Inr (remove_flags (PhysAddr (read_word level index s)), s))"

definition invlpg :: "virt_addr \<Rightarrow> ('fd, 'z) vmm_state_scheme \<Rightarrow> ('fd, 'z) vmm_state_scheme" where
  "invlpg v s = s\<lparr>flushed := flushed s @ [va_u64 v]\<rparr>"

definition map_page ::
  "bitflags_api \<Rightarrow> 'fd vmm \<Rightarrow> virt_addr \<Rightarrow> phys_addr \<Rightarrow> u64 \<Rightarrow> bool \<Rightarrow>
     ('fd, 'z) vmm_state_scheme \<Rightarrow> ('fd, 'z) vmm_state_scheme res" where
  "map_page fl self v phys flags flush_prev s =
     (let s = if flush_prev then invlpg v s else s;
          pml4e = unat (pml4 v); pdpe = unat (pdp v); pde = unat (pd v); pte = unat (pt v) in
      bnd (get_next_level fl (pagemap self) pml4e s) (\<lambda>(pdp, s).
      bnd (get_next_level fl pdp pdpe s) (\<lambda>(pd, s).
      bnd (get_next_level fl pd pde s) (\<lambda>(page_table, s).
        Inr (write_word (as_u64 page_table) pte (as_u64 phys OR flags) s)))))"

definition get_mapping ::
  "bitflags_api \<Rightarrow> 'fd vmm \<Rightarrow> virt_addr \<Rightarrow> ('fd, 'z) vmm_state_scheme \<Rightarrow>
     (page_mapping \<times> ('fd, 'z) vmm_state_scheme) res" where
  "get_mapping fl self v s =
     (let pml4e = unat (pml4 v); pdpe = unat (pdp v); pde = unat (pd v); pte = unat (pt v) in
      bnd (get_next_level fl (pagemap self) pml4e s) (\<lambda>(pdp, s).
      bnd (get_next_level fl pdp pdpe s) (\<lambda>(pd, s).
      bnd (get_next_level fl pd pde s) (\<lambda>(page_table, s).
        Inr (PageMapping (read_word (as_u64 page_table) pte s), s)))))"

definition switch_pagemap :: "'fd vmm \<Rightarrow> ('fd, 'z) vmm_state_scheme \<Rightarrow> ('fd, 'z) vmm_state_scheme" where
  "switch_pagemap self s = s\<lparr>cr3 := as_u64 (pagemap self)\<rparr>"

section \<open>Ranges\<close>

definition get_free_range :: "'fd vmm \<Rightarrow> usize \<Rightarrow> virt_addr res" where
  "get_free_range self len = Inl Todo"

text \<open>\<^verbatim>\<open>a > entry.start() && a < entry.end()\<close>: the end is computed only when the first test holds.\<close>

definition strictly_inside :: "u64 \<Rightarrow> 'fd vm_range \<Rightarrow> bool res" where
  "strictly_inside a r =
     (if a > rg_start r then bnd (rg_end r) (\<lambda>e. Inr (a < e)) else Inr False)"

fun get_range_in :: "'fd vm_range list \<Rightarrow> u64 \<Rightarrow> 'fd vm_range option res" where
  "get_range_in [] a = Inr None"
| "get_range_in (entry # es) a =
     bnd (strictly_inside a entry) (\<lambda>inside. if inside then Inr (Some entry) else get_range_in es a)"

definition get_range :: "'fd vmm \<Rightarrow> virt_addr \<Rightarrow> 'fd vm_range option res" where
  "get_range self v = get_range_in (ranges self) (va_u64 v)"

text \<open>The loop of \<^verbatim>\<open>mmap\<close> over the ranges: the address becomes a free range on every overlap.\<close>

fun avoid_overlap :: "'fd vmm \<Rightarrow> 'fd vm_range list \<Rightarrow> u64 \<Rightarrow> u64 \<Rightarrow> usize \<Rightarrow> virt_addr \<Rightarrow> virt_addr res" where
  "avoid_overlap self [] a b len v = Inr v"
| "avoid_overlap self (entry # es) a b len v =
     bnd (strictly_inside a entry) (\<lambda>hit_start.
     bnd (if hit_start then Inr True else strictly_inside b entry) (\<lambda>hit.
     bnd (if hit then get_free_range self len else Inr v) (\<lambda>v.
       avoid_overlap self es a b len v)))"

definition mmap ::
  "bitflags_api \<Rightarrow> 'fd vmm \<Rightarrow> virt_addr option \<Rightarrow> u64 \<Rightarrow> u64 \<Rightarrow> u64 \<Rightarrow> 'fd option \<Rightarrow> usize \<Rightarrow>
     ('fd, 'z) vmm_state_scheme \<Rightarrow> ('fd vmm \<times> ('fd, 'z) vmm_state_scheme) res" where
  "mmap fl self address len prot flags fd offset s =
     (if address = None \<and> fl_contains fl flags MapFlags_FIXED then Inr (self, s)
      else
        bnd (case address of
               Some v \<Rightarrow>
                 bnd (wadd (va_u64 v) len) (\<lambda>new_range_end.
                   if \<not> fl_contains fl flags MapFlags_FIXED
                   then avoid_overlap self (ranges self) (va_u64 v) new_range_end (unat len) v
                   else Inr v)
             | None \<Rightarrow> get_free_range self (unat len)) (\<lambda>range_address.
        bnd (wadd (va_u64 range_address) len) (\<lambda>new_range_end.
        bnd (for_each 0 (ceil_div (unat len) (unat PAGE_SIZE))
               (\<lambda>i s. map_page fl self (VirtAddr (va_u64 range_address + of_nat i * PAGE_SIZE)) (PhysAddr 0)
                        (fl_union fl (page_flags_from fl prot) PageFlags_MMAPED) True s) s) (\<lambda>s.
          Inr (self\<lparr>ranges := ranges self @ [\<lparr>rg_base = range_address, rg_length = unat len, rg_prot = prot,
                 rg_flags = flags, rg_offset = offset, rg_fd = fd\<rparr>]\<rparr>, s)))))"

section \<open>Initialisation\<close>

definition vmm_init :: "('fd, 'z) vmm_state_scheme \<Rightarrow> ('fd, 'z) vmm_state_scheme res" where
  "vmm_init s =
     (let pml4 = cr3 s in
      bnd (vmm_new False s) (\<lambda>(kernel, s).
        Inr (s\<lparr>kernel_vmm := Some (kernel\<lparr>pagemap := PhysAddr pml4\<rparr>)\<rparr>)))"

end
