(* ===== verification/Vmm_Tables.thy ===== *)
theory Vmm_Tables
  imports Vmm
begin

text \<open>
  What the page-table code of \<^verbatim>\<open>mm/vmm.rs\<close> does to an address space. The tables in memory form a tree:
  \<open>walk\<close> follows a path of indices from the root, and an address space is sound when the tables on
  the paths are different frames, none of them free. On a sound address space \<open>map_page\<close> and \<open>get_mapping\<close>
  refine a function from pages to entries.
\<close>

section \<open>Trees of tables\<close>

type_synonym tables = "nat \<Rightarrow> nat \<Rightarrow> u64"

definition entry_frame :: "u64 \<Rightarrow> nat" where
  "entry_frame e = unat (e AND 0x000ffffffffff000) div 4096"

definition tbl_next :: "tables \<Rightarrow> nat \<Rightarrow> nat \<Rightarrow> nat option" where
  "tbl_next E f i = (if E f i AND 1 = 0 then None else Some (entry_frame (E f i)))"

fun walk :: "tables \<Rightarrow> nat \<Rightarrow> nat list \<Rightarrow> nat option" where
  "walk E r [] = Some r"
| "walk E r (i # is) = (case tbl_next E r i of None \<Rightarrow> None | Some g \<Rightarrow> walk E g is)"

definition vpath :: "nat list \<Rightarrow> bool" where
  "vpath is \<longleftrightarrow> length is \<le> 3 \<and> set is \<subseteq> {..<512}"

definition tree_wf :: "tables \<Rightarrow> nat \<Rightarrow> nat set \<Rightarrow> bool" where
  "tree_wf E r F \<longleftrightarrow>
     (\<forall>is f. vpath is \<longrightarrow> walk E r is = Some f \<longrightarrow> f < 2 ^ 35 \<and> f \<notin> F)
   \<and> (\<forall>is js f. vpath is \<longrightarrow> vpath js \<longrightarrow> walk E r is = Some f \<longrightarrow> walk E r js = Some f \<longrightarrow> is = js)"

definition leaf :: "tables \<Rightarrow> nat \<Rightarrow> nat list \<Rightarrow> nat \<Rightarrow> u64" where
  "leaf E r is i = (case walk E r is of None \<Rightarrow> 0 | Some f \<Rightarrow> E f i)"

lemma walk_snoc: "walk E r (is @ [i]) = (case walk E r is of None \<Rightarrow> None | Some f \<Rightarrow> tbl_next E f i)"
  by (induction "is" arbitrary: r) (auto split: option.splits)

lemma vpath_snoc: "vpath (is @ [i]) \<longleftrightarrow> vpath is \<and> length is \<le> 2 \<and> i < 512"
  by (auto simp: vpath_def)

lemma tree_wfD:
  assumes "tree_wf E r F" "vpath is" "walk E r is = Some f"
  shows "f < 2 ^ 35" "f \<notin> F"
  using assms unfolding tree_wf_def by blast+

lemma tree_inj:
  assumes "tree_wf E r F" "vpath is" "vpath js" "walk E r is = Some f" "walk E r js = Some f"
  shows "is = js"
  using assms unfolding tree_wf_def by blast

lemma tree_wf_sub: "tree_wf E r F \<Longrightarrow> F' \<subseteq> F \<Longrightarrow> tree_wf E r F'"
  unfolding tree_wf_def by blast

text \<open>A new empty table \<open>g\<close>, entered at index \<open>i\<close> of the table at path \<open>is\<close>.\<close>

definition grow :: "tables \<Rightarrow> nat \<Rightarrow> nat \<Rightarrow> nat \<Rightarrow> u64 \<Rightarrow> tables" where
  "grow E f i g x = (\<lambda>h j. if h = f \<and> j = i then x else if h = g then 0 else E h j)"

lemma walk_grow:
  assumes wf: "tree_wf E r F" and p: "vpath (is @ [i])" and f: "walk E r is = Some f"
    and none: "tbl_next E f i = None" and g: "g \<in> F" and x: "x AND 1 \<noteq> 0" "entry_frame x = g"
    and js: "vpath js"
  shows "walk (grow E f i g x) r js = (if js = is @ [i] then Some g else walk E r js)"
  using js
proof (induction js rule: rev_induct)
  case Nil
  then show ?case by simp
next
  case (snoc j js)
  let ?E = "grow E f i g x"
  have vis: "vpath is" and vjs: "vpath js" using p snoc.prems by (auto simp: vpath_snoc)
  have fg: "f \<noteq> g" using tree_wfD[OF wf vis f] g by blast
  note IH = snoc.IH[OF vjs]
  show ?case
  proof (cases "js = is")
    case True
    then have "walk ?E r js = Some f" using IH f by simp
    moreover have "tbl_next ?E f j = (if j = i then Some g else tbl_next E f j)"
      using x fg by (simp add: tbl_next_def grow_def)
    ultimately show ?thesis using True f by (simp add: walk_snoc)
  next
    case False
    show ?thesis
    proof (cases "js = is @ [i]")
      case True
      then have ends: "walk ?E r js = Some g" "walk E r js = None" using IH f none by (simp_all add: walk_snoc)
      have "tbl_next ?E g j = None" using fg by (simp add: tbl_next_def grow_def)
      then have "walk ?E r (js @ [j]) = None" "walk E r (js @ [j]) = None" using ends by (simp_all only: walk_snoc option.case)
      then show ?thesis using True by simp
    next
      case new: False
      then have same: "walk ?E r js = walk E r js" using IH by simp
      show ?thesis
      proof (cases "walk E r js")
        case None
        then show ?thesis using same False by (simp add: walk_snoc)
      next
        case (Some h)
        have "h \<noteq> g" using tree_wfD[OF wf vjs Some] g by blast
        moreover have "h \<noteq> f" using tree_inj[OF wf vjs vis] Some f False by blast
        ultimately have "tbl_next ?E h j = tbl_next E h j" by (simp add: tbl_next_def grow_def)
        then show ?thesis using same Some False by (simp add: walk_snoc)
      qed
    qed
  qed
qed

lemma grow_wf:
  assumes wf: "tree_wf E r F" and p: "vpath (is @ [i])" and f: "walk E r is = Some f"
    and none: "tbl_next E f i = None" and g: "g \<in> F" "g < 2 ^ 35" and x: "x AND 1 \<noteq> 0" "entry_frame x = g"
  shows "tree_wf (grow E f i g x) r (F - {g})"
proof -
  note walk = walk_grow[OF wf p f none g(1) x]
  have old: "walk E r js \<noteq> Some g" if "vpath js" for js using tree_wfD[OF wf that] g(1) by blast
  show ?thesis unfolding tree_wf_def
  proof (intro conjI allI impI)
    fix js h assume js: "vpath js" "walk (grow E f i g x) r js = Some h"
    show "h < 2 ^ 35" "h \<notin> F - {g}"
      using walk[OF js(1)] js(2) tree_wfD[OF wf js(1)] g(2) by (auto split: if_splits)
  next
    fix js ks h
    assume js: "vpath js" "walk (grow E f i g x) r js = Some h"
      and ks: "vpath ks" "walk (grow E f i g x) r ks = Some h"
    have "walk E r js = Some h" "walk E r ks = Some h" if "js \<noteq> is @ [i] \<or> ks \<noteq> is @ [i]"
      using that walk[OF js(1)] walk[OF ks(1)] js ks old[OF js(1)] old[OF ks(1)] by (auto split: if_splits)
    then show "js = ks" using tree_inj[OF wf js(1) ks(1)] by blast
  qed
qed

lemma grow_leaf:
  assumes wf: "tree_wf E r F" and p: "vpath (is @ [i])" and f: "walk E r is = Some f"
    and none: "tbl_next E f i = None" and g: "g \<in> F" and x: "x AND 1 \<noteq> 0" "entry_frame x = g"
    and js: "vpath js" "length js = 3"
  shows "leaf (grow E f i g x) r js j = leaf E r js j"
proof -
  have vis: "vpath is" "length is \<le> 2" using p by (auto simp: vpath_snoc)
  have "walk E r (is @ [i]) = None" using f none by (simp add: walk_snoc)
  moreover have "h \<noteq> f \<and> h \<noteq> g" if "walk E r js = Some h" for h
    using that tree_inj[OF wf js(1) vis(1) _ f] js(2) vis(2) tree_wfD[OF wf js(1) that] g by auto
  moreover have "f \<noteq> g" using tree_wfD[OF wf vis(1) f] g by blast
  ultimately show ?thesis
    using walk_grow[OF wf p f none g x js(1)] by (auto simp: leaf_def grow_def split: option.splits)
qed

text \<open>A new entry in a table of the last level.\<close>

definition put_leaf :: "tables \<Rightarrow> nat \<Rightarrow> nat \<Rightarrow> u64 \<Rightarrow> tables" where
  "put_leaf E f i x = (\<lambda>h j. if h = f \<and> j = i then x else E h j)"

lemma walk_put:
  assumes wf: "tree_wf E r F" and p: "vpath is" "length is = 3" and f: "walk E r is = Some f" and js: "vpath js"
  shows "walk (put_leaf E f i x) r js = walk E r js"
  using js
proof (induction js rule: rev_induct)
  case Nil
  then show ?case by simp
next
  case (snoc j js)
  have vjs: "vpath js" "length js \<le> 2" using snoc.prems by (auto simp: vpath_snoc)
  have "tbl_next (put_leaf E f i x) h j = tbl_next E h j" if "walk E r js = Some h" for h
    using tree_inj[OF wf vjs(1) p(1) that] f vjs(2) p(2) by (auto simp: tbl_next_def put_leaf_def)
  then show ?case using snoc.IH[OF vjs(1)] by (auto simp: walk_snoc split: option.splits)
qed

lemma put_wf:
  assumes "tree_wf E r F" "vpath is" "length is = 3" "walk E r is = Some f"
  shows "tree_wf (put_leaf E f i x) r F"
  using assms(1) walk_put[OF assms] by (simp add: tree_wf_def)

lemma put_leaf_leaf:
  assumes "tree_wf E r F" "vpath is" "length is = 3" "walk E r is = Some f" "vpath js"
  shows "leaf (put_leaf E f i x) r js j = (if js = is \<and> j = i then x else leaf E r js j)"
proof (cases "walk E r js")
  case None
  then show ?thesis using walk_put[OF assms] assms(4) by (auto simp: leaf_def)
next
  case (Some h)
  have "h = f \<longleftrightarrow> js = is" using tree_inj[OF assms(1,5,2) Some] Some assms(4) by auto
  then show ?thesis using walk_put[OF assms] Some by (simp add: leaf_def put_leaf_def)
qed

section \<open>Tables in memory\<close>

definition entries :: "'z pmm_state_scheme \<Rightarrow> tables" where
  "entries s f i = (if f < 2 ^ 35 \<and> i < 512
     then load_u64 (mem s) (of_nat f * PAGE_SIZE + of_nat (8 * i)) else 0)"

definition aspace_ok :: "'z pmm_state_scheme \<Rightarrow> nat \<Rightarrow> bool" where
  "aspace_ok s r \<longleftrightarrow> pmm_wf s \<and> tree_wf (entries s) r (free_frames s)"

lemma unat_entry_addr:
  assumes "f < 2 ^ 35" "i < 512"
  shows "unat (of_nat f * PAGE_SIZE + of_nat (8 * i) :: u64) = f * 4096 + 8 * i"
proof -
  have "unat (of_nat f * PAGE_SIZE) = f * 4096" using assms(1) by (simp add: unat_frame_addr)
  moreover have "f * 4096 + 8 * i < 2 ^ 64" using assms by simp
  ultimately show ?thesis using unat_plus_no_wrap[of "of_nat f * PAGE_SIZE" "8 * i"] by simp
qed

lemma lower_entry_addr:
  assumes "f < 2 ^ 35" "i < 512"
  shows "lower (of_nat f * PAGE_SIZE + of_nat (8 * i))"
  unfolding lower_def word_less_nat_alt unat_entry_addr[OF assms] using assms by simp

lemma direct_word_ptr:
  assumes "f < 2 ^ 35" "i < 512"
  shows "direct (word_ptr (as_u64 (frame_addr f)) i) = of_nat f * PAGE_SIZE + of_nat (8 * i)"
    "direct (word_ptr (as_u64 (higher_half (frame_addr f))) i) = of_nat f * PAGE_SIZE + of_nat (8 * i)"
proof -
  have "word_ptr (kptr f) i = (of_nat f * PAGE_SIZE + of_nat (8 * i)) + PHYS_BASE"
    using assms by (simp add: word_ptr_def kptr_plus)
  then show "direct (word_ptr (as_u64 (higher_half (frame_addr f))) i) = of_nat f * PAGE_SIZE + of_nat (8 * i)"
    using lower_entry_addr[OF assms] by (simp flip: kptr_def)
  show "direct (word_ptr (as_u64 (frame_addr f)) i) = of_nat f * PAGE_SIZE + of_nat (8 * i)"
    using lower_entry_addr[OF assms] by (simp add: word_ptr_def frame_addr_def)
qed

lemma read_table:
  assumes "f < 2 ^ 35" "i < 512"
  shows "read_word (as_u64 (frame_addr f)) i s = entries s f i"
    "read_word (as_u64 (higher_half (frame_addr f))) i s = entries s f i"
  using direct_word_ptr[OF assms] assms by (simp_all add: read_word_def entries_def)

lemma entries_store:
  assumes "f < 2 ^ 35" "i < 512"
    and "mem s' = store_u64 (mem s) (of_nat f * PAGE_SIZE + of_nat (8 * i)) v"
  shows "entries s' = put_leaf (entries s) f i v"
proof (intro ext)
  fix h j
  show "entries s' h j = put_leaf (entries s) f i v h j"
  proof (cases "h < 2 ^ 35 \<and> j < 512")
    case True
    note u = unat_entry_addr[OF assms(1,2)] unat_entry_addr[of h j]
    show ?thesis
    proof (cases "h = f \<and> j = i")
      case False
      have "h * 4096 + 8 * j + 8 \<le> f * 4096 + 8 * i \<or> f * 4096 + 8 * i + 8 \<le> h * 4096 + 8 * j"
      proof (cases "h = f")
        case True
        then show ?thesis using False by auto
      next
        case hf: False
        then have "h + 1 \<le> f \<or> f + 1 \<le> h" by auto
        then show ?thesis using True assms(2) by (auto elim!: le_Suc_ex[elim_format] simp: algebra_simps)
      qed
      then have "apart (of_nat h * PAGE_SIZE + of_nat (8 * j)) 8 (of_nat f * PAGE_SIZE + of_nat (8 * i)) 8"
        using u True assms(1,2) by (intro apart_if_disjoint) auto
      then show ?thesis using True False assms(3) by (auto simp: entries_def put_leaf_def load_store_u64_apart)
    qed (use assms in \<open>simp add: entries_def put_leaf_def\<close>)
  qed (use assms in \<open>auto simp: entries_def put_leaf_def\<close>)
qed

lemma entries_write:
  assumes "f < 2 ^ 35" "i < 512"
  shows "entries (write_word (as_u64 (frame_addr f)) i v s) = put_leaf (entries s) f i v"
    "entries (write_word (as_u64 (higher_half (frame_addr f))) i v s) = put_leaf (entries s) f i v"
  by (rule entries_store[OF assms]; simp add: write_word_def direct_word_ptr[OF assms])+

lemma entries_fill:
  assumes g: "g < 2 ^ 35" and m: "mem s' = fill_bytes (mem s) (as_u64 (frame_addr g)) 0 4096"
  shows "entries s' h j = (if h = g then 0 else entries s h j)"
proof (cases "h < 2 ^ 35 \<and> j < 512")
  case True
  let ?a = "of_nat h * PAGE_SIZE + of_nat (8 * j) :: u64"
  have u: "unat ?a = h * 4096 + 8 * j" "unat (as_u64 (frame_addr g)) = g * 4096"
    using True g by (simp_all only: unat_entry_addr frame_addr_def phys_addr.sel) (simp add: unat_frame_addr)
  show ?thesis
  proof (cases "h = g")
    case eq: True
    then have "load_bytes (mem s') ?a 8 = replicate 8 0"
      unfolding m using u True by (intro load_fill_inside) auto
    then show ?thesis using eq True by (simp add: entries_def load_u64_def)
  next
    case False
    then have "h + 1 \<le> g \<or> g + 1 \<le> h" by auto
    then have "h * 4096 + 8 * j + 8 \<le> g * 4096 \<or> g * 4096 + 4096 \<le> h * 4096 + 8 * j" using True by auto
    then have "apart ?a 8 (as_u64 (frame_addr g)) 4096"
      using u True g by (intro apart_if_disjoint) auto
    then have "load_bytes (mem s') ?a 8 = load_bytes (mem s) ?a 8" unfolding m by (rule load_fill_apart)
    then show ?thesis using False True by (simp add: entries_def load_u64_def)
  qed
qed (use assms in \<open>auto simp: entries_def\<close>)

lemma addr_mask: "0x000ffffffffff000 = (mask 52 AND NOT (mask 12) :: u64)"
  by (simp add: mask_eq_exp_minus_1)

lemma frame_addr_push: "as_u64 (frame_addr g) = push_bit 12 (of_nat g)"
  by (simp add: frame_addr_def PAGE_SIZE_def push_bit_eq_mult)

lemma entry_frame_drop: "entry_frame e = unat (drop_bit 12 (e AND (mask 52 AND NOT (mask 12))))"
  unfolding entry_frame_def addr_mask unat_drop_bit_eq by (simp add: drop_bit_eq_div)

lemma entry_frame_addr: "remove_flags (PhysAddr e) = frame_addr (entry_frame e)"
proof -
  have "push_bit 12 (drop_bit 12 (e AND (mask 52 AND NOT (mask 12)))) = e AND (mask 52 AND NOT (mask 12))"
    by (rule bit_word_eqI) (auto simp: bit_simps)
  then have "as_u64 (frame_addr (entry_frame e)) = e AND (mask 52 AND NOT (mask 12))"
    by (simp only: frame_addr_push entry_frame_drop of_nat_unat ucast_id)
  then show ?thesis unfolding remove_flags_def addr_mask by (metis phys_addr.collapse phys_addr.sel)
qed

lemma new_entry:
  assumes "g < 2 ^ 35"
  shows "(as_u64 (frame_addr g) OR 7) AND 1 \<noteq> 0" "entry_frame (as_u64 (frame_addr g) OR 7) = g"
proof -
  let ?w = "of_nat g :: u64"
  have "(push_bit 12 ?w OR 7) AND 1 = 1" by (rule bit_word_eqI) (auto simp: bit_simps)
  then show "(as_u64 (frame_addr g) OR 7) AND 1 \<noteq> 0" by (simp add: frame_addr_push)
  have "take_bit 35 g = g" using assms by (simp add: take_bit_nat_eq_self)
  then have small: "n < 35" if "bit g n" for n using that by (metis bit_take_bit_iff)
  have seven: "7 = (mask 3 :: u64)" by (simp add: mask_eq_exp_minus_1)
  have "drop_bit 12 ((push_bit 12 ?w OR 7) AND (mask 52 AND NOT (mask 12))) = ?w"
    unfolding seven by (rule bit_word_eqI) (auto simp: bit_simps dest: small)
  then show "entry_frame (as_u64 (frame_addr g) OR 7) = g"
    using assms by (simp add: entry_frame_drop frame_addr_push)
qed

text \<open>One level of a walk.\<close>

definition walk_step :: "nat \<Rightarrow> 'z pmm_state_scheme \<Rightarrow> 'z pmm_state_scheme \<Rightarrow> bool" where
  "walk_step r s s' \<longleftrightarrow> aspace_ok s' r
     \<and> (\<forall>js f. vpath js \<longrightarrow> walk (entries s) r js = Some f \<longrightarrow> walk (entries s') r js = Some f)
     \<and> (\<forall>js j. vpath js \<longrightarrow> length js = 3 \<longrightarrow> leaf (entries s') r js j = leaf (entries s) r js j)
     \<and> free_frames s' \<subseteq> free_frames s \<and> pmm_state.more s' = pmm_state.more s"

lemma next_level_step:
  assumes ok: "aspace_ok s r" and fl: "bitflags_laws fl" and p: "vpath (is @ [i])"
    and f: "walk (entries s) r is = Some f"
    and ret: "get_next_level fl (frame_addr f) i s = Inr (a, s')"
  shows "\<exists>g. a = frame_addr g \<and> walk (entries s') r (is @ [i]) = Some g \<and> walk_step r s s'
    \<and> card (free_frames s) \<le> card (free_frames s') + 1"
proof -
  have wf: "pmm_wf s" "tree_wf (entries s) r (free_frames s)" using ok by (auto simp: aspace_ok_def)
  have vis: "vpath is" "i < 512" using p by (auto simp: vpath_snoc)
  have f35: "f < 2 ^ 35" using tree_wfD[OF wf(2) vis(1) f] by blast
  note read = read_table(2)[OF f35 vis(2)]
  show ?thesis
  proof (cases "entries s f i AND 1 = 0")
    case False
    then have "a = frame_addr (entry_frame (entries s f i))" "s' = s"
      using ret by (auto simp: get_next_level_def read entry_frame_addr Let_def)
    then show ?thesis using False f ok by (auto simp: walk_snoc tbl_next_def walk_step_def)
  next
    case True
    have flags: "fl_union fl (fl_union fl PageFlags_PRESENT PageFlags_WRITABLE) PageFlags_USERMODE = 7"
      using fl by (simp add: bitflags_laws_def PageFlags_PRESENT_def PageFlags_WRITABLE_def PageFlags_USERMODE_def)
    from ret True obtain s1 where c: "pmm_calloc 1 s = Inr (Some a, s1)"
        and s': "s' = write_word (as_u64 (higher_half (frame_addr f))) i (as_u64 a OR 7) s1"
      by (auto simp: get_next_level_def read Let_def flags res_simps split: option.splits)
    from pmm_calloc_Some[OF wf(1) c] obtain g where g: "a = frame_addr g" "{g..<g + 1} \<subseteq> free_frames s"
        "g + 1 \<le> frame_cnt s" "free_frames s1 = free_frames s - {g..<g + 1}" "pmm_wf s1"
        "mem s1 = fill_bytes (mem s) (as_u64 a) 0 (1 * 4096)" "pmm_state.more s1 = pmm_state.more s" by blast
    have g35: "g < 2 ^ 35" and gF: "g \<in> free_frames s" using g(2,3) pmm_wf_cap[OF wf(1)] by auto
    have E1: "entries s1 h j = (if h = g then 0 else entries s h j)" for h j
      by (rule entries_fill[OF g35]) (use g(1,6) in simp)
    have E: "entries s' = grow (entries s) f i g (as_u64 a OR 7)"
      unfolding s' entries_write(2)[OF f35 vis(2)] by (auto simp: put_leaf_def grow_def E1 fun_eq_iff)
    have x: "(as_u64 a OR 7) AND 1 \<noteq> 0" "entry_frame (as_u64 a OR 7) = g" using new_entry[OF g35] g(1) by auto
    have none: "tbl_next (entries s) f i = None" using True by (simp add: tbl_next_def)
    have free: "free_frames s' = free_frames s - {g}" using g(4) s' by (simp add: write_word_def free_frames_def)
    have "walk_step r s s'" unfolding walk_step_def
    proof (intro conjI allI impI)
      show "aspace_ok s' r" unfolding aspace_ok_def
        using grow_wf[OF wf(2) p f none gF g35 x] E free g(5) s' by (simp add: write_word_def pmm_wf_def)
      show "walk (entries s') r js = Some h" if "vpath js" "walk (entries s) r js = Some h" for js h
        using walk_grow[OF wf(2) p f none gF x that(1)] that(2) f none E by (auto simp: walk_snoc)
      show "leaf (entries s') r js j = leaf (entries s) r js j" if "vpath js" "length js = 3" for js j
        unfolding E by (rule grow_leaf[OF wf(2) p f none gF x that])
      show "free_frames s' \<subseteq> free_frames s" using free by blast
      show "pmm_state.more s' = pmm_state.more s" using g(7) s' by (simp add: write_word_def)
    qed
    moreover have "walk (entries s') r (is @ [i]) = Some g"
      unfolding E using walk_grow[OF wf(2) p f none gF x p] by simp
    moreover have "finite (free_frames s)" using pmm_wf_cap[OF wf(1)] finite_subset by blast
    ultimately show ?thesis using g(1) free gF by (simp add: card_Diff_singleton)
  qed
qed

lemma next_level_total:
  assumes ok: "aspace_ok s r" and "vpath (is @ [i])" and f: "walk (entries s) r is = Some f"
    and F: "0 < card (free_frames s)" "0 \<notin> free_frames s"
  shows "\<exists>a s'. get_next_level fl (frame_addr f) i s = Inr (a, s')"
proof -
  obtain a s' where "pmm_calloc 1 s = Inr (Some a, s')"
    using calloc_one[of s] ok F unfolding aspace_ok_def by fastforce
  then show ?thesis by (simp add: get_next_level_def Let_def)
qed

section \<open>Mapping a page\<close>

definition va_path :: "virt_addr \<Rightarrow> nat list" where
  "va_path v = [unat (pml4 v), unat (pdp v), unat (pd v)]"

definition va_slot :: "virt_addr \<Rightarrow> nat" where
  "va_slot v = unat (pt v)"

text \<open>The entry an address space has for a page; 0 where a table is missing.\<close>

definition lookup_page :: "'z pmm_state_scheme \<Rightarrow> nat \<Rightarrow> virt_addr \<Rightarrow> u64" where
  "lookup_page s r v = leaf (entries s) r (va_path v) (va_slot v)"

definition same_page :: "virt_addr \<Rightarrow> virt_addr \<Rightarrow> bool" where
  "same_page v w \<longleftrightarrow> va_path v = va_path w \<and> va_slot v = va_slot w"

lemma index_small: "unat (ucast (x AND 0x1ff :: u64) :: u16) < 512"
proof -
  have "x AND 0x1ff = take_bit 9 x" by (simp add: take_bit_eq_mask mask_eq_exp_minus_1)
  moreover have "unat (take_bit 9 x) < 512"
    using take_bit_nat_less_exp[of 9 "unat x"] by (simp add: unsigned_take_bit_eq)
  ultimately show ?thesis by (simp add: unsigned_ucast_eq take_bit_nat_eq_self)
qed

lemma va_index: "unat (pml4 v) < 512" "unat (pdp v) < 512" "unat (pd v) < 512" "unat (pt v) < 512"
  by (simp_all add: pml4_def pdp_def pd_def pt_def index_small)

lemma vpath_va [simp]: "vpath (va_path v)" "length (va_path v) = 3" "va_slot v < 512"
  using va_index[of v] by (auto simp: vpath_def va_path_def va_slot_def)

lemma walk_step_refl: "aspace_ok s r \<Longrightarrow> walk_step r s s"
  by (simp add: walk_step_def)

lemma walk_step_trans: "walk_step r s t \<Longrightarrow> walk_step r t u \<Longrightarrow> walk_step r s u"
  unfolding walk_step_def by (metis (no_types, lifting) subset_trans)

text \<open>The three levels above a page table, which \<open>map_page\<close> and \<open>get_mapping\<close> share.\<close>

definition descend ::
  "bitflags_api \<Rightarrow> phys_addr \<Rightarrow> virt_addr \<Rightarrow> 'z pmm_state_scheme \<Rightarrow> (phys_addr \<times> 'z pmm_state_scheme) res" where
  "descend fl root v s =
     bnd (get_next_level fl root (unat (pml4 v)) s) (\<lambda>(pdp, s).
     bnd (get_next_level fl pdp (unat (Vmm.pdp v)) s) (\<lambda>(pd, s).
       get_next_level fl pd (unat (Vmm.pd v)) s))"

lemma map_page_descend:
  "map_page fl self v phys flags flush s =
     bnd (descend fl (pagemap self) v (if flush then invlpg v s else s))
       (\<lambda>(tbl, s). Inr (write_word (as_u64 tbl) (va_slot v) (as_u64 phys OR flags) s))"
  by (simp add: map_page_def descend_def Let_def va_slot_def bnd_assoc split_def)

lemma get_mapping_descend:
  "get_mapping fl self v s =
     bnd (descend fl (pagemap self) v s) (\<lambda>(tbl, s). Inr (PageMapping (read_word (as_u64 tbl) (va_slot v) s), s))"
  by (simp add: get_mapping_def descend_def Let_def va_slot_def bnd_assoc split_def)

lemma descend_step:
  assumes ok: "aspace_ok s r" and fl: "bitflags_laws fl"
    and ret: "descend fl (frame_addr r) v s = Inr (a, s')"
  shows "\<exists>g. a = frame_addr g \<and> walk (entries s') r (va_path v) = Some g \<and> walk_step r s s'
    \<and> card (free_frames s) \<le> card (free_frames s') + 3"
proof -
  note i = va_index[of v]
  let ?a = "unat (pml4 v)" and ?b = "unat (pdp v)" and ?c = "unat (pd v)"
  have vp: "vpath ([] @ [?a])" "vpath ([?a] @ [?b])" "vpath ([?a, ?b] @ [?c])" using i by (simp_all add: vpath_def)
  from ret obtain a1 s1 a2 s2 where
      r1: "get_next_level fl (frame_addr r) ?a s = Inr (a1, s1)"
      and r2: "get_next_level fl a1 ?b s1 = Inr (a2, s2)" and r3: "get_next_level fl a2 ?c s2 = Inr (a, s')"
    by (auto simp: descend_def res_simps)
  from next_level_step[OF ok fl vp(1) _ r1] obtain g1 where g1: "a1 = frame_addr g1"
      "walk (entries s1) r ([] @ [?a]) = Some g1" "walk_step r s s1"
      "card (free_frames s) \<le> card (free_frames s1) + 1" by auto
  have ok1: "aspace_ok s1 r" using g1(3) by (simp add: walk_step_def)
  from next_level_step[OF ok1 fl vp(2) _ r2[unfolded g1(1)]] g1(2) obtain g2 where g2: "a2 = frame_addr g2"
      "walk (entries s2) r ([?a] @ [?b]) = Some g2" "walk_step r s1 s2"
      "card (free_frames s1) \<le> card (free_frames s2) + 1" by auto
  have ok2: "aspace_ok s2 r" using g2(3) by (simp add: walk_step_def)
  from next_level_step[OF ok2 fl vp(3) _ r3[unfolded g2(1)]] g2(2) obtain g where g: "a = frame_addr g"
      "walk (entries s') r ([?a, ?b] @ [?c]) = Some g" "walk_step r s2 s'"
      "card (free_frames s2) \<le> card (free_frames s') + 1" by auto
  show ?thesis using g g1(4) g2(4) walk_step_trans[OF walk_step_trans[OF g1(3) g2(3)] g(3)]
    by (auto simp: va_path_def)
qed

lemma descend_total:
  assumes ok: "aspace_ok s r" and fl: "bitflags_laws fl"
    and F: "3 \<le> card (free_frames s)" "0 \<notin> free_frames s"
  shows "\<exists>a s'. descend fl (frame_addr r) v s = Inr (a, s')"
proof -
  note i = va_index[of v]
  let ?a = "unat (pml4 v)" and ?b = "unat (pdp v)" and ?c = "unat (pd v)"
  have vp: "vpath ([] @ [?a])" "vpath ([?a] @ [?b])" "vpath ([?a, ?b] @ [?c])" using i by (simp_all add: vpath_def)
  obtain a1 s1 where r1: "get_next_level fl (frame_addr r) ?a s = Inr (a1, s1)"
    using next_level_total[OF ok vp(1)] F by fastforce
  from next_level_step[OF ok fl vp(1) _ r1] obtain g1 where g1: "a1 = frame_addr g1"
      "walk (entries s1) r ([] @ [?a]) = Some g1" "walk_step r s s1"
      "card (free_frames s) \<le> card (free_frames s1) + 1" by auto
  have ok1: "aspace_ok s1 r" "0 \<notin> free_frames s1" "2 \<le> card (free_frames s1)"
    using g1(3,4) F by (auto simp: walk_step_def)
  obtain a2 s2 where r2: "get_next_level fl a1 ?b s1 = Inr (a2, s2)"
    using next_level_total[OF ok1(1) vp(2)] g1(1,2) ok1 by fastforce
  from next_level_step[OF ok1(1) fl vp(2) _ r2[unfolded g1(1)]] g1(2) obtain g2 where g2: "a2 = frame_addr g2"
      "walk (entries s2) r ([?a] @ [?b]) = Some g2" "walk_step r s1 s2"
      "card (free_frames s1) \<le> card (free_frames s2) + 1" by auto
  have ok2: "aspace_ok s2 r" "0 \<notin> free_frames s2" "1 \<le> card (free_frames s2)"
    using g2(3,4) ok1 by (auto simp: walk_step_def)
  obtain a s' where "get_next_level fl a2 ?c s2 = Inr (a, s')"
    using next_level_total[OF ok2(1) vp(3)] g2(1,2) ok2 by fastforce
  then show ?thesis using r1 r2 by (simp add: descend_def)
qed

lemma invlpg_view [simp]:
  "entries (invlpg v s) = entries s" "free_frames (invlpg v s) = free_frames s"
  "pmm_wf (invlpg v s) = pmm_wf s" "kernel_vmm (invlpg v s) = kernel_vmm s" "cr3 (invlpg v s) = cr3 s"
  by (simp_all add: invlpg_def entries_def free_frames_def pmm_wf_def fun_eq_iff)

lemma invlpg_ok [simp]: "aspace_ok (invlpg v s) r = aspace_ok s r"
  by (simp add: aspace_ok_def)

lemma vmm_more_fields:
  assumes "pmm_state.more s' = pmm_state.more s"
  shows "kernel_vmm s' = kernel_vmm s" "cr3 s' = cr3 s" "flushed s' = flushed s"
  using assms by (cases s, cases s', simp)+

lemma map_page_effect:
  assumes ok: "aspace_ok s r" and fl: "bitflags_laws fl" and root: "pagemap self = frame_addr r"
    and ret: "map_page fl self v phys flags flush s = Inr s'"
  shows "aspace_ok s' r \<and> (\<forall>w. lookup_page s' r w = (if same_page w v then as_u64 phys OR flags else lookup_page s r w))
    \<and> free_frames s' \<subseteq> free_frames s \<and> card (free_frames s) \<le> card (free_frames s') + 3
    \<and> kernel_vmm s' = kernel_vmm s \<and> cr3 s' = cr3 s
    \<and> flushed s' = flushed s @ (if flush then [va_u64 v] else [])"
proof -
  let ?s = "if flush then invlpg v s else s"
  have ok0: "aspace_ok ?s r" using ok by simp
  from ret obtain a s1 where d: "descend fl (frame_addr r) v ?s = Inr (a, s1)"
      and s': "s' = write_word (as_u64 a) (va_slot v) (as_u64 phys OR flags) s1"
    by (auto simp: map_page_descend root res_simps)
  from descend_step[OF ok0 fl d] obtain g where g: "a = frame_addr g" "walk (entries s1) r (va_path v) = Some g"
      "walk_step r ?s s1" "card (free_frames ?s) \<le> card (free_frames s1) + 3" by blast
  have ok1: "pmm_wf s1" "tree_wf (entries s1) r (free_frames s1)" using g(3) by (auto simp: walk_step_def aspace_ok_def)
  have g35: "g < 2 ^ 35" using tree_wfD[OF ok1(2) _ g(2)] by simp
  have E: "entries s' = put_leaf (entries s1) g (va_slot v) (as_u64 phys OR flags)"
    using entries_write(1)[OF g35, of "va_slot v"] s' g(1) by simp
  have free: "free_frames s' = free_frames s1" "pmm_wf s'" using s' ok1(1) by (auto simp: write_word_def free_frames_def pmm_wf_def)
  have old: "leaf (entries s1) r (va_path w) (va_slot w) = lookup_page s r w" for w
    using g(3) by (simp add: walk_step_def lookup_page_def)
  have "lookup_page s' r w = (if same_page w v then as_u64 phys OR flags else lookup_page s r w)" for w
    unfolding lookup_page_def E put_leaf_leaf[OF ok1(2) vpath_va(1,2) g(2) vpath_va(1)] same_page_def
    using old[of w] by (simp add: lookup_page_def)
  moreover have "aspace_ok s' r"
    using put_wf[OF ok1(2) vpath_va(1,2) g(2)] E free by (simp add: aspace_ok_def)
  moreover have "pmm_state.more s' = pmm_state.more ?s" using s' g(3) by (simp add: write_word_def walk_step_def)
  note vmm_more_fields[OF this]
  moreover have "free_frames s' \<subseteq> free_frames s" "card (free_frames s) \<le> card (free_frames s') + 3"
    using free g(3,4) by (simp_all add: walk_step_def split: if_splits)
  moreover have "flushed ?s = flushed s @ (if flush then [va_u64 v] else [])" by (simp add: invlpg_def)
  ultimately show ?thesis by simp
qed

lemma map_page_total:
  assumes ok: "aspace_ok s r" and fl: "bitflags_laws fl" and root: "pagemap self = frame_addr r"
    and F: "3 \<le> card (free_frames s)" "0 \<notin> free_frames s"
  shows "\<exists>s'. map_page fl self v phys flags flush s = Inr s'"
proof -
  let ?s = "if flush then invlpg v s else s"
  obtain a s1 where "descend fl (frame_addr r) v ?s = Inr (a, s1)"
    using descend_total[OF _ fl, of "invlpg v s" r v] descend_total[OF ok fl F, of v] ok F
    by (cases flush) auto
  then show ?thesis by (simp add: map_page_descend root)
qed

text \<open>Clearing a free frame leaves the tree of tables alone.\<close>

lemma walk_agree:
  assumes wf: "tree_wf E r F" and E': "\<And>h j. h \<notin> F \<Longrightarrow> E' h j = E h j" and "vpath js"
  shows "walk E' r js = walk E r js"
  using assms(3)
proof (induction js rule: rev_induct)
  case (snoc j js)
  then have v: "vpath js" by (auto simp: vpath_snoc)
  have "tbl_next E' h j = tbl_next E h j" if "walk E r js = Some h" for h
    using E'[OF tree_wfD(2)[OF wf v that]] by (simp add: tbl_next_def)
  then show ?case using snoc.IH[OF v] by (auto simp: walk_snoc split: option.splits)
qed simp

lemma calloc_walk_step:
  assumes ok: "aspace_ok s r" and c: "pmm_calloc 1 s = Inr (Some a, s')"
  shows "\<exists>g. a = frame_addr g \<and> g < 2 ^ 35 \<and> g \<in> free_frames s \<and> free_frames s' = free_frames s - {g} \<and> walk_step r s s'"
proof -
  have wf: "pmm_wf s" "tree_wf (entries s) r (free_frames s)" using ok by (auto simp: aspace_ok_def)
  from pmm_calloc_Some[OF wf(1) c] obtain g where g: "a = frame_addr g" "{g..<g + 1} \<subseteq> free_frames s" "g + 1 \<le> frame_cnt s"
      "free_frames s' = free_frames s - {g..<g + 1}" "pmm_wf s'" "mem s' = fill_bytes (mem s) (as_u64 a) 0 (1 * 4096)"
      "pmm_state.more s' = pmm_state.more s" by blast
  have gF: "g < 2 ^ 35" "g \<in> free_frames s" "free_frames s' = free_frames s - {g}" using g(2-4) pmm_wf_cap[OF wf(1)] by auto
  have E: "entries s' h j = entries s h j" if "h \<noteq> g" for h j
    using entries_fill[OF gF(1), of s' s h j] g(1,6) that by simp
  have E': "entries s' h j = entries s h j" if "h \<notin> free_frames s" for h j using that gF(2) by (intro E) auto
  have walk: "walk (entries s') r js = walk (entries s) r js" if "vpath js" for js by (rule walk_agree[OF wf(2) E' that])
  have "tree_wf (entries s') r (free_frames s')"
    using tree_wf_sub[OF wf(2), of "free_frames s'"] gF(3) walk unfolding tree_wf_def by simp
  moreover have "leaf (entries s') r js j = leaf (entries s) r js j" if "vpath js" for js j
  proof (cases "walk (entries s) r js")
    case (Some h)
    then have "h \<noteq> g" using tree_wfD(2)[OF wf(2) that] gF(2) by blast
    then show ?thesis using Some walk[OF that] E by (simp add: leaf_def)
  qed (simp add: leaf_def walk[OF that])
  ultimately have "walk_step r s s'" using g(5,7) gF(3) walk by (auto simp: walk_step_def aspace_ok_def)
  then show ?thesis using g(1) gF by blast
qed

lemma map_page_more:
  assumes "aspace_ok s r" and "bitflags_laws fl" and "pagemap self = frame_addr r" and "map_page fl self v phys flags flush s = Inr s'"
  shows "vmm_state.more s' = vmm_state.more s"
proof -
  let ?s = "if flush then invlpg v s else s"
  from assms(3,4) obtain a s1 where d: "descend fl (frame_addr r) v ?s = Inr (a, s1)"
      and s': "s' = write_word (as_u64 a) (va_slot v) (as_u64 phys OR flags) s1"
    by (auto simp: map_page_descend res_simps)
  have "aspace_ok ?s r" using assms(1) by simp
  from descend_step[OF this assms(2) d] have "pmm_state.more s1 = pmm_state.more ?s" by (auto simp: walk_step_def)
  then have "pmm_state.more s' = pmm_state.more ?s" using s' by (simp add: write_word_def)
  then have "vmm_state.more s' = vmm_state.more ?s" by (cases s', cases ?s) simp
  then show ?thesis by (simp add: invlpg_def)
qed

lemma aspace_ok_cong:
  assumes "mem s' = mem s" "page_allocator s' = page_allocator s"
  shows "aspace_ok s' r = aspace_ok s r" "free_frames s' = free_frames s"
proof -
  have "entries s' = entries s" using assms(1) by (intro ext) (simp add: entries_def)
  then show "aspace_ok s' r = aspace_ok s r" "free_frames s' = free_frames s"
    using assms(2) by (simp_all add: aspace_ok_def free_frames_def pmm_wf_def)
qed

section \<open>Pages and ranges\<close>

lemma index_eq_iff:
  "unat (ucast (x AND 0x1ff :: u64) :: u16) = unat (ucast (y AND 0x1ff :: u64) :: u16)
     \<longleftrightarrow> (\<forall>n<9. bit x n \<longleftrightarrow> bit y n)"
proof -
  have m: "0x1ff = (mask 9 :: u64)" by (simp add: mask_eq_exp_minus_1)
  have "(ucast (x AND mask 9) :: u16) = ucast (y AND mask 9) \<longleftrightarrow> (\<forall>n<16. n < 9 \<longrightarrow> (bit x n \<longleftrightarrow> bit y n))"
    by (auto simp: bit_eq_iff bit_simps)
  also have "\<dots> \<longleftrightarrow> (\<forall>n<9. bit x n \<longleftrightarrow> bit y n)" by (auto intro: less_trans[of _ 9 16])
  finally show ?thesis by (simp add: m word_unat_eq_iff)
qed

text \<open>Two addresses have the same indices exactly when they agree on bits 12 to 47.\<close>

lemma same_page_iff: "same_page v w \<longleftrightarrow> (\<forall>n. 12 \<le> n \<and> n < 48 \<longrightarrow> (bit (va_u64 v) n \<longleftrightarrow> bit (va_u64 w) n))"
proof -
  let ?P = "\<lambda>n. bit (va_u64 v) n \<longleftrightarrow> bit (va_u64 w) n"
  have "same_page v w \<longleftrightarrow> (\<forall>n<9. ?P (39 + n)) \<and> (\<forall>n<9. ?P (30 + n)) \<and> (\<forall>n<9. ?P (21 + n)) \<and> (\<forall>n<9. ?P (12 + n))"
    unfolding same_page_def va_path_def va_slot_def pml4_def pdp_def pd_def pt_def
    by (simp add: index_eq_iff bit_drop_bit_eq)
  also have "\<dots> \<longleftrightarrow> (\<forall>n. 12 \<le> n \<and> n < 48 \<longrightarrow> ?P n)"
  proof (rule iffI)
    assume h: "(\<forall>n<9. ?P (39 + n)) \<and> (\<forall>n<9. ?P (30 + n)) \<and> (\<forall>n<9. ?P (21 + n)) \<and> (\<forall>n<9. ?P (12 + n))"
    have "?P n" if n: "12 \<le> n \<and> n < 48" for n :: nat
    proof -
      consider "n < 21" | "21 \<le> n" "n < 30" | "30 \<le> n" "n < 39" | "39 \<le> n" by linarith
      then show ?thesis
      proof cases
        case 1
        then show ?thesis using h[THEN conjunct2, THEN conjunct2, THEN conjunct2, rule_format, of "n - 12"] n by simp
      next
        case 2
        then show ?thesis using h[THEN conjunct2, THEN conjunct2, THEN conjunct1, rule_format, of "n - 21"] by simp
      next
        case 3
        then show ?thesis using h[THEN conjunct2, THEN conjunct1, rule_format, of "n - 30"] by simp
      next
        case 4
        then show ?thesis using h[THEN conjunct1, rule_format, of "n - 39"] n by simp
      qed
    qed
    then show "\<forall>n. 12 \<le> n \<and> n < 48 \<longrightarrow> ?P n" by blast
  qed auto
  finally show ?thesis .
qed

lemma flag_values:
  "PageFlags_PRESENT = 1" "PageFlags_WRITABLE = 2" "PageFlags_USERMODE = 4" "PageFlags_UNCACHEABLE = 16"
  "PageFlags_MMAPED = 512" "PageFlags_NX = 0x8000000000000000"
  by (simp_all add: PageFlags_PRESENT_def PageFlags_WRITABLE_def PageFlags_USERMODE_def PageFlags_UNCACHEABLE_def
    PageFlags_MMAPED_def PageFlags_NX_def push_bit_eq_mult)

lemma page_flags_from_nx: "bitflags_laws fl \<Longrightarrow> page_flags_from fl prot = PageFlags_NX"
  by (simp add: page_flags_from_def bitflags_laws_def MapProt_NONE_def)

text \<open>The pages of a range.\<close>

definition range_page :: "virt_addr \<Rightarrow> nat \<Rightarrow> virt_addr" where
  "range_page v i = VirtAddr (va_u64 v + of_nat i * PAGE_SIZE)"

lemma map_range:
  fixes s :: "('a, 'b) vmm_state_scheme"
  assumes ok: "aspace_ok s r" and fl: "bitflags_laws fl" and root: "pagemap self = frame_addr r"
    and F: "3 * n \<le> card (free_frames s)" "0 \<notin> free_frames s"
  shows "\<exists>s'. for_each 0 n (\<lambda>i s. map_page fl self (range_page v i) phys flags True s) s = Inr s'
    \<and> aspace_ok s' r \<and> (\<forall>w. lookup_page s' r w
        = (if \<exists>i<n. same_page w (range_page v i) then as_u64 phys OR flags else lookup_page s r w))
    \<and> flushed s' = flushed s @ map (\<lambda>i. va_u64 (range_page v i)) [0..<n]"
proof -
  let ?P = "\<lambda>k (s' :: ('a, 'b) vmm_state_scheme). aspace_ok s' r \<and> (\<forall>w. lookup_page s' r w
        = (if \<exists>i<k. same_page w (range_page v i) then as_u64 phys OR flags else lookup_page s r w))
      \<and> flushed s' = flushed s @ map (\<lambda>i. va_u64 (range_page v i)) [0..<k]
      \<and> 3 * (n - k) \<le> card (free_frames s') \<and> 0 \<notin> free_frames s'"
  have "\<exists>s'. for_each 0 n (\<lambda>i s. map_page fl self (range_page v i) phys flags True s) s = Inr s' \<and> ?P n s'"
  proof (rule for_each_inv[where P = ?P])
    fix k s1 assume k: "k < n" and P: "?P k s1"
    then have "3 \<le> card (free_frames s1)" by auto
    then obtain s2 where s2: "map_page fl self (range_page v k) phys flags True s1 = Inr s2"
      using map_page_total[OF _ fl root, of s1] P by blast
    note e = map_page_effect[OF P[THEN conjunct1] fl root s2]
    have "lookup_page s2 r w = (if \<exists>i<Suc k. same_page w (range_page v i) then as_u64 phys OR flags else lookup_page s r w)" for w
      using e P by (simp add: less_Suc_eq) blast
    then have "?P (Suc k) s2" using e P k by (auto simp: diff_Suc split: nat.splits)
    then show "\<exists>s2. map_page fl self (range_page v k) phys flags True s1 = Inr s2 \<and> ?P (Suc k) s2" using s2 by blast
  qed (use assms in auto)
  then show ?thesis by blast
qed

section \<open>A new address space\<close>

text \<open>A root table that shares the entries 256 and 511 of another root.\<close>

definition share :: "tables \<Rightarrow> nat \<Rightarrow> nat \<Rightarrow> tables" where
  "share E k g = (\<lambda>h j. if h = g then if j = 256 \<or> j = 511 then E k j else 0 else E h j)"

lemma walk_share:
  assumes wf: "tree_wf E k F" and g: "g \<in> F" and p: "vpath (i # is)"
  shows "walk (share E k g) g (i # is) = (if i = 256 \<or> i = 511 then walk E k (i # is) else None)"
  using p
proof (induction "is" rule: rev_induct)
  case Nil
  have "tbl_next (share E k g) g i = (if i = 256 \<or> i = 511 then tbl_next E k i else None)"
    by (simp add: tbl_next_def share_def)
  then show ?case by (simp split: option.splits)
next
  case (snoc j js)
  have p: "vpath (i # js)" using snoc.prems by (auto simp: vpath_def)
  have "tbl_next (share E k g) h j = tbl_next E h j" if "walk E k (i # js) = Some h" for h
    using tree_wfD[OF wf p that] g by (auto simp: tbl_next_def share_def)
  then show ?case using snoc.IH[OF p] walk_snoc[of _ _ "i # js" j]
    by (simp del: walk.simps split: option.splits)
qed

lemma share_wf:
  assumes wf: "tree_wf E k F" and g: "g \<in> F" "g < 2 ^ 35"
  shows "tree_wf (share E k g) g (F - {g})"
proof -
  have sub: "is = [] \<and> f = g \<or> is \<noteq> [] \<and> walk E k is = Some f"
    if "vpath is" "walk (share E k g) g is = Some f" for "is" f
    using that walk_share[OF wf g(1)] by (cases "is") (auto simp del: walk.simps(2) split: if_splits)
  show ?thesis unfolding tree_wf_def
  proof (intro conjI allI impI)
    fix "is" f assume h: "vpath is" "walk (share E k g) g is = Some f"
    show "f < 2 ^ 35" "f \<notin> F - {g}" using sub[OF h] tree_wfD[OF wf h(1)] g(2) by auto
  next
    fix "is" js f
    assume h: "vpath is" "vpath js" "walk (share E k g) g is = Some f" "walk (share E k g) g js = Some f"
    show "is = js" using sub[OF h(1,3)] sub[OF h(2,4)] tree_wfD[OF wf h(1)] tree_wfD[OF wf h(2)] g(1)
        tree_inj[OF wf h(1,2)] by blast
  qed
qed

lemma share_leaf:
  assumes wf: "tree_wf E k F" and g: "g \<in> F" and p: "vpath (i # is)"
  shows "leaf (share E k g) g (i # is) j = (if i = 256 \<or> i = 511 then leaf E k (i # is) j else 0)"
proof -
  have "share E k g h j = E h j" if "walk E k (i # is) = Some h" for h
    using tree_wfD[OF wf p that] g by (auto simp: share_def)
  then show ?thesis using walk_share[OF assms] by (simp add: leaf_def del: walk.simps split: option.splits)
qed

section \<open>Properties\<close>

text \<open>
  C9. \<^verbatim>\<open>map_page\<close> refines the update of a function from pages to entries: on a sound address space it gives the page of
  \<open>v\<close> the entry \<open>phys | flags\<close>, leaves the entry of every other page alone, keeps the address space sound and
  flushes the page from the TLB when asked to. It always succeeds when three frames are free
  (none of them frame 0), which is as many tables as it can need.
\<close>

theorem map_page_refines:
  assumes "aspace_ok s r" and "bitflags_laws fl" and "pagemap self = frame_addr r"
  shows "(3 \<le> card (free_frames s) \<and> 0 \<notin> free_frames s
          \<longrightarrow> (\<exists>s'. map_page fl self v phys flags flush s = Inr s'))
    \<and> (\<forall>s'. map_page fl self v phys flags flush s = Inr s' \<longrightarrow>
          aspace_ok s' r
        \<and> (\<forall>w. lookup_page s' r w = (if same_page w v then as_u64 phys OR flags else lookup_page s r w))
        \<and> flushed s' = flushed s @ (if flush then [va_u64 v] else []))"
  using map_page_total[OF assms] map_page_effect[OF assms] by blast

text \<open>
  C10. \<^verbatim>\<open>get_mapping\<close> returns the entry of the page and changes the entry of no page, although it adds
  the missing tables on the way; after a \<^verbatim>\<open>map_page\<close> it returns what was mapped.
\<close>

theorem get_mapping_reads:
  assumes ok: "aspace_ok s r" and fl: "bitflags_laws fl" and root: "pagemap self = frame_addr r"
  shows "(3 \<le> card (free_frames s) \<and> 0 \<notin> free_frames s \<longrightarrow> (\<exists>m s'. get_mapping fl self v s = Inr (m, s')))
    \<and> (\<forall>m s'. get_mapping fl self v s = Inr (m, s') \<longrightarrow>
          pm_u64 m = lookup_page s r v \<and> aspace_ok s' r \<and> (\<forall>w. lookup_page s' r w = lookup_page s r w))
    \<and> (\<forall>s1 m s2. map_page fl self v phys flags flush s = Inr s1 \<longrightarrow> get_mapping fl self v s1 = Inr (m, s2)
          \<longrightarrow> pm_u64 m = (as_u64 phys OR flags))"
proof -
  have reads: "pm_u64 m = lookup_page s r v \<and> aspace_ok s' r \<and> (\<forall>w. lookup_page s' r w = lookup_page s r w)"
    if ok: "aspace_ok s r" and "get_mapping fl self v s = Inr (m, s')" for s m s'
  proof -
    from that(2) obtain a where d: "descend fl (frame_addr r) v s = Inr (a, s')"
        and m: "m = PageMapping (read_word (as_u64 a) (va_slot v) s')"
      by (auto simp: get_mapping_descend root res_simps)
    from descend_step[OF ok fl d] obtain g where g: "a = frame_addr g" "walk (entries s') r (va_path v) = Some g"
        "walk_step r s s'" by blast
    have ok': "tree_wf (entries s') r (free_frames s')" "aspace_ok s' r" using g(3) by (auto simp: walk_step_def aspace_ok_def)
    have "g < 2 ^ 35" using tree_wfD[OF ok'(1) _ g(2)] by simp
    then have "pm_u64 m = leaf (entries s') r (va_path v) (va_slot v)"
      using m g(1,2) read_table(1)[of g "va_slot v"] by (simp add: leaf_def)
    then show ?thesis using g(3) ok'(2) by (simp add: walk_step_def lookup_page_def)
  qed
  have "\<exists>m s'. get_mapping fl self v s = Inr (m, s')" if "3 \<le> card (free_frames s)" "0 \<notin> free_frames s"
    using descend_total[OF ok fl that, of v] by (auto simp: get_mapping_descend root)
  moreover have "pm_u64 m = as_u64 phys OR flags"
    if "map_page fl self v phys flags flush s = Inr s1" "get_mapping fl self v s1 = Inr (m, s2)" for s1 m s2
    using map_page_effect[OF ok fl root that(1)] reads[OF _ that(2)] by (simp add: same_page_def)
  ultimately show ?thesis using reads[OF ok] by blast
qed

text \<open>A machine with an empty root table in frame 1 and frames 8 to 15 free.\<close>

definition sample_vm :: "unit vmm_state" where
  "sample_vm = \<lparr>mem = (\<lambda>_. 0), page_allocator = Some \<lparr>bm_ptr = PHYS_BASE, bm_data = [0, - 1], bm_size = 2\<rparr>,
     kernel_vmm = None, cr3 = 0x1000, flushed = []\<rparr>"

definition sample_space :: "unit vmm" where
  "sample_space = \<lparr>pagemap = frame_addr 1, ranges = []\<rparr>"

lemma bitflags_ref_laws: "bitflags_laws bitflags_ref"
  by (simp add: bitflags_laws_def bitflags_ref_def)

lemma sample_vm_free: "free_frames sample_vm = {8..<16}"
  by (simp add: free_frames_def sample_vm_def upper_ones)

lemma sample_vm_empty: "entries sample_vm f i = 0"
proof -
  have "load_bytes (\<lambda>_. 0) a 8 = replicate 8 0" for a by (rule nth_equalityI) auto
  then show ?thesis by (simp add: entries_def sample_vm_def load_u64_def)
qed

lemma sample_vm_walk: "walk (entries sample_vm) r is = (if is = [] then Some r else None)"
  by (cases "is") (auto simp: tbl_next_def sample_vm_empty)

lemma sample_vm_ok: "aspace_ok sample_vm 1"
proof -
  have "pmm_wf sample_vm" by (simp add: pmm_wf_def sample_vm_def bm_wf_def bm_bits_def)
  then show ?thesis by (auto simp: aspace_ok_def tree_wf_def sample_vm_walk sample_vm_free split: if_splits)
qed

lemma sample_space_root: "pagemap sample_space = frame_addr 1"
  by (simp add: sample_space_def)

theorem map_page_refines_witness:
  "\<exists>s'. map_page bitflags_ref sample_space (VirtAddr 0x5000) (PhysAddr 0x7000) 3 True sample_vm = Inr s'
     \<and> lookup_page s' 1 (VirtAddr 0x5abc) = 0x7003 \<and> flushed s' = [0x5000]"
proof -
  note mp = map_page_refines[OF sample_vm_ok bitflags_ref_laws sample_space_root,
      of "VirtAddr 0x5000" "PhysAddr 0x7000" 3 True]
  have "3 \<le> card (free_frames sample_vm)" "0 \<notin> free_frames sample_vm" by (simp_all add: sample_vm_free)
  with mp obtain s' where s': "map_page bitflags_ref sample_space (VirtAddr 0x5000) (PhysAddr 0x7000) 3 True sample_vm = Inr s'"
    by blast
  have "same_page (VirtAddr 0x5abc) (VirtAddr 0x5000)"
    by (simp add: same_page_def va_path_def va_slot_def pml4_def pdp_def pd_def pt_def)
  moreover have "flushed sample_vm = []" by (simp add: sample_vm_def)
  ultimately show ?thesis using mp s' by simp
qed

theorem get_mapping_reads_witness:
  "\<exists>m s'. get_mapping bitflags_ref sample_space (VirtAddr 0x5000) sample_vm = Inr (m, s') \<and> pm_u64 m = 0"
proof -
  note gm = get_mapping_reads[OF sample_vm_ok bitflags_ref_laws sample_space_root, of "VirtAddr 0x5000"]
  have "3 \<le> card (free_frames sample_vm)" "0 \<notin> free_frames sample_vm" by (simp_all add: sample_vm_free)
  with gm obtain m s' where m: "get_mapping bitflags_ref sample_space (VirtAddr 0x5000) sample_vm = Inr (m, s')"
    by blast
  moreover have "lookup_page sample_vm 1 (VirtAddr 0x5000) = 0"
    by (simp add: lookup_page_def leaf_def va_path_def tbl_next_def sample_vm_empty)
  ultimately show ?thesis using gm by fastforce
qed

text \<open>
  C11. \<^verbatim>\<open>mmap\<close> at a given address: when the range does not wrap around and is fixed or meets no range strictly,
  and three frames per page are free, it succeeds, gives every page of the range an entry that is
  marked as mapped on demand, not present and not executable, whatever protection was asked for, leaves
  the other pages alone and adds the range to the list. With the address left out it does nothing
  when \<^verbatim>\<open>FIXED\<close> is set, and otherwise reaches \<^verbatim>\<open>todo!()\<close>.
\<close>

theorem mmap_maps_range:
  assumes ok: "aspace_ok s r" and fl: "bitflags_laws fl" and root: "pagemap self = frame_addr r"
    and range: "unat (va_u64 v) + unat len < 2 ^ 64"
    and fixed: "fl_contains fl flags MapFlags_FIXED
      \<or> avoid_overlap self (ranges self) (va_u64 v) (va_u64 v + len) (unat len) v = Inr v"
    and F: "3 * ceil_div (unat len) 4096 \<le> card (free_frames s)" "0 \<notin> free_frames s"
  shows "(\<exists>s'. mmap fl self (Some v) len prot flags fd offset s
        = Inr (self\<lparr>ranges := ranges self @ [\<lparr>rg_base = v, rg_length = unat len, rg_prot = prot, rg_flags = flags,
            rg_offset = offset, rg_fd = fd\<rparr>]\<rparr>, s')
      \<and> aspace_ok s' r
      \<and> (\<forall>w. lookup_page s' r w = (if \<exists>i < ceil_div (unat len) 4096. same_page w (range_page v i)
            then PageFlags_NX OR PageFlags_MMAPED else lookup_page s r w)))
    \<and> mmap fl self None len prot flags fd offset s
        = (if fl_contains fl flags MapFlags_FIXED then Inr (self, s) else Inl Todo)"
proof -
  have end_ok: "wadd (va_u64 v) len = Inr (va_u64 v + len)" using range by (simp add: wadd_def)
  have fx: "fl_union fl (page_flags_from fl prot) PageFlags_MMAPED = PageFlags_NX OR PageFlags_MMAPED"
    using fl page_flags_from_nx[OF fl] by (simp add: bitflags_laws_def)
  from map_range[OF ok fl root F(1) F(2), of v "PhysAddr 0" "PageFlags_NX OR PageFlags_MMAPED"]
  obtain s' where s': "for_each 0 (ceil_div (unat len) 4096)
        (\<lambda>i s. map_page fl self (range_page v i) (PhysAddr 0) (PageFlags_NX OR PageFlags_MMAPED) True s) s = Inr s'"
      "aspace_ok s' r" "\<forall>w. lookup_page s' r w = (if \<exists>i < ceil_div (unat len) 4096. same_page w (range_page v i)
            then as_u64 (PhysAddr 0) OR PageFlags_NX OR PageFlags_MMAPED else lookup_page s r w)" by blast
  have zero: "as_u64 (PhysAddr 0) OR PageFlags_NX OR PageFlags_MMAPED = PageFlags_NX OR PageFlags_MMAPED" by simp
  have "mmap fl self None len prot flags fd offset s
        = (if fl_contains fl flags MapFlags_FIXED then Inr (self, s) else Inl Todo)"
    by (simp add: mmap_def get_free_range_def)
  moreover have "mmap fl self (Some v) len prot flags fd offset s
        = Inr (self\<lparr>ranges := ranges self @ [\<lparr>rg_base = v, rg_length = unat len, rg_prot = prot, rg_flags = flags,
            rg_offset = offset, rg_fd = fd\<rparr>]\<rparr>, s')"
    using fixed end_ok s'(1) unfolding range_page_def by (auto simp: mmap_def fx)
  ultimately show ?thesis using s'(2,3) unfolding zero by blast
qed

theorem mmap_maps_range_witness:
  "\<exists>self' s'. mmap bitflags_ref sample_space (Some (VirtAddr 0x5000)) 0x1800 3 0x1002 None 0 sample_vm = Inr (self', s')
     \<and> length (ranges self') = 1 \<and> lookup_page s' 1 (VirtAddr 0x6000) = 0x8000000000000200"
proof -
  have "ceil_div 0x1800 4096 = 2" by (rule ceil_div_eqI) simp_all
  then have n: "ceil_div (unat (0x1800 :: u64)) 4096 = 2" by simp
  have "avoid_overlap sample_space (ranges sample_space) (va_u64 (VirtAddr 0x5000)) (va_u64 (VirtAddr 0x5000) + 0x1800)
      (unat (0x1800 :: u64)) (VirtAddr 0x5000) = Inr (VirtAddr 0x5000)" by (simp add: sample_space_def)
  with mmap_maps_range[OF sample_vm_ok bitflags_ref_laws sample_space_root, where v = "VirtAddr 0x5000" and len = "0x1800" and flags = "0x1002"
      and prot = 3 and fd = None and offset = 0]
  obtain s' where s': "mmap bitflags_ref sample_space (Some (VirtAddr 0x5000)) 0x1800 3 0x1002 None 0 sample_vm
        = Inr (sample_space\<lparr>ranges := ranges sample_space @ [\<lparr>rg_base = VirtAddr 0x5000, rg_length = unat (0x1800 :: u64),
            rg_prot = 3, rg_flags = 0x1002, rg_offset = 0, rg_fd = None\<rparr>]\<rparr>, s')"
      "\<forall>w. lookup_page s' 1 w = (if \<exists>i < ceil_div (unat (0x1800 :: u64)) 4096. same_page w (range_page (VirtAddr 0x5000) i)
            then PageFlags_NX OR PageFlags_MMAPED else lookup_page sample_vm 1 w)"
    unfolding n by (auto simp: sample_vm_free)
  have "same_page (VirtAddr 0x6000) (range_page (VirtAddr 0x5000) 1)"
    by (simp add: range_page_def PAGE_SIZE_def same_page_def)
  then have "\<exists>i < ceil_div (unat (0x1800 :: u64)) 4096. same_page (VirtAddr 0x6000) (range_page (VirtAddr 0x5000) i)"
    unfolding n by (intro exI[of _ 1]) simp
  then have "lookup_page s' 1 (VirtAddr 0x6000) = PageFlags_NX OR PageFlags_MMAPED" using s'(2) by simp
  also have "\<dots> = 0x8000000000000200" by (simp add: PageFlags_NX_def PageFlags_MMAPED_def push_bit_eq_mult)
  finally show ?thesis using s'(1) by (simp add: sample_space_def)
qed

text \<open>
  C12. The address space of a new user process shares the kernel's half: on an initialised machine with a free frame,
  \<^verbatim>\<open>VirtualMemManager::new(true)\<close> makes a sound address space, in a frame that was free, in which every page under the entries 256 and 511 of the root
  is mapped as in the kernel's, every other page is unmapped, and the kernel's own mappings do not change.
\<close>

theorem vmm_new_shares_kernel:
  fixes s :: "('fd, 'z) vmm_state_scheme"
  assumes ok: "aspace_ok s k" and kern: "kernel_vmm s = Some kv" "pagemap kv = frame_addr k"
    and F: "free_frames s \<noteq> {}" "0 \<notin> free_frames s"
  shows "\<exists>g s'. vmm_new True s = Inr (\<lparr>pagemap = frame_addr g, ranges = []\<rparr>, s')
    \<and> g \<in> free_frames s \<and> free_frames s' = free_frames s - {g} \<and> aspace_ok s' g \<and> aspace_ok s' k
    \<and> (\<forall>v. lookup_page s' g v = (if pml4 v = 256 \<or> pml4 v = 511 then lookup_page s k v else 0))
    \<and> (\<forall>v. lookup_page s' k v = lookup_page s k v)"
proof -
  have wf: "pmm_wf s" "tree_wf (entries s) k (free_frames s)" using ok by (auto simp: aspace_ok_def)
  obtain a s1 where c: "pmm_calloc 1 s = Inr (Some a, s1)" using calloc_one[OF wf(1) F] by blast
  from pmm_calloc_Some[OF wf(1) c] obtain g where g: "a = frame_addr g" "{g..<g + 1} \<subseteq> free_frames s"
      "g + 1 \<le> frame_cnt s" "free_frames s1 = free_frames s - {g..<g + 1}" "pmm_wf s1"
      "mem s1 = fill_bytes (mem s) (as_u64 a) 0 (1 * 4096)" "pmm_state.more s1 = pmm_state.more s" by blast
  have g35: "g < 2 ^ 35" and gF: "g \<in> free_frames s" using g(2,3) pmm_wf_cap[OF wf(1)] by auto
  have kt: "k < 2 ^ 35" "k \<notin> free_frames s" using tree_wfD[OF wf(2), of "[]"] by (auto simp: vpath_def)
  have E1: "entries s1 h j = (if h = g then 0 else entries s h j)" for h j
    by (rule entries_fill[OF g35]) (use g(1,6) in simp)
  have ne: "k \<noteq> g" using kt(2) gF by blast
  let ?x = "read_word (as_u64 (frame_addr k)) 256 s1"
  let ?s2 = "write_word (as_u64 (higher_half a)) 256 ?x s1"
  let ?y = "read_word (as_u64 (frame_addr k)) 511 ?s2"
  let ?s3 = "write_word (as_u64 (higher_half a)) 511 ?y ?s2"
  have E2: "entries ?s2 = put_leaf (entries s1) g 256 (entries s k 256)"
    using ne by (simp add: g(1) entries_write(2)[OF g35] read_table(1)[OF kt(1)] E1)
  have E3: "entries ?s3 = put_leaf (entries ?s2) g 511 (entries s k 511)"
    using ne by (simp add: g(1) entries_write(2)[OF g35] read_table(1)[OF kt(1)] E1 put_leaf_def)
  have E: "entries ?s3 = share (entries s) k g"
    unfolding E3 E2 by (auto simp: put_leaf_def share_def E1 fun_eq_iff)
  have free: "free_frames ?s3 = free_frames s - {g}" "pmm_wf ?s3"
    using g(4,5) by (simp_all add: write_word_def free_frames_def pmm_wf_def)
  have kg: "walk (entries ?s3) k js = walk (entries s) k js" if "vpath js" for js
    using that
  proof (induction js rule: rev_induct)
    case (snoc j js)
    then have p: "vpath js" by (auto simp: vpath_def)
    have "tbl_next (entries ?s3) h j = tbl_next (entries s) h j" if "walk (entries s) k js = Some h" for h
      unfolding E using tree_wfD[OF wf(2) p that] gF by (auto simp: tbl_next_def share_def)
    then show ?case using snoc.IH[OF p] by (auto simp: walk_snoc split: option.splits)
  qed simp
  have leafk: "leaf (entries ?s3) k js j = leaf (entries s) k js j" if "vpath js" for js j
    using kg[OF that] tree_wfD[OF wf(2) that] gF unfolding E by (auto simp: leaf_def share_def split: option.splits)
  have "vmm_new True s = Inr (\<lparr>pagemap = frame_addr g, ranges = []\<rparr>, ?s3)"
    using c kern vmm_more_fields(1)[OF g(7)] g(1) by (simp add: vmm_new_def vmm_get_def Let_def)
  moreover have "aspace_ok ?s3 g" using share_wf[OF wf(2) gF g35] free E by (simp add: aspace_ok_def)
  moreover have "tree_wf (entries ?s3) k (free_frames ?s3)"
    using wf(2) kg free(1) unfolding tree_wf_def by auto
  then have "aspace_ok ?s3 k" using free(2) by (simp add: aspace_ok_def)
  moreover have "lookup_page ?s3 g v = (if pml4 v = 256 \<or> pml4 v = 511 then lookup_page s k v else 0)" for v
    using share_leaf[OF wf(2) gF, of "unat (pml4 v)" "[unat (pdp v), unat (pd v)]" "va_slot v"] vpath_va(1)[of v]
    unfolding lookup_page_def E va_path_def by (simp add: word_unat_eq_iff)
  moreover have "lookup_page ?s3 k v = lookup_page s k v" for v
    using leafk by (simp add: lookup_page_def)
  ultimately show ?thesis using gF free(1) by blast
qed

definition sample_kernel :: "unit vmm_state" where
  "sample_kernel = sample_vm\<lparr>kernel_vmm := Some sample_space\<rparr>"

theorem vmm_new_shares_kernel_witness:
  "\<exists>g s'. vmm_new True sample_kernel = Inr (\<lparr>pagemap = frame_addr g, ranges = []\<rparr>, s') \<and> g \<in> {8..<16} \<and> aspace_ok s' g"
proof -
  have same: "entries sample_kernel = entries sample_vm" "free_frames sample_kernel = {8..<16}" "pmm_wf sample_kernel = pmm_wf sample_vm"
    using sample_vm_free by (simp_all add: sample_kernel_def entries_def free_frames_def pmm_wf_def fun_eq_iff)
  then have "aspace_ok sample_kernel 1" using sample_vm_ok sample_vm_free by (simp add: aspace_ok_def)
  from vmm_new_shares_kernel[OF this, of sample_space] show ?thesis
    using same(2) by (auto simp: sample_kernel_def sample_space_def)
qed

text \<open>
  \<^verbatim>\<open>get_range\<close> returns the first range that has the address strictly inside: the first address of a
  range does not belong to it, so a lookup of the address \<^verbatim>\<open>mmap\<close> was called with finds nothing
  when that range is the only one.
\<close>

theorem get_range_strict:
  assumes "\<forall>r \<in> set (ranges self). unat (rg_start r) + rg_length r < 2 ^ 64"
  shows "get_range self v = Inr (List.find (\<lambda>r. unat (rg_start r) < unat (va_u64 v)
      \<and> unat (va_u64 v) < unat (rg_start r) + rg_length r) (ranges self))
    \<and> (ranges self = [r] \<longrightarrow> get_range self (rg_base r) = Inr None)"
proof
  have inside: "strictly_inside a r = Inr (unat (rg_start r) < unat a \<and> unat a < unat (rg_start r) + rg_length r)"
    if "unat (rg_start r) + rg_length r < 2 ^ 64" for a and r :: "'a vm_range"
  proof -
    have "wadd (va_u64 (rg_base r)) (of_nat (rg_length r)) = Inr (rg_start r + of_nat (rg_length r))"
      using that by (simp add: wadd_def rg_start_def)
    moreover have "unat (rg_start r + of_nat (rg_length r)) = unat (rg_start r) + rg_length r"
      using that by (rule unat_plus_no_wrap)
    ultimately show ?thesis by (auto simp: strictly_inside_def rg_end_def word_less_nat_alt)
  qed
  have "get_range_in rs a = Inr (List.find (\<lambda>r. unat (rg_start r) < unat a \<and> unat a < unat (rg_start r) + rg_length r) rs)"
    if "\<forall>r \<in> set rs. unat (rg_start r) + rg_length r < 2 ^ 64" for rs :: "'a vm_range list" and a
    using that by (induction rs) (auto simp: inside)
  note find = this[OF assms]
  then show "get_range self v = Inr (List.find (\<lambda>r. unat (rg_start r) < unat (va_u64 v)
      \<and> unat (va_u64 v) < unat (rg_start r) + rg_length r) (ranges self))" by (simp add: get_range_def)
  show "ranges self = [r] \<longrightarrow> get_range self (rg_base r) = Inr None"
    using find[of "va_u64 (rg_base r)"] by (auto simp: get_range_def rg_start_def)
qed

theorem get_range_strict_witness:
  "let r = \<lparr>rg_base = VirtAddr 0x5000, rg_length = 0x2000, rg_prot = 3, rg_flags = 0x1002, rg_offset = 0, rg_fd = None :: unit option\<rparr> in
   get_range \<lparr>pagemap = frame_addr 1, ranges = [r]\<rparr> (VirtAddr 0x5000) = Inr None
   \<and> get_range \<lparr>pagemap = frame_addr 1, ranges = [r]\<rparr> (VirtAddr 0x5001) = Inr (Some r)"
proof -
  let ?r = "\<lparr>rg_base = VirtAddr 0x5000, rg_length = 0x2000, rg_prot = 3, rg_flags = 0x1002, rg_offset = 0, rg_fd = None :: unit option\<rparr>"
  let ?m = "\<lparr>pagemap = frame_addr 1, ranges = [?r]\<rparr>"
  have "\<forall>r \<in> set (ranges ?m). unat (rg_start r) + rg_length r < 2 ^ 64" by (simp add: rg_start_def)
  from get_range_strict[OF this, of "VirtAddr 0x5001" ?r] show ?thesis by (simp add: rg_start_def)
qed

text \<open>
  A mapping splits back into what \<^verbatim>\<open>map_page\<close> put together: when the address uses only the address bits of an entry and the flags
  only the other bits, \<^verbatim>\<open>phys_addr\<close> returns the address and each \<^verbatim>\<open>is_*\<close> test answers from the flags alone.
\<close>

lemma page_mapping_decode:
  assumes phys: "phys AND 0x000ffffffffff000 = phys" and flags: "flags AND 0x000ffffffffff000 = 0"
  shows "pm_phys_addr (PageMapping (phys OR flags)) = PhysAddr phys
    \<and> is_present (PageMapping (phys OR flags)) = (flags AND PageFlags_PRESENT \<noteq> 0)
    \<and> is_writable (PageMapping (phys OR flags)) = (flags AND PageFlags_WRITABLE \<noteq> 0)
    \<and> is_usermode (PageMapping (phys OR flags)) = (flags AND PageFlags_USERMODE \<noteq> 0)
    \<and> is_uncacheable (PageMapping (phys OR flags)) = (flags AND PageFlags_UNCACHEABLE \<noteq> 0)
    \<and> is_mmaped (PageMapping (phys OR flags)) = (flags AND PageFlags_MMAPED \<noteq> 0)
    \<and> is_non_exec (PageMapping (phys OR flags)) = (flags AND PageFlags_NX \<noteq> 0)"
proof -
  have keep: "(phys OR flags) AND k = flags AND k" if k: "0x000ffffffffff000 AND k = 0" for k
  proof -
    have "phys AND k = (phys AND 0x000ffffffffff000) AND k" by (simp only: phys)
    also have "\<dots> = 0" by (simp only: and.assoc k and_zero_eq)
    finally show ?thesis by (simp only: bit.conj_disj_distrib2 or.left_neutral)
  qed
  have "(phys OR flags) AND 0x000ffffffffff000 = phys"
    by (simp only: phys flags bit.conj_disj_distrib2 or.right_neutral)
  then have "pm_phys_addr (PageMapping (phys OR flags)) = PhysAddr phys"
    by (simp only: pm_phys_addr_def remove_flags_def phys_addr.sel page_mapping.sel)
  moreover have "0x000ffffffffff000 AND PageFlags_PRESENT = 0" "0x000ffffffffff000 AND PageFlags_WRITABLE = 0"
    "0x000ffffffffff000 AND PageFlags_USERMODE = 0" "0x000ffffffffff000 AND PageFlags_UNCACHEABLE = 0"
    "0x000ffffffffff000 AND PageFlags_MMAPED = 0" "0x000ffffffffff000 AND PageFlags_NX = 0"
    by (simp_all add: flag_values)
  ultimately show ?thesis
    by (simp only: is_present_def is_writable_def is_usermode_def is_uncacheable_def is_mmaped_def is_non_exec_def
      page_mapping.sel keep simp_thms)
qed

lemma page_mapping_decode_witness:
  "pm_phys_addr (PageMapping (0x7000 OR 0x8000000000000003)) = PhysAddr 0x7000
   \<and> is_present (PageMapping (0x7000 OR 0x8000000000000003))
   \<and> \<not> is_usermode (PageMapping (0x7000 OR 0x8000000000000003))"
  using page_mapping_decode[of "0x7000" "0x8000000000000003"] by (simp add: flag_values)

end
