(* ===== verification/Process.thy ===== *)
theory Process
  imports Vmm
begin

text \<open>
  \<^verbatim>\<open>proc/process.rs\<close>: identifiers of processes and threads, and the initial contents of both.
  The two bitmaps are globals of the state. \<^verbatim>\<open>Rc<RefCell<..>>\<close> is a reference \<open>rc_ref\<close>, which the
  code only stores. \<^verbatim>\<open>Process::new\<close> has the allocation of the address space and of the main thread
  commented out, so the process has neither.
\<close>

section \<open>Data\<close>

definition MAX_FDS_PER_PROCESS :: usize where
  "MAX_FDS_PER_PROCESS = 128"

datatype status = Running | Waiting | Dying

datatype selector_values = KernelCs | KernelDs | UserCs | UserDs

fun selector_u64 :: "selector_values \<Rightarrow> u64" where
  "selector_u64 KernelCs = 0x8"
| "selector_u64 KernelDs = 0x10"
| "selector_u64 UserCs = 0x1b"
| "selector_u64 UserDs = 0x23"

text \<open>\<^verbatim>\<open>InterruptContext\<close> of \<^verbatim>\<open>arch/x86_64/cpu.rs\<close>, and its derived default.\<close>

record interrupt_context =
  rax :: u64
  rbx :: u64
  rcx :: u64
  rdx :: u64
  rsi :: u64
  rdi :: u64
  rbp :: u64
  r8 :: u64
  r9 :: u64
  r10 :: u64
  r11 :: u64
  r12 :: u64
  r13 :: u64
  r14 :: u64
  r15 :: u64
  rip :: u64
  cs :: u64
  rflags :: u64
  rsp :: u64
  ss :: u64

definition interrupt_context_default :: interrupt_context where
  "interrupt_context_default = \<lparr>rax = 0, rbx = 0, rcx = 0, rdx = 0, rsi = 0, rdi = 0, rbp = 0,
     r8 = 0, r9 = 0, r10 = 0, r11 = 0, r12 = 0, r13 = 0, r14 = 0, r15 = 0,
     rip = 0, cs = 0, rflags = 0, rsp = 0, ss = 0\<rparr>"

type_synonym rc_ref = nat

record thread =
  tid :: usize
  th_status :: status
  parent :: rc_ref
  kernel_stack :: u64
  regs :: interrupt_context

record 'fd process =
  pid :: usize
  pr_status :: status
  pr_name :: string
  pr_pagemap :: "'fd vmm option"
  threads :: "rc_ref list"
  file_desc_list :: "'fd option list"
  working_dir :: "'fd option"

record proc_state = pmm_state +
  pid_bitmap :: "bitmap option"
  tid_bitmap :: "bitmap option"

section \<open>Operations\<close>

definition process_new :: "string \<Rightarrow> u64 \<Rightarrow> 'fd option \<Rightarrow> 'fd process" where
  "process_new name rip_val wd =
     \<lparr>pid = 0, pr_status = Running, pr_name = name, pr_pagemap = None, threads = [],
      file_desc_list = replicate MAX_FDS_PER_PROCESS None, working_dir = wd\<rparr>"

definition alloc_pid :: "'z proc_state_scheme \<Rightarrow> (usize option \<times> 'z proc_state_scheme) res" where
  "alloc_pid s =
     bnd (expect ''Pid bitmap hasn't been initialized'' (pid_bitmap s)) (\<lambda>bm.
     bnd (umul (bm_size bm) 8) (\<lambda>n.
     bnd (claim_first bitmap_is_set bitmap_set n bm) (\<lambda>r. case r of
         Some (i, bm) \<Rightarrow> Inr (Some i, s\<lparr>pid_bitmap := Some bm\<rparr>)
       | None \<Rightarrow> Inr (None, s))))"

definition alloc_tid :: "'z proc_state_scheme \<Rightarrow> (usize option \<times> 'z proc_state_scheme) res" where
  "alloc_tid s =
     bnd (expect ''Tid bitmap hasn't been initialized'' (tid_bitmap s)) (\<lambda>bm.
     bnd (umul (bm_size bm) 8) (\<lambda>n.
     bnd (claim_first bitmap_is_set bitmap_set n bm) (\<lambda>r. case r of
         Some (i, bm) \<Rightarrow> Inr (Some i, s\<lparr>tid_bitmap := Some bm\<rparr>)
       | None \<Rightarrow> Inr (None, s))))"

definition thread_new ::
  "u64 \<Rightarrow> selector_values \<Rightarrow> rc_ref \<Rightarrow> 'z proc_state_scheme \<Rightarrow> (thread \<times> 'z proc_state_scheme) res" where
  "thread_new rip_val cs_val par s =
     bnd (alloc_tid s) (\<lambda>(r, s).
     bnd (expect ''Could not allocate a new tid'' r) (\<lambda>i.
     let regs = interrupt_context_default;
         regs = if selector_u64 cs_val AND 0x3 \<noteq> 0
                then regs\<lparr>ss := selector_u64 UserDs\<rparr> else regs\<lparr>ss := selector_u64 KernelDs\<rparr>;
         regs = regs\<lparr>rflags := 0x202\<rparr>;
         regs = regs\<lparr>cs := selector_u64 cs_val\<rparr>;
         regs = regs\<lparr>rip := rip_val\<rparr> in
       Inr (\<lparr>tid = i, th_status = Running, parent = par, kernel_stack = 0, regs = regs\<rparr>, s)))"

definition init_bitmaps :: "'z proc_state_scheme \<Rightarrow> 'z proc_state_scheme res" where
  "init_bitmaps s =
     bnd (bitmap_new (unat PAGE_SIZE) s) (\<lambda>(a, s).
     bnd (bitmap_new (unat PAGE_SIZE) s) (\<lambda>(b, s).
       Inr (s\<lparr>pid_bitmap := Some a, tid_bitmap := Some b\<rparr>)))"

section \<open>Identifiers\<close>

definition pids :: "'z proc_state_scheme \<Rightarrow> nat set" where
  "pids s = (case pid_bitmap s of None \<Rightarrow> {} | Some bm \<Rightarrow> bm_ones bm)"

definition tids :: "'z proc_state_scheme \<Rightarrow> nat set" where
  "tids s = (case tid_bitmap s of None \<Rightarrow> {} | Some bm \<Rightarrow> bm_ones bm)"

definition proc_wf :: "nat \<Rightarrow> 'z proc_state_scheme \<Rightarrow> bool" where
  "proc_wf n s \<longleftrightarrow> (\<exists>a b. pid_bitmap s = Some a \<and> tid_bitmap s = Some b \<and> bm_wf a \<and> bm_wf b
     \<and> bm_bits a = n \<and> bm_bits b = n)"

lemma claim_bitmap:
  assumes "bm_wf bm"
  shows "umul (bm_size bm) 8 = Inr (bm_bits bm)
    \<and> (claim_first bitmap_is_set bitmap_set (bm_bits bm) bm = Inr None \<and> bm_ones bm = {..<bm_bits bm}
     \<or> (\<exists>i bm'. claim_first bitmap_is_set bitmap_set (bm_bits bm) bm = Inr (Some (i, bm'))
          \<and> i < bm_bits bm \<and> i \<notin> bm_ones bm \<and> {..<i} \<subseteq> bm_ones bm
          \<and> bm_ones bm' = insert i (bm_ones bm) \<and> bm_bits bm' = bm_bits bm \<and> bm_wf bm'))"
proof -
  have "umul (bm_size bm) 8 = Inr (bm_bits bm)" using assms by (simp add: bm_wf_bits umul_def bm_wf_def)
  moreover have "bm_ones bm \<subseteq> {..<bm_bits bm}" by (auto simp: bm_ones_def)
  moreover have "bm_wf bm'" if "bm_bits bm' = bm_bits bm" "bm_shape bm' = bm_shape bm" for bm'
    using bm_wf_shape[of bm bm'] that assms by blast
  ultimately show ?thesis using bm.claim_first_cases[of "bm_bits bm" bm] by blast
qed

text \<open>The two allocators differ only in the bitmap they use.\<close>

lemma alloc_tid_cases:
  assumes "proc_wf n s"
  shows "alloc_tid s = Inr (None, s) \<and> tids s = {..<n}
    \<or> (\<exists>i s'. alloc_tid s = Inr (Some i, s') \<and> i < n \<and> i \<notin> tids s \<and> {..<i} \<subseteq> tids s
        \<and> tids s' = insert i (tids s) \<and> pids s' = pids s \<and> proc_wf n s')"
proof -
  from assms obtain a b where ab: "pid_bitmap s = Some a" "tid_bitmap s = Some b" "bm_wf a" "bm_wf b"
      "bm_bits a = n" "bm_bits b = n" by (auto simp: proc_wf_def)
  from claim_bitmap[OF ab(4)] show ?thesis
  proof (elim conjE disjE exE)
    assume "umul (bm_size b) 8 = Inr (bm_bits b)" "claim_first bitmap_is_set bitmap_set (bm_bits b) b = Inr None"
      "bm_ones b = {..<bm_bits b}"
    then show ?thesis using ab by (simp add: alloc_tid_def tids_def)
  next
    fix i bm' assume "umul (bm_size b) 8 = Inr (bm_bits b)"
      "claim_first bitmap_is_set bitmap_set (bm_bits b) b = Inr (Some (i, bm'))" "i < bm_bits b" "i \<notin> bm_ones b"
      "{..<i} \<subseteq> bm_ones b" "bm_ones bm' = insert i (bm_ones b)" "bm_bits bm' = bm_bits b" "bm_wf bm'"
    then show ?thesis using ab by (simp add: alloc_tid_def tids_def pids_def proc_wf_def)
  qed
qed

lemma alloc_pid_cases:
  assumes "proc_wf n s"
  shows "alloc_pid s = Inr (None, s) \<and> pids s = {..<n}
    \<or> (\<exists>i s'. alloc_pid s = Inr (Some i, s') \<and> i < n \<and> i \<notin> pids s \<and> {..<i} \<subseteq> pids s
        \<and> pids s' = insert i (pids s) \<and> tids s' = tids s \<and> proc_wf n s')"
proof -
  from assms obtain a b where ab: "pid_bitmap s = Some a" "tid_bitmap s = Some b" "bm_wf a" "bm_wf b"
      "bm_bits a = n" "bm_bits b = n" by (auto simp: proc_wf_def)
  from claim_bitmap[OF ab(3)] show ?thesis
  proof (elim conjE disjE exE)
    assume "umul (bm_size a) 8 = Inr (bm_bits a)" "claim_first bitmap_is_set bitmap_set (bm_bits a) a = Inr None"
      "bm_ones a = {..<bm_bits a}"
    then show ?thesis using ab by (simp add: alloc_pid_def pids_def)
  next
    fix i bm' assume "umul (bm_size a) 8 = Inr (bm_bits a)"
      "claim_first bitmap_is_set bitmap_set (bm_bits a) a = Inr (Some (i, bm'))" "i < bm_bits a" "i \<notin> bm_ones a"
      "{..<i} \<subseteq> bm_ones a" "bm_ones bm' = insert i (bm_ones a)" "bm_bits bm' = bm_bits a" "bm_wf bm'"
    then show ?thesis using ab by (simp add: alloc_pid_def tids_def pids_def proc_wf_def)
  qed
qed

section \<open>Properties\<close>

text \<open>
  A run of identifier requests: the state and the thread identifiers given out so far.
\<close>

inductive tid_run :: "'z proc_state_scheme \<Rightarrow> 'z proc_state_scheme \<times> nat list \<Rightarrow> bool" for s0 where
  boot: "tid_run s0 (s0, [])"
| spawn: "tid_run s0 (s, is) \<Longrightarrow> thread_new entry sel par s = Inr (th, s') \<Longrightarrow> tid_run s0 (s', tid th # is)"
| fork: "tid_run s0 (s, is) \<Longrightarrow> alloc_pid s = Inr (r, s') \<Longrightarrow> tid_run s0 (s', is)"

lemma thread_new_tid:
  assumes "proc_wf n s" and "thread_new entry sel par s = Inr (th, s')"
  shows "tid th < n \<and> tid th \<notin> tids s \<and> tids s' = insert (tid th) (tids s) \<and> proc_wf n s'"
proof -
  from assms(2) obtain i where "alloc_tid s = Inr (Some i, s')" "tid th = i"
    by (auto simp: thread_new_def res_simps Let_def simp del: selector_u64.simps split: option.splits)
  then show ?thesis using alloc_tid_cases[OF assms(1)] by auto
qed

lemma alloc_pid_tids: "proc_wf n s \<Longrightarrow> alloc_pid s = Inr (r, s') \<Longrightarrow> tids s' = tids s \<and> proc_wf n s'"
  using alloc_pid_cases[of n s] by auto

text \<open>
  C27. No two threads get the same identifier, and identifiers are dense: however thread creations and
  process-identifier requests interleave, the thread identifiers are different, within the bitmap, and not taken before.
\<close>

theorem tids_unique:
  assumes "tid_run s0 (s, is)" and "proc_wf n s0"
  shows "distinct is \<and> set is \<subseteq> {..<n} \<and> set is \<inter> tids s0 = {} \<and> tids s = set is \<union> tids s0 \<and> proc_wf n s"
  using assms(1)
proof (induction "(s, is)" arbitrary: s "is" rule: tid_run.induct)
  case boot
  then show ?case using assms(2) by simp
next
  case (spawn s "is" entry sel par th s')
  then have "proc_wf n s" by simp
  from thread_new_tid[OF this spawn.hyps(3)] spawn.hyps(2) show ?case by auto
next
  case (fork s "is" r s')
  then show ?case using alloc_pid_tids[of n s r s'] by auto
qed

definition sample_proc :: proc_state where
  "sample_proc = \<lparr>mem = (\<lambda>_. 0), page_allocator = None, pid_bitmap = Some \<lparr>bm_ptr = 0, bm_data = [0], bm_size = 1\<rparr>,
     tid_bitmap = Some \<lparr>bm_ptr = 4096, bm_data = [1], bm_size = 1\<rparr>\<rparr>"

lemma sample_proc_wf: "proc_wf 8 sample_proc"
  by (simp add: proc_wf_def sample_proc_def bm_wf_def bm_bits_def)

lemma sample_tids: "tids sample_proc = {0}"
proof -
  have "0 \<in> tids sample_proc" "tids sample_proc \<subseteq> {0}"
    by (auto simp: tids_def sample_proc_def bm_ones_def bm_bits_def bit_1_iff)
  then show ?thesis by blast
qed

lemma few_tids: "card A < 8 \<Longrightarrow> A \<noteq> {..<8 :: nat}"
  by auto

lemma thread_new_tid_free:
  assumes "alloc_tid s = Inr (Some i, s')"
  shows "\<exists>th. thread_new entry sel par s = Inr (th, s')"
  using assms by (simp add: thread_new_def Let_def)

theorem tids_unique_witness:
  "\<exists>s i j. tid_run sample_proc (s, [j, i]) \<and> i \<noteq> j \<and> i < 8 \<and> j < 8 \<and> i \<noteq> 0"
proof -
  note run0 = tid_run.boot[of sample_proc]
  have "tids sample_proc \<noteq> {..<8}" by (rule few_tids) (simp add: sample_tids)
  then obtain i s1 where "alloc_tid sample_proc = Inr (Some i, s1)"
    using alloc_tid_cases[OF sample_proc_wf] by blast
  from thread_new_tid_free[OF this] obtain th where th: "thread_new 0x1000 UserCs 7 sample_proc = Inr (th, s1)" by blast
  note run1 = tid_run.spawn[OF run0 th]
  from tids_unique[OF run1 sample_proc_wf] have s1: "proc_wf 8 s1" "tids s1 = {tid th, 0}" by (auto simp: sample_tids)
  have "card {tid th, 0} < 8" by (simp add: card_insert_if)
  then have "tids s1 \<noteq> {..<8}" using few_tids[of "tids s1"] s1(2) by simp
  then obtain j s2 where "alloc_tid s1 = Inr (Some j, s2)" using alloc_tid_cases[OF s1(1)] by blast
  from thread_new_tid_free[OF this] obtain th2 where th2: "thread_new 0x2000 KernelCs 7 s1 = Inr (th2, s2)" by blast
  note run2 = tid_run.spawn[OF run1 th2]
  show ?thesis using tids_unique[OF run2 sample_proc_wf] run2
    by (intro exI[of _ s2] exI[of _ "tid th"] exI[of _ "tid th2"]) (auto simp: sample_tids)
qed

text \<open>
  A new thread starts with interrupts enabled at the given instruction, with the data selector of the
  privilege level of its code selector: user stack selector with \<^verbatim>\<open>UserCs\<close>, kernel stack selector with
  \<^verbatim>\<open>KernelCs\<close>. It gets the least free identifier; the request panics only when none is left.
\<close>

theorem thread_new_context:
  assumes "proc_wf n s"
  shows "(tids s = {..<n} \<and> thread_new entry sel par s = Inl (Panicked ''Could not allocate a new tid''))
    \<or> (\<exists>th s'. thread_new entry sel par s = Inr (th, s') \<and> tid th \<notin> tids s \<and> {..<tid th} \<subseteq> tids s
        \<and> rip (regs th) = entry \<and> cs (regs th) = selector_u64 sel \<and> rflags (regs th) = 0x202
        \<and> ss (regs th) AND 3 = cs (regs th) AND 3 \<and> parent th = par \<and> th_status th = Running)"
  using alloc_tid_cases[OF assms]
proof (elim disjE conjE exE)
  assume "alloc_tid s = Inr (None, s)" "tids s = {..<n}"
  then show ?thesis by (simp add: thread_new_def)
next
  fix i s' assume "alloc_tid s = Inr (Some i, s')" "i \<notin> tids s" "{..<i} \<subseteq> tids s"
  then show ?thesis by (cases sel) (simp_all add: thread_new_def Let_def)
qed

theorem thread_new_context_witness:
  "\<exists>th s'. thread_new 0x1000 UserCs 7 sample_proc = Inr (th, s') \<and> ss (regs th) AND 3 = 3"
proof -
  have "tids sample_proc \<noteq> {..<8}" by (rule few_tids) (simp add: sample_tids)
  with thread_new_context[OF sample_proc_wf, of "0x1000" UserCs 7]
  obtain th s' where "thread_new 0x1000 UserCs 7 sample_proc = Inr (th, s')" "cs (regs th) = selector_u64 UserCs"
      "ss (regs th) AND 3 = cs (regs th) AND 3" by blast
  then show ?thesis by simp
qed

text \<open>
  After \<^verbatim>\<open>init_bitmaps\<close> no identifier is taken and 32768 of each kind are available, in two bitmaps that
  live in different frames of memory.
\<close>

lemma init_bitmaps_fresh:
  assumes wf: "pmm_wf s" and ini: "init_bitmaps s = Inr s'"
  shows "proc_wf 32768 s' \<and> pids s' = {} \<and> tids s' = {} \<and> pmm_wf s' \<and> free_frames s' \<subseteq> free_frames s"
proof -
  from ini obtain a s1 b s2 where a: "bitmap_new 4096 s = Inr (a, s1)" and b: "bitmap_new 4096 s1 = Inr (b, s2)"
      and s': "s' = s2\<lparr>pid_bitmap := Some a, tid_bitmap := Some b\<rparr>" by (auto simp: init_bitmaps_def res_simps)
  from bitmap_new_effect[OF wf _ a] have A: "bm_ones a = {}" "bm_wf a" "bm_bits a = 8 * 4096" "pmm_wf s1"
      "free_frames s1 \<subseteq> free_frames s" by auto
  from bitmap_new_effect[OF A(4) _ b] have B: "bm_ones b = {}" "bm_wf b" "bm_bits b = 8 * 4096" "pmm_wf s2"
      "free_frames s2 \<subseteq> free_frames s1" by auto
  show ?thesis using A B s' by (auto simp: proc_wf_def pids_def tids_def pmm_wf_def free_frames_def)
qed

lemma init_bitmaps_fresh_witness:
  "\<exists>s s'. init_bitmaps s = Inr s' \<and> pmm_wf s \<and> tids s' = ({} :: nat set) \<and> proc_wf 32768 (s' :: proc_state)"
proof -
  let ?s = "sample_proc\<lparr>page_allocator := Some \<lparr>bm_ptr = PHYS_BASE, bm_data = [0, - 1], bm_size = 2\<rparr>\<rparr>"
  have wf: "pmm_wf ?s" by (simp add: pmm_wf_def bm_wf_def bm_bits_def)
  have fr: "free_frames ?s = {8..<16}" by (simp add: free_frames_def upper_ones)
  have one: "ceil_div 4096 4096 = 1" by (simp add: ceil_div_def)
  obtain a s1 where s1: "bitmap_new 4096 ?s = Inr (a, s1)" "free_frames s1 = {9..<16}" "pmm_wf s1"
    using bitmap_new_region[OF wf fr, of 4096] by (auto simp: one)
  obtain b s2 where "bitmap_new 4096 s1 = Inr (b, s2)"
    using bitmap_new_region[OF s1(3,2), of 4096] by (auto simp: one)
  then obtain s' where s': "init_bitmaps ?s = Inr s'" using s1 by (simp add: init_bitmaps_def)
  show ?thesis using init_bitmaps_fresh[OF wf s'] s' wf by blast
qed

end
