(* ===== verification/Acpi.thy ===== *)
theory Acpi
  imports Phys_Memory
begin

text \<open>
  \<^verbatim>\<open>arch/x86_64/acpi/mod.rs\<close>: the search for an ACPI table. The firmware's structures are packed and little-endian; they lie
  in physical memory, which the boot loader maps at its own addresses. A table is named by the address of its header.
\<close>

section \<open>Structures\<close>

record rsdp =
  rs_signature :: "u8 list"
  rs_checksum :: u8
  rs_oem_id :: "u8 list"
  rs_revision :: u8
  rsdt_addr :: u32
  rs_length :: u32
  xsdt_addr :: u64
  rs_extended_checksum :: u8
  rs_reserved :: "u8 list"

definition rsdp_of :: "u8 list \<Rightarrow> rsdp" where
  "rsdp_of bs =
     \<lparr>rs_signature = take 8 bs, rs_checksum = le_at 8 1 bs, rs_oem_id = take 6 (drop 9 bs), rs_revision = le_at 15 1 bs,
      rsdt_addr = le_at 16 4 bs, rs_length = le_at 20 4 bs, xsdt_addr = le_at 24 8 bs, rs_extended_checksum = le_at 32 1 bs,
      rs_reserved = take 3 (drop 33 bs)\<rparr>"

record sdt =
  sd_signature :: "u8 list"
  sd_length :: u32
  sd_revision :: u8
  sd_checksum :: u8
  sd_oem_id :: "u8 list"
  sd_oem_table_id :: "u8 list"
  sd_oem_revision :: u32
  sd_creator_id :: u32
  sd_creator_revision :: u32

definition sdt_of :: "u8 list \<Rightarrow> sdt" where
  "sdt_of bs =
     \<lparr>sd_signature = take 4 bs, sd_length = le_at 4 4 bs, sd_revision = le_at 8 1 bs, sd_checksum = le_at 9 1 bs,
      sd_oem_id = take 6 (drop 10 bs), sd_oem_table_id = take 8 (drop 16 bs), sd_oem_revision = le_at 24 4 bs,
      sd_creator_id = le_at 28 4 bs, sd_creator_revision = le_at 32 4 bs\<rparr>"

text \<open>\<^verbatim>\<open>size_of::<Rsdp>()\<close> and \<^verbatim>\<open>size_of::<Sdt>()\<close> are 36.\<close>

definition rsdp_at :: "memory \<Rightarrow> u64 \<Rightarrow> rsdp" where
  "rsdp_at m p = rsdp_of (load_bytes m (direct p) 36)"

definition sdt_at :: "memory \<Rightarrow> u64 \<Rightarrow> sdt" where
  "sdt_at m p = sdt_of (load_bytes m (direct p) 36)"

definition data_address :: "u64 \<Rightarrow> u64" where
  "data_address p = p + 36"

section \<open>The search\<close>

text \<open>The static \<^verbatim>\<open>RSDP\<close>, null until \<open>init\<close> sets it from the tag of the boot loader.\<close>

record acpi_state =
  RSDP :: u64

definition acpi_boot :: acpi_state where
  "acpi_boot = \<lparr>RSDP = 0\<rparr>"

definition acpi_init :: "u64 \<Rightarrow> acpi_state \<Rightarrow> acpi_state" where
  "acpi_init rsdp_tag s = s\<lparr>RSDP := rsdp_tag\<rparr>"

text \<open>One branch of \<open>find_table\<close>: the root table at \<open>header\<close> lists addresses of \<open>w\<close> bytes.\<close>

definition find_in_table :: "memory \<Rightarrow> u64 \<Rightarrow> nat \<Rightarrow> u8 list \<Rightarrow> u64 option res" where
  "find_in_table m header w signature =
     bnd (wsub (sd_length (sdt_at m header)) 36) (\<lambda>n.
     let table_cnt = unat n div w;
         tables = data_address header in
     bnd (for_loop 0 table_cnt (\<lambda>i _.
       let curr_table = of_le (load_bytes m (direct (tables + of_nat (i * w))) w) in
       if list_all (\<lambda>(a, b). a = b) (zip (sd_signature (sdt_at m curr_table)) signature)
       then Inr (Return curr_table) else Inr (Continue ())) ()) (\<lambda>r.
     case r of Return t \<Rightarrow> Inr (Some t) | Continue _ \<Rightarrow> Inr None))"

definition find_table :: "memory \<Rightarrow> u8 list \<Rightarrow> acpi_state \<Rightarrow> u64 option res" where
  "find_table m signature s =
     (if RSDP s = 0 then Inl BadPointer
      else let r = rsdp_at m (RSDP s) in
        if rs_revision r = 0 then find_in_table m (ucast (rsdt_addr r)) 4 signature
        else find_in_table m (xsdt_addr r) 8 signature)"

section \<open>What the search finds\<close>

text \<open>The root table of the firmware's generation, the width of its entries, and the tables it lists.\<close>

definition root_table :: "memory \<Rightarrow> acpi_state \<Rightarrow> u64 \<times> nat" where
  "root_table m s =
     (let r = rsdp_at m (RSDP s) in if rs_revision r = 0 then (ucast (rsdt_addr r), 4) else (xsdt_addr r, 8))"

definition listed_tables :: "memory \<Rightarrow> u64 \<times> nat \<Rightarrow> u64 list" where
  "listed_tables m = (\<lambda>(header, w).
     map (\<lambda>i. of_le (load_bytes m (direct (header + 36 + of_nat (i * w))) w))
       [0..<(unat (sd_length (sdt_at m header)) - 36) div w])"

definition table_signature :: "memory \<Rightarrow> u64 \<Rightarrow> u8 list" where
  "table_signature m p = load_bytes m (direct p) 4"

lemma take_load_bytes: "k \<le> n \<Longrightarrow> take k (load_bytes m a n) = load_bytes m a k"
  by (simp add: load_bytes_def take_map)

lemma all_equal_zip: "length xs = length ys \<Longrightarrow> list_all (\<lambda>(a, b). a = b) (zip xs ys) \<longleftrightarrow> xs = ys"
  by (induction xs ys rule: list_induct2) auto

lemma find_map_upt: "List.find P (map f [a..<b]) = map_option f (List.find (P \<circ> f) [a..<b])"
  by (induction "b - a" arbitrary: a) (auto simp: upt_conv_Cons)

lemma signature_test:
  "length sig = 4 \<Longrightarrow> list_all (\<lambda>(a, b). a = b) (zip (sd_signature (sdt_at m p)) sig) \<longleftrightarrow> table_signature m p = sig"
  by (simp add: sdt_at_def sdt_of_def take_load_bytes table_signature_def all_equal_zip)

lemma find_in_table_eq:
  assumes "length sig = 4"
  shows "find_in_table m header w sig =
    (if unat (sd_length (sdt_at m header)) < 36 then Inl Overflow
     else Inr (List.find (\<lambda>p. table_signature m p = sig) (listed_tables m (header, w))))"
proof (cases "unat (sd_length (sdt_at m header)) < 36")
  case True
  then have "\<not> 36 \<le> sd_length (sdt_at m header)" by (simp add: word_le_nat_alt)
  then show ?thesis using True by (simp add: find_in_table_def wsub_def)
next
  case False
  then have le: "36 \<le> sd_length (sdt_at m header)" by (simp add: word_le_nat_alt)
  let ?n = "(unat (sd_length (sdt_at m header)) - 36) div w"
  let ?f = "\<lambda>i. of_le (load_bytes m (direct (header + 36 + of_nat (i * w))) w) :: u64"
  have n: "unat (sd_length (sdt_at m header) - 36) = unat (sd_length (sdt_at m header)) - 36"
    using le by (simp add: unat_sub)
  have "for_loop 0 ?n (\<lambda>i _. let curr_table = ?f i in
       if list_all (\<lambda>(a, b). a = b) (zip (sd_signature (sdt_at m curr_table)) sig)
       then Inr (Return curr_table) else Inr (Continue ())) ()
     = (case List.find (\<lambda>i. table_signature m (?f i) = sig) [0..<?n] of
          None \<Rightarrow> Inr (Continue ()) | Some i \<Rightarrow> bnd (Inr (?f i)) (\<lambda>r. Inr (Return r)))"
    by (rule for_loop_search) (simp_all add: signature_test[OF assms] Let_def)
  then show ?thesis using False le
    by (simp add: find_in_table_def wsub_def n data_address_def listed_tables_def find_map_upt comp_def Let_def
        split: option.split)
qed

text \<open>
  C35. \<^verbatim>\<open>find_table\<close> walks the list of the root table the firmware's revision selects (32-bit addresses in the RSDT, 64-bit addresses in
  the XSDT) and returns the first listed table with the signature, and \<^verbatim>\<open>None\<close> exactly when no listed table has it. A root table whose
  length field is smaller than a header makes it panic, and so does a call before \<^verbatim>\<open>init\<close>.
\<close>

theorem find_table_first:
  assumes "length sig = 4"
  shows "find_table m sig s =
    (if RSDP s = 0 then Inl BadPointer
     else if unat (sd_length (sdt_at m (fst (root_table m s)))) < 36 then Inl Overflow
     else Inr (List.find (\<lambda>p. table_signature m p = sig) (listed_tables m (root_table m s))))"
  unfolding find_table_def root_table_def find_in_table_eq[OF assms] by (simp add: Let_def)

text \<open>A firmware of the first generation whose root table lists two tables.\<close>

definition sample_firmware :: memory where
  "sample_firmware = (\<lambda>_. 0)(0x18 := 0x40, 0x44 := 44, 0x64 := 0x80, 0x68 := 0xc0,
     0x80 := 65, 0x81 := 80, 0x82 := 73, 0x83 := 67, 0xc0 := 72, 0xc1 := 80, 0xc2 := 69, 0xc3 := 84)"

lemmas sample_bytes = load_bytes_def direct_def PHYS_BASE_def sample_firmware_def le_at_def upt_rec

theorem find_table_first_witness:
  "find_table sample_firmware [72, 80, 69, 84] (acpi_init 8 acpi_boot) = Inr (Some 0xc0)"
proof -
  have root: "root_table sample_firmware (acpi_init 8 acpi_boot) = (0x40, 4)"
    by (simp add: root_table_def rsdp_at_def rsdp_of_def acpi_init_def acpi_boot_def sample_bytes)
  have len: "unat (sd_length (sdt_at sample_firmware 0x40)) = 44" by (simp add: sdt_at_def sdt_of_def sample_bytes)
  have "listed_tables sample_firmware (0x40, 4) = [0x80, 0xc0]"
    unfolding listed_tables_def split_conv len by (simp add: sample_bytes)
  moreover have "table_signature sample_firmware 0x80 = [65, 80, 73, 67]" "table_signature sample_firmware 0xc0 = [72, 80, 69, 84]"
    by (simp_all add: table_signature_def sample_bytes)
  ultimately show ?thesis
    using find_table_first[of "[72, 80, 69, 84]" sample_firmware "acpi_init 8 acpi_boot"] root len by (simp add: acpi_init_def)
qed

end
