(* ===== verification/Hpet.thy ===== *)
theory Hpet
  imports Acpi Vmm
begin

text \<open>
  \<^verbatim>\<open>drivers/hpet.rs\<close>: the high precision event timer. Its registers are a record; what the timer does between two reads of
  a register is the parameter \<open>hw\<close>, so the busy wait of \<open>sleep\<close> is a partial function, and a wait that does not end is the
  fault \<open>Hangs\<close>. The record is extensible: other timers run beside this one.
\<close>

section \<open>Structures\<close>

definition MS_IN_FEMTOSECONDS :: u64 where "MS_IN_FEMTOSECONDS = 1000000000000"

record hpet_table =
  ht_header :: sdt
  ht_revision_id :: u8
  ht_details :: u8
  ht_pci_id :: u16
  ht_addr_space_id :: u8
  ht_register_width :: u8
  ht_register_offset :: u8
  ht_reserved :: u8
  ht_address :: u64
  ht_hpet_num :: u8
  ht_min_ticks :: u16
  ht_page_prot :: u8

definition hpet_table_of :: "u8 list \<Rightarrow> hpet_table" where
  "hpet_table_of bs =
     \<lparr>ht_header = sdt_of bs, ht_revision_id = le_at 36 1 bs, ht_details = le_at 37 1 bs, ht_pci_id = le_at 38 2 bs,
      ht_addr_space_id = le_at 40 1 bs, ht_register_width = le_at 41 1 bs, ht_register_offset = le_at 42 1 bs,
      ht_reserved = le_at 43 1 bs, ht_address = le_at 44 8 bs, ht_hpet_num = le_at 52 1 bs, ht_min_ticks = le_at 53 2 bs,
      ht_page_prot = le_at 55 1 bs\<rparr>"

record hpet_mem =
  general_capabilities :: u64
  hm_unused0 :: u64
  general_config :: u64
  hm_unused1 :: u64
  hm_interrupt_status :: u64
  hm_unused2 :: "u64 list"
  main_counter_value :: u64

section \<open>Operations\<close>

text \<open>
  \<^verbatim>\<open>init\<close>: the address of the registers (the value of the static \<^verbatim>\<open>HPET\<close>), the registers and the rest of the kernel.
\<close>

definition hpet_init ::
  "bitflags_api \<Rightarrow> acpi_state \<Rightarrow> 'h hpet_mem_scheme \<Rightarrow> ('fd, 'z) vmm_state_scheme \<Rightarrow>
     (u64 \<times> 'h hpet_mem_scheme \<times> ('fd, 'z) vmm_state_scheme) res" where
  "hpet_init fl acpi d s =
     bnd (find_table (mem s) (map of_char ''HPET'') acpi) (\<lambda>r.
     bnd (expect ''Could not find the HPET table'' r) (\<lambda>table.
     let hpet_table = hpet_table_of (load_bytes (mem s) (direct table) 56) in
     bnd (vmm_get s) (\<lambda>vmm.
     bnd (wadd (ht_address hpet_table) PHYS_BASE) (\<lambda>virt.
     bnd (map_page fl vmm (VirtAddr virt) (PhysAddr (ht_address hpet_table))
            (fl_union fl (fl_union fl PageFlags_PRESENT PageFlags_WRITABLE) PageFlags_UNCACHEABLE) True s) (\<lambda>s.
       Inr (ht_address hpet_table, d\<lparr>general_config := 1\<rparr>, s))))))"

text \<open>The loop of \<^verbatim>\<open>sleep\<close>; the timer moves on before each read of the counter.\<close>

partial_function (option) sleep_loop ::
  "('h hpet_mem_scheme \<Rightarrow> 'h hpet_mem_scheme) \<Rightarrow> u64 \<Rightarrow> 'h hpet_mem_scheme \<Rightarrow> 'h hpet_mem_scheme option" where
  "sleep_loop hw target d =
     (let d = hw d in if main_counter_value d < target then sleep_loop hw target d else Some d)"

definition clock_period :: "'h hpet_mem_scheme \<Rightarrow> u32" where
  "clock_period d = ucast (drop_bit 32 (general_capabilities d))"

definition sleep ::
  "('h hpet_mem_scheme \<Rightarrow> 'h hpet_mem_scheme) \<Rightarrow> u64 option \<Rightarrow> u64 \<Rightarrow> 'h hpet_mem_scheme \<Rightarrow> 'h hpet_mem_scheme res" where
  "sleep hw HPET ms d =
     bnd (expect ''The HPET hasn't been initialized'' HPET) (\<lambda>_.
     let clock = clock_period d in
     bnd (wmul ms MS_IN_FEMTOSECONDS) (\<lambda>fs.
     if clock = 0 then Inl DivByZero
     else bnd (wadd (main_counter_value d) (fs div ucast clock)) (\<lambda>target.
       case sleep_loop hw target d of None \<Rightarrow> Inl Hangs | Some d \<Rightarrow> Inr d)))"

section \<open>The wait ends\<close>

text \<open>A timer that runs: its counter moves forward between two reads until it has reached its largest value.\<close>

definition counter_runs :: "('h hpet_mem_scheme \<Rightarrow> 'h hpet_mem_scheme) \<Rightarrow> bool" where
  "counter_runs hw \<longleftrightarrow> (\<forall>d. main_counter_value d < main_counter_value (hw d) \<or> main_counter_value (hw d) = - 1)"

lemma sleep_loop_ends:
  assumes "counter_runs hw"
  shows "\<exists>d'. sleep_loop hw target d = Some d' \<and> target \<le> main_counter_value d'"
proof (induction "2 ^ 64 - unat (main_counter_value d)" arbitrary: d rule: less_induct)
  case less
  show ?case
  proof (cases "main_counter_value (hw d) < target")
    case True
    then have "main_counter_value (hw d) \<noteq> - 1" using word_order.extremum[of target] by (auto simp: not_le[symmetric])
    then have "main_counter_value d < main_counter_value (hw d)" using assms by (auto simp: counter_runs_def)
    then have "unat (main_counter_value d) < unat (main_counter_value (hw d))" by (simp add: word_less_nat_alt)
    moreover have "unat (main_counter_value (hw d)) < 2 ^ 64" using unat_less_limit[of "main_counter_value (hw d)"] by simp
    ultimately have "2 ^ 64 - unat (main_counter_value (hw d)) < 2 ^ 64 - unat (main_counter_value d)" by simp
    from less[OF this] show ?thesis using True by (subst sleep_loop.simps) (simp add: Let_def)
  next
    case False
    moreover from this have "target \<le> main_counter_value (hw d)" by simp
    ultimately show ?thesis by (subst sleep_loop.simps) (simp only: Let_def if_False, blast)
  qed
qed

lemma sleep_loop_stopped:
  assumes "\<And>d. main_counter_value (hw d) = main_counter_value d" and "main_counter_value d < target"
  shows "sleep_loop hw target d = None"
proof (rule ccontr)
  assume "sleep_loop hw target d \<noteq> None"
  then obtain y where y: "sleep_loop hw target d = Some y" by blast
  have "\<not> (hw = hw \<and> target = target \<and> main_counter_value d < target)"
    by (rule sleep_loop.raw_induct[OF _ y, where P = "\<lambda>hw' t d _. \<not> (hw' = hw \<and> t = target \<and> main_counter_value d < target)"])
      (auto simp: Let_def assms(1) split: if_splits)
  then show False using assms(2) by simp
qed

text \<open>The reading of the counter at which a delay is over.\<close>

definition wake_up :: "u64 \<Rightarrow> 'h hpet_mem_scheme \<Rightarrow> nat" where
  "wake_up ms d = unat (main_counter_value d) + unat ms * 10 ^ 12 div unat (clock_period d)"

lemma sleep_target:
  assumes "clock_period d \<noteq> 0" and "unat ms \<le> 18446744" and "wake_up ms d < 2 ^ 64"
  shows "\<exists>target. unat target = wake_up ms d
    \<and> sleep hw (Some a) ms d = (case sleep_loop hw target d of None \<Rightarrow> Inl Hangs | Some d \<Rightarrow> Inr d)"
proof -
  let ?fs = "ms * MS_IN_FEMTOSECONDS" and ?c = "ucast (clock_period d) :: u64"
  have "unat ms * unat MS_IN_FEMTOSECONDS < 2 ^ 64" using assms(2) by (simp add: MS_IN_FEMTOSECONDS_def)
  then have mul: "wmul ms MS_IN_FEMTOSECONDS = Inr ?fs" "unat ?fs = unat ms * 10 ^ 12"
    by (simp_all add: wmul_def unat_word_ariths MS_IN_FEMTOSECONDS_def)
  have c: "unat ?c = unat (clock_period d)" by (simp add: unsigned_ucast_eq take_bit_nat_eq_self order_less_trans[OF unat_less_limit])
  have q: "unat (?fs div ?c) = unat ms * 10 ^ 12 div unat (clock_period d)" by (simp add: unat_div_distrib mul(2) c)
  then have "wadd (main_counter_value d) (?fs div ?c) = Inr (main_counter_value d + ?fs div ?c)"
    using assms(3) by (simp add: wadd_def wake_up_def)
  moreover have "unat (main_counter_value d + ?fs div ?c) = wake_up ms d"
    using assms(3) q by (simp add: unat_word_ariths wake_up_def)
  ultimately show ?thesis using assms(1) by (intro exI[of _ "main_counter_value d + ?fs div ?c"]) (simp add: sleep_def mul(1) Let_def)
qed


text \<open>A timer of 10 MHz whose counter advances by one between two reads.\<close>

definition sample_timer :: hpet_mem where
  "sample_timer = \<lparr>general_capabilities = 100000000 * 2 ^ 32, hm_unused0 = 0, general_config = 1, hm_unused1 = 0,
     hm_interrupt_status = 0, hm_unused2 = replicate 25 0, main_counter_value = 7\<rparr>"

definition sample_tick :: "hpet_mem \<Rightarrow> hpet_mem" where
  "sample_tick d = d\<lparr>main_counter_value := if main_counter_value d = - 1 then - 1 else main_counter_value d + 1\<rparr>"

lemma word_less_succ: "w \<noteq> - 1 \<Longrightarrow> w < w + 1" for w :: u64
proof -
  have largest: "of_nat (2 ^ 64 - 1) = (- 1 :: u64)" by simp
  have inv: "of_nat (unat w) = w" by simp
  assume "w \<noteq> - 1"
  then have "unat w \<noteq> 2 ^ 64 - 1" using largest inv by metis
  moreover have "unat w < 2 ^ 64" using unat_less_limit[of w] by simp
  ultimately have "unat (w + 1) = unat w + 1" by (simp add: unat_word_ariths)
  then show ?thesis by (simp add: word_less_nat_alt)
qed


end
