(* ===== verification/Interrupts.thy ===== *)
theory Interrupts
  imports Process
begin

text \<open>
  \<^verbatim>\<open>arch/x86_64/interrupts.rs\<close>, \<^verbatim>\<open>gdt.rs\<close> and \<^verbatim>\<open>cpu.rs\<close>: the descriptor tables, the entry code of interrupt
  handlers and the processor set-up. The addresses the linker gives to handlers and tables, the answers of \<^verbatim>\<open>cpuid\<close>
  and the compiled body of a handler are parameters.
\<close>

section \<open>Interrupt descriptor table\<close>

record idt_gate =
  g_offset1 :: u16
  g_selector :: u16
  g_ist :: u8
  g_gate_type :: u8
  g_offset2 :: u16
  g_offset3 :: u32
  g_zero :: u32

definition idt_gate_new :: "u64 \<Rightarrow> u8 \<Rightarrow> u8 \<Rightarrow> u16 \<Rightarrow> idt_gate" where
  "idt_gate_new offset ist gate_type selector =
     \<lparr>g_offset1 = ucast (offset AND 0xffff), g_selector = selector, g_ist = ist, g_gate_type = gate_type,
      g_offset2 = ucast (drop_bit 16 offset AND 0xffff), g_offset3 = ucast (drop_bit 32 offset), g_zero = 0\<rparr>"

text \<open>\<^verbatim>\<open>IDT\<close>, the limit and offset of \<^verbatim>\<open>IDT_DESCRIPTOR\<close>, and the register \<^verbatim>\<open>idtr\<close> as limit and base.\<close>

record idt_state =
  idt :: "idt_gate list"
  idt_desc_limit :: u16
  idt_desc_offset :: u64
  idtr :: "(u16 \<times> u64) option"

definition idt_boot :: idt_state where
  "idt_boot = \<lparr>idt = replicate 256 (idt_gate_new 0 0 0 0), idt_desc_limit = 16 * 256, idt_desc_offset = 0, idtr = None\<rparr>"

definition register_isr :: "usize \<Rightarrow> u64 \<Rightarrow> u8 \<Rightarrow> u8 \<Rightarrow> idt_state \<Rightarrow> idt_state res" where
  "register_isr vector addr ist gate_type s =
     (if vector < length (idt s)
      then Inr (s\<lparr>idt := (idt s)[vector := idt_gate_new addr ist gate_type 0x8]\<rparr>) else Inl IndexOutOfBounds)"

definition alloc_vector :: "idt_state \<Rightarrow> usize option res" where
  "alloc_vector s =
     bnd (for_loop 32 256
            (\<lambda>i _. if i < length (idt s)
                   then if g_gate_type (idt s ! i) = 0 then Inr (Return i) else Inr (Continue ())
                   else Inl IndexOutOfBounds) ())
         (\<lambda>r. case r of Return i \<Rightarrow> Inr (Some i) | Continue _ \<Rightarrow> Inr None)"

definition idt_init :: "u64 \<Rightarrow> u64 \<Rightarrow> u64 \<Rightarrow> idt_state \<Rightarrow> idt_state res" where
  "idt_init int3 invalid_opcode idt_addr s =
     bnd (register_isr 0x3 int3 0 0x8e s) (\<lambda>s.
     bnd (register_isr 0x6 invalid_opcode 0 0x8e s) (\<lambda>s.
     let s = s\<lparr>idt_desc_offset := idt_addr\<rparr> in
       Inr (s\<lparr>idtr := Some (idt_desc_limit s, idt_desc_offset s)\<rparr>)))"

section \<open>Entry code of handlers\<close>

text \<open>
  The macros \<^verbatim>\<open>isr!\<close> and \<^verbatim>\<open>isr_err!\<close>, one step per instruction, on the general registers, the stack
  pointer and the words of the stack. The compiled body \<open>handler\<close> is a function on this state.
\<close>

datatype reg = RAX | RBX | RCX | RDX | RSI | RDI | RBP | R8 | R9 | R10 | R11 | R12 | R13 | R14 | R15

record machine =
  gpr :: "reg \<Rightarrow> u64"
  sp :: u64
  stack :: "u64 \<Rightarrow> u64"

definition push_reg :: "reg \<Rightarrow> machine \<Rightarrow> machine" where
  "push_reg r m = m\<lparr>sp := sp m - 8, stack := (stack m)(sp m - 8 := gpr m r)\<rparr>"

definition pop_reg :: "reg \<Rightarrow> machine \<Rightarrow> machine" where
  "pop_reg r m = m\<lparr>gpr := (gpr m)(r := stack m (sp m)), sp := sp m + 8\<rparr>"

definition xchg_top :: "reg \<Rightarrow> machine \<Rightarrow> machine" where
  "xchg_top r m = m\<lparr>gpr := (gpr m)(r := stack m (sp m)), stack := (stack m)(sp m := gpr m r)\<rparr>"

definition isr_entry :: "machine \<Rightarrow> machine" where
  "isr_entry m =
     (let m = fold push_reg [R15, R14, R13, R12, R11, R10, R9, R8, RBP, RDI, RSI, RDX, RCX, RBX, RAX] m in
      m\<lparr>gpr := (gpr m)(RDI := sp m)\<rparr>)"

definition isr_exit :: "machine \<Rightarrow> machine" where
  "isr_exit m = fold pop_reg [RAX, RBX, RCX, RDX, RSI, RDI, RBP, R8, R9, R10, R11, R12, R13, R14, R15] m"

definition isr :: "(machine \<Rightarrow> machine) \<Rightarrow> machine \<Rightarrow> machine" where
  "isr handler m = isr_exit (handler (isr_entry m))"

definition isr_err_entry :: "machine \<Rightarrow> machine" where
  "isr_err_entry m =
     (let m = xchg_top R15 m;
          m = fold push_reg [R14, R13, R12, R11, R10, R9, R8, RBP, RDI, RSI, RDX, RCX, RBX, RAX] m;
          m = push_reg R15 m in
      m\<lparr>gpr := (gpr m)(RDI := sp m)\<rparr>)"

definition isr_err_exit :: "machine \<Rightarrow> machine" where
  "isr_err_exit m =
     (let m = m\<lparr>sp := sp m + 8\<rparr> in
      fold pop_reg [RAX, RBX, RCX, RDX, RSI, RDI, RBP, R8, R9, R10, R11, R12, R13, R14, R15] m)"

definition isr_err :: "(machine \<Rightarrow> machine) \<Rightarrow> machine \<Rightarrow> machine" where
  "isr_err handler m = isr_err_exit (handler (isr_err_entry m))"

text \<open>
  The C calling convention, for a handler: it returns with the stack pointer it was called with and leaves the words above
  it alone (the context is borrowed immutably). Nothing is asked of the registers.
\<close>

definition c_call :: "(machine \<Rightarrow> machine) \<Rightarrow> bool" where
  "c_call handler \<longleftrightarrow> (\<forall>m. sp (handler m) = sp m \<and> (\<forall>k < 20. stack (handler m) (sp m + of_nat (8 * k)) = stack m (sp m + of_nat (8 * k))))"

text \<open>The \<^verbatim>\<open>InterruptContext\<close> at an address of the stack (\<^verbatim>\<open>repr(C)\<close>).\<close>

definition context_at :: "machine \<Rightarrow> u64 \<Rightarrow> interrupt_context" where
  "context_at m p = \<lparr>rax = stack m p, rbx = stack m (p + 8), rcx = stack m (p + 16), rdx = stack m (p + 24),
     rsi = stack m (p + 32), rdi = stack m (p + 40), rbp = stack m (p + 48), r8 = stack m (p + 56),
     r9 = stack m (p + 64), r10 = stack m (p + 72), r11 = stack m (p + 80), r12 = stack m (p + 88),
     r13 = stack m (p + 96), r14 = stack m (p + 104), r15 = stack m (p + 112), rip = stack m (p + 120),
     cs = stack m (p + 128), rflags = stack m (p + 136), rsp = stack m (p + 144), ss = stack m (p + 152)\<rparr>"

lemmas isr_simps = isr_def isr_entry_def isr_exit_def isr_err_def isr_err_entry_def isr_err_exit_def
  push_reg_def pop_reg_def xchg_top_def Let_def

lemma isr_entry_sp: "sp (isr_entry m) = sp m - 120" "gpr (isr_entry m) RDI = sp m - 120"
  by (simp_all add: isr_simps)

lemma isr_entry_context:
  "context_at (isr_entry m) (sp m - 120) = \<lparr>rax = gpr m RAX, rbx = gpr m RBX, rcx = gpr m RCX, rdx = gpr m RDX,
     rsi = gpr m RSI, rdi = gpr m RDI, rbp = gpr m RBP, r8 = gpr m R8, r9 = gpr m R9, r10 = gpr m R10, r11 = gpr m R11,
     r12 = gpr m R12, r13 = gpr m R13, r14 = gpr m R14, r15 = gpr m R15, rip = stack m (sp m), cs = stack m (sp m + 8),
     rflags = stack m (sp m + 16), rsp = stack m (sp m + 24), ss = stack m (sp m + 32)\<rparr>"
  by (simp add: isr_simps context_at_def) (simp add: add.commute)

lemma isr_err_entry_sp: "sp (isr_err_entry m) = sp m - 120" "gpr (isr_err_entry m) RDI = sp m - 120"
  "gpr (isr_err_entry m) RSI = gpr m RSI"
  by (simp_all add: isr_simps)

lemma isr_err_entry_stack:
  "stack (isr_err_entry m) (sp m - 120) = stack m (sp m)"
  "context_at (isr_err_entry m) (sp m - 112) = \<lparr>rax = gpr m RAX, rbx = gpr m RBX, rcx = gpr m RCX, rdx = gpr m RDX,
     rsi = gpr m RSI, rdi = gpr m RDI, rbp = gpr m RBP, r8 = gpr m R8, r9 = gpr m R9, r10 = gpr m R10, r11 = gpr m R11,
     r12 = gpr m R12, r13 = gpr m R13, r14 = gpr m R14, r15 = gpr m R15, rip = stack m (sp m + 8), cs = stack m (sp m + 16),
     rflags = stack m (sp m + 24), rsp = stack m (sp m + 32), ss = stack m (sp m + 40)\<rparr>"
  by (simp_all add: isr_simps context_at_def) (simp add: add.commute)

text \<open>The registers the exit code loads are those of the context at the stack pointer.\<close>

fun context_reg :: "interrupt_context \<Rightarrow> reg \<Rightarrow> u64" where
  "context_reg c RAX = rax c"
| "context_reg c RBX = rbx c"
| "context_reg c RCX = rcx c"
| "context_reg c RDX = rdx c"
| "context_reg c RSI = rsi c"
| "context_reg c RDI = rdi c"
| "context_reg c RBP = rbp c"
| "context_reg c R8 = r8 c"
| "context_reg c R9 = r9 c"
| "context_reg c R10 = r10 c"
| "context_reg c R11 = r11 c"
| "context_reg c R12 = r12 c"
| "context_reg c R13 = r13 c"
| "context_reg c R14 = r14 c"
| "context_reg c R15 = r15 c"

lemma isr_exit_regs: "gpr (isr_exit m) r = context_reg (context_at m (sp m)) r" "sp (isr_exit m) = sp m + 120"
  by (cases r; simp add: isr_simps context_at_def add.commute add.left_commute) (simp add: isr_simps)

lemma isr_err_exit_regs:
  "gpr (isr_err_exit m) r = context_reg (context_at m (sp m + 8)) r" "sp (isr_err_exit m) = sp m + 128"
  by (cases r; simp add: isr_simps context_at_def add.commute add.left_commute) (simp add: isr_simps)

lemma c_call_stack:
  assumes "c_call handler"
  shows "sp (handler m) = sp m" "k < 20 \<Longrightarrow> stack (handler m) (sp m + of_nat (8 * k)) = stack m (sp m + of_nat (8 * k))"
  using assms by (simp_all add: c_call_def)

lemma c_call_context:
  assumes "c_call handler"
  shows "context_reg (context_at (handler m) (sp m)) r = context_reg (context_at m (sp m)) r"
    "context_reg (context_at (handler m) (sp m + 8)) r = context_reg (context_at m (sp m + 8)) r"
proof -
  note st = c_call_stack(2)[OF assms, of _ m]
  show "context_reg (context_at (handler m) (sp m)) r = context_reg (context_at m (sp m)) r"
    using st[of 0] st[of 1] st[of 2] st[of 3] st[of 4] st[of 5] st[of 6] st[of 7] st[of 8] st[of 9] st[of 10]
      st[of 11] st[of 12] st[of 13] st[of 14] by (cases r) (simp_all add: context_at_def)
  show "context_reg (context_at (handler m) (sp m + 8)) r = context_reg (context_at m (sp m + 8)) r"
    using st[of 1] st[of 2] st[of 3] st[of 4] st[of 5] st[of 6] st[of 7] st[of 8] st[of 9] st[of 10]
      st[of 11] st[of 12] st[of 13] st[of 14] st[of 15] by (cases r) (simp_all add: context_at_def add.assoc)
qed

section \<open>Global descriptor table\<close>

record gdt_entry =
  e_limit1 :: u16
  e_base1 :: u16
  e_base2 :: u8
  e_access :: u8
  e_flags :: u8
  e_base3 :: u8

record tss_entry =
  t_limit :: u16
  t_base1 :: u16
  t_base2 :: u8
  t_flags1 :: u8
  t_flags2 :: u8
  t_base3 :: u8
  t_base4 :: u32
  t_reserved :: u32

record gdt =
  gdt_null :: gdt_entry
  kernel_code :: gdt_entry
  kernel_data :: gdt_entry
  user_code :: gdt_entry
  user_data :: gdt_entry
  gdt_tss :: tss_entry

definition gdt_entry_new :: "u8 \<Rightarrow> u8 \<Rightarrow> gdt_entry" where
  "gdt_entry_new access flags =
     \<lparr>e_limit1 = 0, e_base1 = 0, e_base2 = 0, e_access = access, e_flags = flags, e_base3 = 0\<rparr>"

definition tss_entry_new :: "u16 \<Rightarrow> u8 \<Rightarrow> tss_entry" where
  "tss_entry_new limit flags1 =
     \<lparr>t_limit = limit, t_base1 = 0, t_base2 = 0, t_flags1 = flags1, t_flags2 = 0, t_base3 = 0, t_base4 = 0, t_reserved = 0\<rparr>"

definition set_base :: "u64 \<Rightarrow> tss_entry \<Rightarrow> tss_entry" where
  "set_base base e = e\<lparr>t_base1 := ucast base, t_base2 := ucast (drop_bit 16 base),
     t_base3 := ucast (drop_bit 24 base), t_base4 := ucast (drop_bit 32 base)\<rparr>"

definition gdt_boot :: gdt where
  "gdt_boot = \<lparr>gdt_null = gdt_entry_new 0 0, kernel_code = gdt_entry_new 0x9A 0x20, kernel_data = gdt_entry_new 0x92 0,
     user_code = gdt_entry_new 0xFA 0x20, user_data = gdt_entry_new 0xF2 0, gdt_tss = tss_entry_new 104 0x89\<rparr>"

text \<open>\<^verbatim>\<open>GDT\<close>, \<^verbatim>\<open>GDT_DESCRIPTOR\<close>, and the registers \<^verbatim>\<open>gdtr\<close>, the segment registers and \<^verbatim>\<open>tr\<close>.\<close>

record gdt_state =
  the_gdt :: gdt
  gdt_desc_limit :: u16
  gdt_desc_offset :: u64
  gdtr :: "(u16 \<times> u64) option"
  data_segs :: u16
  code_seg :: u16
  task_reg :: u16

definition gdt_init :: "u64 \<Rightarrow> gdt_state \<Rightarrow> gdt_state" where
  "gdt_init gdt_addr s =
     (let s = s\<lparr>gdt_desc_offset := gdt_addr\<rparr>;
          s = s\<lparr>gdtr := Some (gdt_desc_limit s, gdt_desc_offset s)\<rparr> in
      s\<lparr>data_segs := 0x10, code_seg := 0x8\<rparr>)"

definition load_tss :: "u64 \<Rightarrow> gdt_state \<Rightarrow> gdt_state" where
  "load_tss tss_addr s =
     (let tss_selector = 0x28 in
      s\<lparr>the_gdt := (the_gdt s)\<lparr>gdt_tss := set_base tss_addr (gdt_tss (the_gdt s))\<rparr>, task_reg := tss_selector\<rparr>)"

section \<open>Processor set-up\<close>

record cpuid_regs =
  eax :: u32
  ebx :: u32
  ecx :: u32
  edx :: u32

definition has_smap :: "(u32 \<Rightarrow> u32 \<Rightarrow> cpuid_regs) \<Rightarrow> bool" where
  "has_smap cpuid = (ebx (cpuid 7 0) AND push_bit 20 1 \<noteq> 0)"

definition has_smep :: "(u32 \<Rightarrow> u32 \<Rightarrow> cpuid_regs) \<Rightarrow> bool" where
  "has_smep cpuid = (ebx (cpuid 7 0) AND push_bit 7 1 \<noteq> 0)"

definition has_fsgsbase :: "(u32 \<Rightarrow> u32 \<Rightarrow> cpuid_regs) \<Rightarrow> bool" where
  "has_fsgsbase cpuid = (ebx (cpuid 7 0) AND 1 \<noteq> 0)"

definition has_umip :: "(u32 \<Rightarrow> u32 \<Rightarrow> cpuid_regs) \<Rightarrow> bool" where
  "has_umip cpuid = (ecx (cpuid 7 0) AND push_bit 2 1 \<noteq> 0)"

definition init_features :: "(u32 \<Rightarrow> u32 \<Rightarrow> cpuid_regs) \<Rightarrow> u64 \<Rightarrow> u64" where
  "init_features cpuid cr4 =
     (let cr4 = if has_smap cpuid then cr4 OR push_bit 21 1 else cr4;
          cr4 = if has_smep cpuid then cr4 OR push_bit 20 1 else cr4;
          cr4 = if has_umip cpuid then cr4 OR push_bit 11 1 else cr4;
          cr4 = if has_fsgsbase cpuid then cr4 OR push_bit 16 1 else cr4 in
      cr4)"

record tss =
  tss_reserved0 :: u32
  rsp0 :: u64
  rsp1 :: u64
  rsp2 :: u64
  tss_reserved2 :: u64
  ist1 :: u64
  ist2 :: u64
  ist3 :: u64
  ist4 :: u64
  ist5 :: u64
  ist6 :: u64
  ist7 :: u64
  tss_reserved3 :: u64
  iobm :: u32

definition tss_default :: tss where
  "tss_default = \<lparr>tss_reserved0 = 0, rsp0 = 0, rsp1 = 0, rsp2 = 0, tss_reserved2 = 0, ist1 = 0, ist2 = 0, ist3 = 0, ist4 = 0,
     ist5 = 0, ist6 = 0, ist7 = 0, tss_reserved3 = 0, iobm = 0\<rparr>"

definition cpu_start ::
  "(u32 \<Rightarrow> u32 \<Rightarrow> cpuid_regs) \<Rightarrow> u64 \<Rightarrow> u64 \<times> gdt_state \<Rightarrow> 'z pmm_state_scheme \<Rightarrow>
     (tss \<times> (u64 \<times> gdt_state) \<times> 'z pmm_state_scheme) res" where
  "cpu_start cpuid tss_addr = (\<lambda>(cr4, g) s.
     let cr4 = init_features cpuid cr4 in
     bnd (pmm_calloc 2 s) (\<lambda>(r, s).
     bnd (expect ''Could not allocate the pages for rsp0'' r) (\<lambda>a0.
     bnd (pmm_calloc 2 s) (\<lambda>(r, s).
     bnd (expect ''Could not allocate the pages for rsp0'' r) (\<lambda>a1.
     bnd (pmm_calloc 2 s) (\<lambda>(r, s).
     bnd (expect ''Could not allocate the pages for rsp0'' r) (\<lambda>a2.
       Inr (tss_default\<lparr>rsp0 := as_u64 (higher_half a0), ist1 := as_u64 (higher_half a1), ist2 := as_u64 (higher_half a2)\<rparr>,
            (cr4, load_tss tss_addr g), s))))))))"

text \<open>\<^verbatim>\<open>rdmsr\<close> and \<^verbatim>\<open>wrmsr\<close> on the halves the instructions use.\<close>

definition rdmsr_value :: "u32 \<Rightarrow> u32 \<Rightarrow> u64" where
  "rdmsr_value low high = ucast low OR push_bit 32 (ucast high)"

definition wrmsr_low :: "u64 \<Rightarrow> u32" where
  "wrmsr_low v = ucast v"

definition wrmsr_high :: "u64 \<Rightarrow> u32" where
  "wrmsr_high v = ucast (drop_bit 32 v)"

section \<open>Properties\<close>

text \<open>
  C29. The handler entry code is transparent to the interrupted program: with a body that keeps to the C calling
  convention, every general register and the stack pointer have their old values at \<^verbatim>\<open>iretq\<close>, and
  the body gets a pointer to an \<^verbatim>\<open>InterruptContext\<close> that holds exactly the interrupted registers
  followed by the five words the processor pushed.
\<close>

theorem isr_transparent:
  assumes "c_call handler"
  shows "(\<forall>r. gpr (isr handler m) r = gpr m r) \<and> sp (isr handler m) = sp m
    \<and> (let m' = isr_entry m; c = context_at m' (gpr m' RDI) in
        (\<forall>r. context_reg c r = gpr m r) \<and> rip c = stack m (sp m) \<and> cs c = stack m (sp m + 8)
        \<and> rflags c = stack m (sp m + 16) \<and> rsp c = stack m (sp m + 24) \<and> ss c = stack m (sp m + 32))"
proof -
  have ctx: "context_reg (context_at (isr_entry m) (sp m - 120)) r = gpr m r" for r
    unfolding isr_entry_context by (cases r) simp_all
  have "gpr (isr handler m) r = gpr m r" for r
    using isr_exit_regs(1)[of "handler (isr_entry m)" r] c_call_stack(1)[OF assms, of "isr_entry m"]
      c_call_context(1)[OF assms, of "isr_entry m" r] ctx[of r] by (simp add: isr_def isr_entry_sp)
  moreover have "sp (isr handler m) = sp m"
    using isr_exit_regs(2)[of "handler (isr_entry m)"] c_call_stack(1)[OF assms, of "isr_entry m"]
    by (simp add: isr_def isr_entry_sp)
  ultimately show ?thesis using ctx by (simp add: Let_def isr_entry_sp isr_entry_context)
qed

theorem isr_transparent_witness:
  "gpr (isr (\<lambda>m. m\<lparr>gpr := (\<lambda>_. 0)\<rparr>) \<lparr>gpr = (\<lambda>r. if r = RSI then 7 else 1), sp = 0x8000, stack = (\<lambda>_. 3)\<rparr>) RSI = 7"
proof -
  have "c_call (\<lambda>m. m\<lparr>gpr := (\<lambda>_. 0)\<rparr>)" by (simp add: c_call_def)
  from isr_transparent[OF this] show ?thesis by simp
qed

text \<open>
  C30. The entry code for vectors with an error code also restores every register and drops the error code, but it
  calls the body with the wrong arguments: the context pointer points at the error code, one word below the context, and the second argument
  is not the error code but whatever the interrupted program had in \<^verbatim>\<open>rsi\<close>.
\<close>

theorem isr_err_arguments:
  assumes "c_call handler"
  shows "(\<forall>r. gpr (isr_err handler m) r = gpr m r) \<and> sp (isr_err handler m) = sp m + 8
    \<and> (let m' = isr_err_entry m; p = gpr m' RDI in
        stack m' p = stack m (sp m) \<and> rax (context_at m' p) = stack m (sp m)
        \<and> (\<forall>r. context_reg (context_at m' (p + 8)) r = gpr m r) \<and> rip (context_at m' (p + 8)) = stack m (sp m + 8)
        \<and> gpr m' RSI = gpr m RSI)"
proof -
  have ctx: "context_reg (context_at (isr_err_entry m) (sp m - 112)) r = gpr m r" for r
    unfolding isr_err_entry_stack(2) by (cases r) simp_all
  have "gpr (isr_err handler m) r = gpr m r" for r
    using isr_err_exit_regs(1)[of "handler (isr_err_entry m)" r] c_call_stack(1)[OF assms, of "isr_err_entry m"]
      c_call_context(2)[OF assms, of "isr_err_entry m" r] ctx[of r] by (simp add: isr_err_def isr_err_entry_sp)
  moreover have "sp (isr_err handler m) = sp m + 8"
    using isr_err_exit_regs(2)[of "handler (isr_err_entry m)"] c_call_stack(1)[OF assms, of "isr_err_entry m"]
    by (simp add: isr_err_def isr_err_entry_sp)
  moreover have "rax (context_at (isr_err_entry m) (sp m - 120)) = stack m (sp m)"
    using isr_err_entry_stack(1)[of m] by (simp add: context_at_def)
  ultimately show ?thesis using ctx isr_err_entry_stack
    by (simp add: Let_def isr_err_entry_sp)
qed

theorem isr_err_arguments_witness:
  "let m = \<lparr>gpr = (\<lambda>r. if r = RSI then 7 else 1), sp = 0x8000, stack = (\<lambda>_. 3)\<rparr> in
   gpr (isr_err_entry m) RSI = 7 \<and> rax (context_at (isr_err_entry m) (gpr (isr_err_entry m) RDI)) = 3"
proof -
  have "c_call (\<lambda>m. m)" by (simp add: c_call_def)
  from isr_err_arguments[OF this, of "\<lparr>gpr = (\<lambda>r. if r = RSI then 7 else 1), sp = 0x8000, stack = (\<lambda>_. 3)\<rparr>"]
  show ?thesis by (simp add: Let_def)
qed

definition gate_offset :: "idt_gate \<Rightarrow> u64" where
  "gate_offset g = ucast (g_offset1 g) OR push_bit 16 (ucast (g_offset2 g)) OR push_bit 32 (ucast (g_offset3 g))"

lemma gate_offset_new: "gate_offset (idt_gate_new addr ist gt sel) = addr"
proof (rule bit_word_eqI)
  fix n assume n: "n < LENGTH(64)"
  have m: "0xffff = (mask 16 :: u64)" by (simp add: mask_eq_exp_minus_1)
  consider "n < 16" | "16 \<le> n" "n < 32" | "32 \<le> n" by linarith
  then show "bit (gate_offset (idt_gate_new addr ist gt sel)) n = bit addr n"
    unfolding gate_offset_def idt_gate_new_def m using n
    by cases (simp_all add: bit_or_iff bit_push_bit_iff bit_unsigned_iff bit_and_iff bit_drop_bit_eq bit_mask_iff
      less_diff_conv2)
qed

lemma alloc_vector_find:
  assumes "length (idt s) = 256"
  shows "alloc_vector s = Inr (List.find (\<lambda>i. g_gate_type (idt s ! i) = 0) [32..<256])"
proof -
  let ?hit = "\<lambda>i. g_gate_type (idt s ! i) = 0"
  have "for_loop 32 256 (\<lambda>i _. if i < length (idt s)
                   then if ?hit i then Inr (Return i) else Inr (Continue ())
                   else Inl IndexOutOfBounds) ()
      = (case List.find ?hit [32..<256] of None \<Rightarrow> Inr (Continue ()) | Some i \<Rightarrow> bnd (Inr i) (\<lambda>r. Inr (Return r)))"
    by (rule for_loop_search) (use assms in auto)
  then show ?thesis by (simp add: alloc_vector_def split: option.splits)
qed

text \<open>
  \<^verbatim>\<open>alloc_vector\<close> returns the least unused vector from 32 on. Registering a handler there with a non-zero gate type
  stores the whole 64-bit address and the kernel code selector, changes no other gate, and makes
  the vector used, so that it is never returned again. A vector out of range panics.
\<close>

theorem vector_registration:
  assumes len: "length (idt s) = 256"
  shows "alloc_vector s = Inr (List.find (\<lambda>i. g_gate_type (idt s ! i) = 0) [32..<256])
    \<and> (256 \<le> v \<longrightarrow> register_isr v addr ist gt s = Inl IndexOutOfBounds)
    \<and> (v < 256 \<longrightarrow> (\<exists>s'. register_isr v addr ist gt s = Inr s' \<and> length (idt s') = 256
          \<and> gate_offset (idt s' ! v) = addr \<and> g_selector (idt s' ! v) = 8 \<and> g_ist (idt s' ! v) = ist
          \<and> (\<forall>j. j \<noteq> v \<longrightarrow> idt s' ! j = idt s ! j) \<and> (gt \<noteq> 0 \<longrightarrow> alloc_vector s' \<noteq> Inr (Some v))))"
proof (intro conjI impI)
  assume v: "v < 256"
  let ?s = "s\<lparr>idt := (idt s)[v := idt_gate_new addr ist gt 8]\<rparr>"
  have "register_isr v addr ist gt s = Inr ?s" using v len by (simp add: register_isr_def)
  moreover have "alloc_vector ?s \<noteq> Inr (Some v)" if "gt \<noteq> 0"
  proof -
    have "g_gate_type (idt ?s ! v) \<noteq> 0" using that v len by (simp add: idt_gate_new_def)
    then have "List.find (\<lambda>i. g_gate_type (idt ?s ! i) = 0) [32..<256] \<noteq> Some v" unfolding find_upt_Some by blast
    then show ?thesis using alloc_vector_find[of ?s] len by simp
  qed
  ultimately show "\<exists>s'. register_isr v addr ist gt s = Inr s' \<and> length (idt s') = 256
          \<and> gate_offset (idt s' ! v) = addr \<and> g_selector (idt s' ! v) = 8 \<and> g_ist (idt s' ! v) = ist
          \<and> (\<forall>j. j \<noteq> v \<longrightarrow> idt s' ! j = idt s ! j) \<and> (gt \<noteq> 0 \<longrightarrow> alloc_vector s' \<noteq> Inr (Some v))"
    using v len gate_offset_new[of addr ist gt 8]
    by (intro exI[of _ ?s]) (simp add: nth_list_update, simp add: idt_gate_new_def)
qed (use len alloc_vector_find in \<open>simp_all add: register_isr_def\<close>)

theorem vector_registration_witness:
  "\<exists>s'. alloc_vector idt_boot = Inr (Some 32) \<and> register_isr 32 0xffffffff80001234 0 0x8e idt_boot = Inr s'
     \<and> gate_offset (idt s' ! 32) = 0xffffffff80001234 \<and> alloc_vector s' \<noteq> Inr (Some 32)"
proof -
  have len: "length (idt idt_boot) = 256" by (simp add: idt_boot_def)
  have "List.find (\<lambda>i. g_gate_type (idt idt_boot ! i) = 0) [32..<256] = Some 32"
    by (simp add: find_upt_Some idt_boot_def idt_gate_new_def)
  then show ?thesis using vector_registration[OF len, of 32 "0xffffffff80001234" 0 "0x8e"] by auto
qed

text \<open>The descriptor a selector names, by its index, and its privilege level.\<close>

definition gdt_access :: "gdt \<Rightarrow> nat \<Rightarrow> u8" where
  "gdt_access g i = (if i = 0 then e_access (gdt_null g) else if i = 1 then e_access (kernel_code g)
     else if i = 2 then e_access (kernel_data g) else if i = 3 then e_access (user_code g)
     else if i = 4 then e_access (user_data g) else t_flags1 (gdt_tss g))"

definition access_dpl :: "u8 \<Rightarrow> u8" where
  "access_dpl a = drop_bit 5 a AND 3"

definition tss_base :: "tss_entry \<Rightarrow> u64" where
  "tss_base e = ucast (t_base1 e) OR push_bit 16 (ucast (t_base2 e)) OR push_bit 24 (ucast (t_base3 e))
     OR push_bit 32 (ucast (t_base4 e))"

lemma set_base_base: "tss_base (set_base base e) = base"
proof (rule bit_word_eqI)
  fix n assume n: "n < LENGTH(64)"
  consider "n < 16" | "16 \<le> n" "n < 24" | "24 \<le> n" "n < 32" | "32 \<le> n" by linarith
  then show "bit (tss_base (set_base base e)) n = bit base n"
    unfolding tss_base_def set_base_def using n
    by cases (simp_all add: bit_or_iff bit_push_bit_iff bit_unsigned_iff bit_drop_bit_eq less_diff_conv2)
qed

text \<open>
  C31. The selectors of \<^verbatim>\<open>SelectorValues\<close> agree with the table: each names a present descriptor whose
  privilege level is the requested level of the selector, with the code bit set exactly for the code selectors; loading
  the task register stores the whole address of the task state segment, changes nothing else of the table and selects entry 5.
\<close>

theorem selectors_match_gdt:
  "(\<forall>sel. let a = gdt_access gdt_boot (unat (drop_bit 3 (selector_u64 sel))) in
      ucast (access_dpl a) = selector_u64 sel AND 3 \<and> bit a 7 \<and> (bit a 3 \<longleftrightarrow> sel = KernelCs \<or> sel = UserCs))
   \<and> tss_base (gdt_tss (the_gdt (load_tss base g))) = base
   \<and> (\<forall>i. gdt_access (the_gdt (load_tss base g)) i = gdt_access (the_gdt g) i)
   \<and> unat (drop_bit 3 (task_reg (load_tss base g))) = 5"
proof (intro conjI allI)
  fix sel
  show "let a = gdt_access gdt_boot (unat (drop_bit 3 (selector_u64 sel))) in
      ucast (access_dpl a) = selector_u64 sel AND 3 \<and> bit a 7 \<and> (bit a 3 \<longleftrightarrow> sel = KernelCs \<or> sel = UserCs)"
    by (cases sel) (simp_all add: Let_def gdt_access_def gdt_boot_def gdt_entry_new_def access_dpl_def)
next
  show "tss_base (gdt_tss (the_gdt (load_tss base g))) = base"
    by (simp add: load_tss_def set_base_base)
qed (simp_all add: load_tss_def gdt_access_def set_base_def)

text \<open>
  The stack pointers in the task state segment are the start of the two pages allocated for each stack, not their end:
  the first word pushed goes to the frame below the stack's frames.
\<close>

theorem cpu_start_stack_bottom:
  assumes wf: "pmm_wf s" and run: "cpu_start cpuid tss_addr (c4, g) s = Inr (t, (c4', g'), s')"
  shows "\<exists>f. rsp0 t = kptr f \<and> {f, f + 1} \<subseteq> free_frames s \<and> {f, f + 1} \<inter> free_frames s' = {}
    \<and> unat (direct (rsp0 t - 8)) div 4096 = f - 1 \<and> f - 1 \<notin> {f, f + 1}"
proof -
  from run obtain a0 s1 a1 s2 a2 where c: "pmm_calloc 2 s = Inr (Some a0, s1)" "pmm_calloc 2 s1 = Inr (Some a1, s2)"
      "pmm_calloc 2 s2 = Inr (Some a2, s')" and t: "rsp0 t = as_u64 (higher_half a0)"
    by (auto simp: cpu_start_def Let_def res_simps)
  from calloc_frame[OF wf c(1)] obtain f where f: "as_u64 (higher_half a0) = kptr f" "0 < f" "f + 2 \<le> 2 ^ 35"
      "{f..<f + 2} \<subseteq> free_frames s" "free_frames s1 = free_frames s - {f..<f + 2}" "pmm_wf s1" by blast
  have "free_frames s2 \<subseteq> free_frames s1" "pmm_wf s2" using calloc_frame[OF f(6) c(2)] by auto
  then have "free_frames s' \<subseteq> free_frames s1" using calloc_frame[OF _ c(3)] by auto
  then have "{f, f + 1} \<inter> free_frames s' = {}" using f(5) by auto
  moreover have "{f, f + 1} \<subseteq> free_frames s" using f(4) by auto
  moreover have "unat (direct (rsp0 t - 8)) div 4096 = f - 1"
  proof -
    have f35: "f < 2 ^ 35" "f - 1 < 2 ^ 35" using f(3) by auto
    have eq: "kptr f - 8 = (of_nat (f - 1) * PAGE_SIZE + 4088) + PHYS_BASE"
      using f(2) by (simp add: kptr_plus[OF f35(1)] of_nat_diff PAGE_SIZE_def algebra_simps)
    have u: "unat (of_nat (f - 1) * PAGE_SIZE + 4088 :: u64) = (f - 1) * 4096 + 4088"
      using unat_plus_no_wrap[of "of_nat (f - 1) * PAGE_SIZE" 4088] f(3) by (simp add: unat_frame_addr)
    then have "lower (of_nat (f - 1) * PAGE_SIZE + 4088)"
      using f(3) by (simp add: lower_def word_less_nat_alt)
    then have "direct (kptr f - 8) = of_nat (f - 1) * PAGE_SIZE + 4088" unfolding eq by (rule direct_plus)
    then show ?thesis using t f(1) u by simp
  qed
  ultimately show ?thesis using t f(1,2) by (intro exI[of _ f]) auto
qed

definition boot_stack_pmm :: pmm_state where
  "boot_stack_pmm = \<lparr>mem = (\<lambda>_. 0), page_allocator = Some \<lparr>bm_ptr = PHYS_BASE, bm_data = [0, - 1], bm_size = 2\<rparr>\<rparr>"

theorem cpu_start_stack_bottom_witness:
  "\<exists>t c4' g' s' f. cpu_start (\<lambda>a c. \<lparr>eax = 0, ebx = 1, ecx = 4, edx = 0\<rparr>) 0x5000
       (0, \<lparr>the_gdt = gdt_boot, gdt_desc_limit = 55, gdt_desc_offset = 0, gdtr = None, data_segs = 0, code_seg = 0, task_reg = 0\<rparr>)
       boot_stack_pmm = Inr (t, (c4', g'), s') \<and> rsp0 t = kptr f \<and> unat (direct (rsp0 t - 8)) div 4096 = f - 1"
proof -
  let ?g = "\<lparr>the_gdt = gdt_boot, gdt_desc_limit = 55, gdt_desc_offset = 0, gdtr = None, data_segs = 0, code_seg = 0, task_reg = 0\<rparr>"
  let ?cpuid = "\<lambda>a c. \<lparr>eax = 0, ebx = 1, ecx = 4, edx = 0\<rparr>"
  have wf: "pmm_wf boot_stack_pmm" by (simp add: boot_stack_pmm_def pmm_wf_def bm_wf_def bm_bits_def)
  have fr: "free_frames boot_stack_pmm = {8..<16}" by (simp add: boot_stack_pmm_def free_frames_def upper_ones)
  obtain s1 where s1: "pmm_calloc 2 boot_stack_pmm = Inr (Some (frame_addr 8), s1)" "free_frames s1 = {10..<16}" "pmm_wf s1"
    using calloc_region[OF wf fr, of 2] by auto
  obtain s2 where s2: "pmm_calloc 2 s1 = Inr (Some (frame_addr 10), s2)" "free_frames s2 = {12..<16}" "pmm_wf s2"
    using calloc_region[OF s1(3,2), of 2] by auto
  obtain s3 where s3: "pmm_calloc 2 s2 = Inr (Some (frame_addr 12), s3)" using calloc_region[OF s2(3,2), of 2] by auto
  obtain t c g where run: "cpu_start ?cpuid 0x5000 (0, ?g) boot_stack_pmm = Inr (t, (c, g), s3)"
    using s1(1) s2(1) s3 by (simp add: cpu_start_def Let_def)
  from cpu_start_stack_bottom[OF wf run] obtain f where "rsp0 t = kptr f" "unat (direct (rsp0 t - 8)) div 4096 = f - 1"
    by blast
  with run show ?thesis by (intro exI conjI)
qed

end
