(* ===== verification/Apic.thy ===== *)
theory Apic
  imports Hpet Interrupts
begin

text \<open>
  \<^verbatim>\<open>arch/x86_64/apic.rs\<close>: the local interrupt controller with its timer, and the old controllers it replaces. A register of the
  local controller is a 32-bit cell named by its address; the controllers and timers change registers between two accesses of the driver only
  while it waits, by the parameter \<open>hw\<close>. Writes to I/O ports are a trace.
\<close>

section \<open>Registers\<close>

datatype lapic_register = Eoi | Sivr | Dcr | LvtTimer | InitialCount | CurrCount

fun register_offset :: "lapic_register \<Rightarrow> u64" where
  "register_offset Eoi = 0xb0"
| "register_offset Sivr = 0xf0"
| "register_offset Dcr = 0x3e0"
| "register_offset LvtTimer = 0x320"
| "register_offset InitialCount = 0x380"
| "register_offset CurrCount = 0x390"

datatype msr = ApicBase | GsBase

fun msr_number :: "msr \<Rightarrow> u32" where
  "msr_number ApicBase = 0x1b"
| "msr_number GsBase = 0xc0000101"

record apic_hw = hpet_mem +
  lapic_cell :: "u64 \<Rightarrow> u32"

text \<open>The static \<^verbatim>\<open>LAPIC\<close>, the model specific registers (their two halves), the interrupt flag and the trace of port writes.\<close>

record xapic =
  xa_address :: u64

record apic_state =
  LAPIC :: "xapic option"
  msr_halves :: "u32 \<Rightarrow> u32 \<times> u32"
  interrupts_on :: bool
  port_writes :: "(u16 \<times> u8) list"

definition rdmsr :: "msr \<Rightarrow> apic_state \<Rightarrow> u64" where
  "rdmsr r s = (let (low, high) = msr_halves s (msr_number r) in rdmsr_value low high)"

definition wrmsr :: "msr \<Rightarrow> u64 \<Rightarrow> apic_state \<Rightarrow> apic_state" where
  "wrmsr r v s = s\<lparr>msr_halves := (msr_halves s)(msr_number r := (wrmsr_low v, wrmsr_high v))\<rparr>"

definition outb :: "u16 \<Rightarrow> u8 \<Rightarrow> apic_state \<Rightarrow> apic_state" where
  "outb port byte s = s\<lparr>port_writes := port_writes s @ [(port, byte)]\<rparr>"

definition sti :: "apic_state \<Rightarrow> apic_state" where
  "sti s = s\<lparr>interrupts_on := True\<rparr>"

section \<open>Operations\<close>

definition xapic_new :: "apic_state \<Rightarrow> xapic res" where
  "xapic_new s = bnd (wadd (rdmsr ApicBase s AND 0xfffff000) PHYS_BASE) (\<lambda>a. Inr \<lparr>xa_address = a\<rparr>)"

definition lapic_read :: "xapic \<Rightarrow> lapic_register \<Rightarrow> 'h apic_hw_scheme \<Rightarrow> u32 res" where
  "lapic_read x r d = bnd (wadd (xa_address x) (register_offset r)) (\<lambda>a. Inr (lapic_cell d a))"

definition lapic_write :: "xapic \<Rightarrow> lapic_register \<Rightarrow> u32 \<Rightarrow> 'h apic_hw_scheme \<Rightarrow> 'h apic_hw_scheme res" where
  "lapic_write x r v d =
     bnd (wadd (xa_address x) (register_offset r)) (\<lambda>a. Inr (d\<lparr>lapic_cell := (lapic_cell d)(a := v)\<rparr>))"

definition enable :: "xapic \<Rightarrow> 'h apic_hw_scheme \<Rightarrow> 'h apic_hw_scheme res" where
  "enable x d = bnd (lapic_read x Sivr d) (\<lambda>v. lapic_write x Sivr (v OR 0x1ff) d)"

definition calibrate_timer ::
  "('h apic_hw_scheme \<Rightarrow> 'h apic_hw_scheme) \<Rightarrow> u64 option \<Rightarrow> xapic \<Rightarrow> u64 \<Rightarrow> usize \<Rightarrow> 'h apic_hw_scheme \<Rightarrow> 'h apic_hw_scheme res" where
  "calibrate_timer hw HPET x ms vector d =
     bnd (lapic_write x Dcr 0 d) (\<lambda>d.
     bnd (lapic_write x InitialCount (- 1) d) (\<lambda>d.
     bnd (sleep hw HPET ms d) (\<lambda>d.
     bnd (lapic_read x CurrCount d) (\<lambda>c.
     bnd (wsub (- 1) c) (\<lambda>count.
     bnd (lapic_write x LvtTimer (of_nat vector OR push_bit 17 1) d) (\<lambda>d.
       lapic_write x InitialCount count d))))))"

definition eoi :: "xapic \<Rightarrow> 'h apic_hw_scheme \<Rightarrow> 'h apic_hw_scheme res" where
  "eoi x d = lapic_write x Eoi 0 d"

definition remap_pic :: "apic_state \<Rightarrow> apic_state" where
  "remap_pic s = fold (\<lambda>(port, byte). outb port byte)
     [(0x20, 0x11), (0xA0, 0x11), (0x21, 0x20), (0xA1, 0x28), (0x21, 4), (0xA1, 2), (0x21, 0x01), (0xA1, 0x01), (0x21, 0xFF), (0xA1, 0xFF)] s"

definition apic_init :: "'h apic_hw_scheme \<Rightarrow> apic_state \<Rightarrow> ('h apic_hw_scheme \<times> apic_state) res" where
  "apic_init d s =
     (let s = sti (remap_pic s) in
      bnd (xapic_new s) (\<lambda>xapic.
      bnd (enable xapic d) (\<lambda>d. Inr (d, s\<lparr>LAPIC := Some xapic\<rparr>))))"

definition apic_get :: "apic_state \<Rightarrow> xapic res" where
  "apic_get s = expect ''The Lapic hasn't been initialized'' (LAPIC s)"

end
