(* ===== verification/Pci.thy ===== *)
theory Pci
  imports Vmm
begin

text \<open>
  \<^verbatim>\<open>arch/x86_64/pci.rs\<close>: the configuration space of the PCI bus and the devices found on it. The code reaches a
  configuration register by writing its address to one I/O port and moving the data through another; as the address is written
  before every access, the state keeps only the registers themselves, indexed by that address. \<open>ahci::init\<close>, which \<open>enumerate_devices\<close>
  calls for disk controllers, is in the theory \<open>Ahci\<close>; so is the whole of \<open>enumerate_devices\<close>.
\<close>

section \<open>Configuration registers\<close>

definition MSI_CAPABILITY_ID :: u8 where "MSI_CAPABILITY_ID = 0x5"

record pci_device =
  pd_bus :: u8
  pd_device :: u8
  pd_function :: u8
  pd_device_id :: u16
  pd_vendor_id :: u16
  pd_class :: u8
  pd_subclass :: u8
  pd_prog_if :: u8
  pd_revision :: u8
  pd_msi_offset :: u8

record 'fd pci_state = "'fd vmm_state" +
  config_space :: "u32 \<Rightarrow> u32"
  pci_devices :: "pci_device list"

definition config_address :: "u8 \<Rightarrow> u8 \<Rightarrow> u8 \<Rightarrow> u8 \<Rightarrow> u32" where
  "config_address bus device function offset =
     0x80000000 OR push_bit 16 (ucast bus) OR push_bit 11 (ucast device AND 0x1f)
       OR push_bit 8 (ucast function AND 0x7) OR (ucast offset AND 0xfc)"

definition pci_read :: "u8 \<Rightarrow> u8 \<Rightarrow> u8 \<Rightarrow> u8 \<Rightarrow> ('fd, 'z) pci_state_scheme \<Rightarrow> u32" where
  "pci_read bus device function offset s = config_space s (config_address bus device function offset)"

definition pci_write :: "u32 \<Rightarrow> u8 \<Rightarrow> u8 \<Rightarrow> u8 \<Rightarrow> u8 \<Rightarrow> ('fd, 'z) pci_state_scheme \<Rightarrow> ('fd, 'z) pci_state_scheme" where
  "pci_write data bus device function offset s =
     s\<lparr>config_space := (config_space s)(config_address bus device function offset := data)\<rparr>"

definition get_header_type :: "u8 \<Rightarrow> u8 \<Rightarrow> u8 \<Rightarrow> ('fd, 'z) pci_state_scheme \<Rightarrow> u8" where
  "get_header_type bus device function s = ucast (drop_bit 16 (pci_read bus device function 0xc s))"

section \<open>Devices\<close>

definition device_read :: "pci_device \<Rightarrow> u8 \<Rightarrow> ('fd, 'z) pci_state_scheme \<Rightarrow> u32" where
  "device_read d offset s = pci_read (pd_bus d) (pd_device d) (pd_function d) offset s"

definition device_write :: "pci_device \<Rightarrow> u32 \<Rightarrow> u8 \<Rightarrow> ('fd, 'z) pci_state_scheme \<Rightarrow> ('fd, 'z) pci_state_scheme" where
  "device_write d data offset s = pci_write data (pd_bus d) (pd_device d) (pd_function d) offset s"

definition has_capabilities :: "pci_device \<Rightarrow> ('fd, 'z) pci_state_scheme \<Rightarrow> bool" where
  "has_capabilities d s = (drop_bit 16 (device_read d 0x4 s) AND push_bit 4 1 \<noteq> 0)"

text \<open>The walk through the capability list: the offset of the MSI capability, or 0 at the end of the list.\<close>

partial_function (option) find_msi :: "pci_device \<Rightarrow> ('fd, 'z) pci_state_scheme \<Rightarrow> u8 \<Rightarrow> u8 option" where
  "find_msi d s cap_offset =
     (if cap_offset \<noteq> 0
      then let capability = device_read d cap_offset s in
           if (ucast capability :: u8) = MSI_CAPABILITY_ID then Some cap_offset
           else find_msi d s (ucast (drop_bit 8 capability))
      else Some 0)"

definition pci_device_new :: "u8 \<Rightarrow> u8 \<Rightarrow> u8 \<Rightarrow> ('fd, 'z) pci_state_scheme \<Rightarrow> pci_device res" where
  "pci_device_new bus device function s =
     (let device_vendor = pci_read bus device function 0 s;
          class = pci_read bus device function 0x8 s;
          d = \<lparr>pd_bus = bus, pd_device = device, pd_function = function, pd_device_id = ucast (drop_bit 16 device_vendor),
               pd_vendor_id = ucast device_vendor, pd_class = ucast (drop_bit 24 class), pd_subclass = ucast (drop_bit 16 class),
               pd_prog_if = ucast (drop_bit 8 class), pd_revision = ucast class, pd_msi_offset = 0\<rparr> in
      if has_capabilities d s
      then (case find_msi d s (ucast (device_read d 0x34 s)) of
              None \<Rightarrow> Inl Hangs
            | Some cap_offset \<Rightarrow> Inr (if cap_offset \<noteq> 0 then d\<lparr>pd_msi_offset := cap_offset\<rparr> else d))
      else Inr d)"

definition get_bar :: "pci_device \<Rightarrow> u8 \<Rightarrow> ('fd, 'z) pci_state_scheme \<Rightarrow> phys_addr res" where
  "get_bar d bar_num s =
     bnd (wmul bar_num 4) (\<lambda>n.
     bnd (wadd 0x10 n) (\<lambda>offset.
     let bar = device_read d offset s in
     if bar AND 1 = 1 then Inr (PhysAddr (ucast (bar AND NOT 3)))
     else if bar AND 6 = 4
       then bnd (wadd offset 4) (\<lambda>upper.
         Inr (PhysAddr (ucast (bar AND 0xfffffff0) OR push_bit 32 (ucast (device_read d upper s)))))
     else Inr (PhysAddr (ucast (bar AND 0xfffffff0)))))"

definition bus_master :: "pci_device \<Rightarrow> ('fd, 'z) pci_state_scheme \<Rightarrow> ('fd, 'z) pci_state_scheme" where
  "bus_master d s = (let command_reg = device_read d 0x4 s OR 4 in device_write d command_reg 0x4 s)"

definition enable_mmio :: "pci_device \<Rightarrow> ('fd, 'z) pci_state_scheme \<Rightarrow> ('fd, 'z) pci_state_scheme" where
  "enable_mmio d s = (let command_reg = device_read d 0x4 s OR 2 in device_write d command_reg 0x4 s)"

definition set_msi :: "pci_device \<Rightarrow> usize \<Rightarrow> ('fd, 'z) pci_state_scheme \<Rightarrow> ('fd, 'z) pci_state_scheme res" where
  "set_msi d vector s =
     (if pd_msi_offset d = 0 then Inl (Panicked ''This device does not support MSIs'')
      else let control = drop_bit 16 (device_read d (pd_msi_offset d) s) AND 0xffff;
               data_reg_offset = if control AND push_bit 7 1 \<noteq> 0 then 0xc else 0x8;
               msi_address = 0xfee00000 OR push_bit 3 1 in
        bnd (wadd (pd_msi_offset d) data_reg_offset) (\<lambda>data_off.
        let msi_data = (device_read d data_off s AND 0xffff0000) OR (of_nat (vector mod 0x100)) in
        bnd (wadd (pd_msi_offset d) 0x4) (\<lambda>addr_off.
        let s = device_write d msi_address addr_off s in
        bnd (wadd (pd_msi_offset d) data_reg_offset) (\<lambda>data_off.
        let s = device_write d msi_data data_off s in
          Inr (device_write d (push_bit 16 (control OR 1)) (pd_msi_offset d) s)))))"

text \<open>The search for functions that answer, bus by bus.\<close>

definition scan_devices :: "('fd, 'z) pci_state_scheme \<Rightarrow> ('fd, 'z) pci_state_scheme res" where
  "scan_devices =
     for_each 0 256 (\<lambda>bus. for_each 0 32 (\<lambda>device. for_each 0 8 (\<lambda>function s.
       let cnfg = pci_read (of_nat bus) (of_nat device) (of_nat function) 0 s in
       if cnfg = - 1 then Inr s
       else bnd (pci_device_new (of_nat bus) (of_nat device) (of_nat function) s) (\<lambda>d.
         Inr (s\<lparr>pci_devices := pci_devices s @ [d]\<rparr>)))))"

end
