(* ===== verification/Vfs.thy ===== *)
theory Vfs
  imports Kernel_Prelude
begin

text \<open>
  \<^verbatim>\<open>fs/vfs.rs\<close>: the table of mount points and the dispatch of the file operations. A \<^verbatim>\<open>&str\<close> is its
  UTF-8 bytes, as a list of 8-bit characters: lengths and slice positions are byte positions, and a
  slice that starts inside a character panics. A \<^verbatim>\<open>&'static dyn Filesystem\<close> is a reference \<open>fs_ref\<close>,
  and the trait is a record of operations on the state; the operations take the table \<open>dyn\<close> from references to
  implementations. Flags and modes are words of the \<^verbatim>\<open>bitflags\<close> types, which this file only passes on.
\<close>

section \<open>Strings\<close>

definition str_starts_with :: "string \<Rightarrow> string \<Rightarrow> bool" where
  "str_starts_with xs ys = (take (length ys) xs = ys)"

text \<open>\<^verbatim>\<open>xs.contains(ys)\<close>.\<close>

fun str_contains :: "string \<Rightarrow> string \<Rightarrow> bool" where
  "str_contains [] ys = (ys = [])"
| "str_contains (x # xs) ys = (str_starts_with (x # xs) ys \<or> str_contains xs ys)"

text \<open>\<^verbatim>\<open>is_char_boundary\<close>: not before a continuation byte (\<^verbatim>\<open>0b10xxxxxx\<close>).\<close>

definition char_boundary :: "string \<Rightarrow> nat \<Rightarrow> bool" where
  "char_boundary xs n = (n = 0 \<or> n = length xs
     \<or> n < length xs \<and> \<not> (of_char (xs ! n) \<ge> (0x80 :: nat) \<and> of_char (xs ! n) < (0xC0 :: nat)))"

text \<open>The slice \<^verbatim>\<open>&xs[n..]\<close>.\<close>

definition str_from :: "string \<Rightarrow> nat \<Rightarrow> string res" where
  "str_from xs n = (if char_boundary xs n then Inr (drop n xs) else Inl (Panicked ''byte index is not a char boundary''))"

definition first_char_is :: "char \<Rightarrow> string \<Rightarrow> bool" where
  "first_char_is c xs = (case xs of [] \<Rightarrow> False | x # _ \<Rightarrow> x = c)"

section \<open>State\<close>

definition O_RDONLY :: u32 where "O_RDONLY = 0"
definition O_WRONLY :: u32 where "O_WRONLY = 1"
definition O_RDWR :: u32 where "O_RDWR = 2"
definition O_CREAT :: u32 where "O_CREAT = 100"
definition O_TRUNC :: u32 where "O_TRUNC = 1000"
definition O_APPEND :: u32 where "O_APPEND = 2000"

definition FileType_DIRECTORY :: u16 where "FileType_DIRECTORY = push_bit 14 1"
definition FileType_NORMAL :: u16 where "FileType_NORMAL = push_bit 15 1"
definition FileType_SYMLINK :: u16 where "FileType_SYMLINK = push_bit 15 1 OR push_bit 13 1"

type_synonym fs_ref = nat

record file_description =
  fd_flags :: u32
  fd_offset :: usize
  fd_fs :: fs_ref
  fd_file_index :: usize

definition file_description_new :: "usize \<Rightarrow> u32 \<Rightarrow> fs_ref \<Rightarrow> file_description" where
  "file_description_new index flags fs =
     \<lparr>fd_flags = flags, fd_offset = 0, fd_fs = fs, fd_file_index = index\<rparr>"

record mount_point =
  mp_name :: string
  mp_fs :: "fs_ref option"

definition mount_point_new :: mount_point where
  "mount_point_new = \<lparr>mp_name = [], mp_fs = None\<rparr>"

record vfs_state =
  mount_points :: "mount_point list"

text \<open>The trait \<^verbatim>\<open>Filesystem\<close>, with buffers as addresses.\<close>

record 's filesystem =
  fs_open :: "string \<Rightarrow> u32 \<Rightarrow> u32 \<Rightarrow> 's \<Rightarrow> (file_description option \<times> 's) res"
  fs_mkdir :: "string \<Rightarrow> u32 \<Rightarrow> 's \<Rightarrow> (file_description option \<times> 's) res"
  fs_read :: "usize \<Rightarrow> u64 \<Rightarrow> usize \<Rightarrow> usize \<Rightarrow> 's \<Rightarrow> (usize \<times> 's) res"
  fs_write :: "usize \<Rightarrow> u64 \<Rightarrow> usize \<Rightarrow> usize \<Rightarrow> 's \<Rightarrow> (usize \<times> 's) res"

section \<open>Operations\<close>

definition mount :: "fs_ref \<Rightarrow> string \<Rightarrow> 'z vfs_state_scheme \<Rightarrow> bool \<times> 'z vfs_state_scheme" where
  "mount fs target s =
     (if \<not> first_char_is (CHR ''/'') target then (False, s)
      else if list_ex (\<lambda>mp. mp_name mp = target) (mount_points s) then (False, s)
      else (True, s\<lparr>mount_points := mount_points s @ [mount_point_new\<lparr>mp_fs := Some fs, mp_name := target\<rparr>]\<rparr>))"

fun best_mount :: "string \<Rightarrow> mount_point option \<Rightarrow> mount_point list \<Rightarrow> mount_point option" where
  "best_mount path curr_mp [] = curr_mp"
| "best_mount path curr_mp (mount_point # mps) =
     best_mount path
       (if str_contains path (mp_name mount_point) then
          case curr_mp of
            Some mp \<Rightarrow> if length (mp_name mount_point) > length (mp_name mp) then Some mount_point else curr_mp
          | None \<Rightarrow> Some mount_point
        else curr_mp) mps"

definition get_mount_point :: "string \<Rightarrow> 'z vfs_state_scheme \<Rightarrow> mount_point option" where
  "get_mount_point path s = best_mount path None (mount_points s)"

definition unwrap :: "'a option \<Rightarrow> 'a res" where
  "unwrap = expect ''called `Option::unwrap()` on a `None` value''"

definition vfs_open ::
  "(fs_ref \<Rightarrow> 'z vfs_state_scheme filesystem) \<Rightarrow> string \<Rightarrow> u32 \<Rightarrow> u32 \<Rightarrow> 'z vfs_state_scheme \<Rightarrow>
     (file_description option \<times> 'z vfs_state_scheme) res" where
  "vfs_open dyn path flags mode s =
     (if \<not> first_char_is (CHR ''/'') path then Inr (None, s)
      else case get_mount_point path s of
          Some mp \<Rightarrow> bnd (unwrap (mp_fs mp)) (\<lambda>fs.
                     bnd (str_from path (length (mp_name mp))) (\<lambda>rest.
                       fs_open (dyn fs) rest flags mode s))
        | None \<Rightarrow> Inr (None, s))"

definition vfs_mkdir ::
  "(fs_ref \<Rightarrow> 'z vfs_state_scheme filesystem) \<Rightarrow> string \<Rightarrow> u32 \<Rightarrow> 'z vfs_state_scheme \<Rightarrow>
     (file_description option \<times> 'z vfs_state_scheme) res" where
  "vfs_mkdir dyn path mode s =
     (case get_mount_point path s of
          Some mp \<Rightarrow> bnd (unwrap (mp_fs mp)) (\<lambda>fs.
                     bnd (str_from path (length (mp_name mp))) (\<lambda>rest.
                       fs_mkdir (dyn fs) rest mode s))
        | None \<Rightarrow> Inr (None, s))"

definition vfs_read ::
  "(fs_ref \<Rightarrow> 's filesystem) \<Rightarrow> fs_ref \<Rightarrow> usize \<Rightarrow> u64 \<Rightarrow> usize \<Rightarrow> usize \<Rightarrow> 's \<Rightarrow> (usize \<times> 's) res" where
  "vfs_read dyn fs file_index buffer cnt offset s = fs_read (dyn fs) file_index buffer cnt offset s"

definition vfs_write ::
  "(fs_ref \<Rightarrow> 's filesystem) \<Rightarrow> fs_ref \<Rightarrow> usize \<Rightarrow> u64 \<Rightarrow> usize \<Rightarrow> usize \<Rightarrow> 's \<Rightarrow> (usize \<times> 's) res" where
  "vfs_write dyn fs file_index buffer cnt offset s = fs_write (dyn fs) file_index buffer cnt offset s"

section \<open>Mount points\<close>

text \<open>The table after any mounts: every name is absolute, no two are equal, every file system is set.\<close>

definition mounts_ok :: "'z vfs_state_scheme \<Rightarrow> bool" where
  "mounts_ok s \<longleftrightarrow> distinct (map mp_name (mount_points s))
     \<and> (\<forall>mp \<in> set (mount_points s). first_char_is (CHR ''/'') (mp_name mp) \<and> mp_fs mp \<noteq> None)"

lemma str_contains_iff: "str_contains xs ys \<longleftrightarrow> (\<exists>as bs. xs = as @ ys @ bs)"
proof (induction xs)
  case Nil
  then show ?case by auto
next
  case (Cons x xs)
  have "str_starts_with (x # xs) ys \<longleftrightarrow> (\<exists>bs. x # xs = ys @ bs)"
    by (auto simp: str_starts_with_def) (metis append_take_drop_id)
  then show ?case using Cons.IH by (auto simp: Cons_eq_append_conv)
qed

lemma str_contains_prefix: "str_contains (ys @ bs) ys"
  by (auto simp: str_contains_iff intro: exI[of _ "[]"])

lemma best_mount_step:
  "\<exists>c. best_mount path cur (x # mps) = best_mount path c mps
     \<and> (c = cur \<or> c = Some x \<and> str_contains path (mp_name x))
     \<and> (\<forall>m. cur = Some m \<or> m = x \<and> str_contains path (mp_name x)
          \<longrightarrow> (\<exists>y. c = Some y \<and> length (mp_name m) \<le> length (mp_name y)))"
  by (cases cur) (auto intro: exI[of _ "Some x"] exI[of _ cur])

lemma best_mount_cases:
  "best_mount path cur mps = cur
     \<or> (\<exists>mp \<in> set mps. best_mount path cur mps = Some mp \<and> str_contains path (mp_name mp))"
proof (induction mps arbitrary: cur)
  case (Cons x mps)
  obtain c where c: "best_mount path cur (x # mps) = best_mount path c mps"
      "c = cur \<or> c = Some x \<and> str_contains path (mp_name x)"
    using best_mount_step[of path cur x mps] by blast
  then show ?case using Cons.IH[of c] by (auto simp del: best_mount.simps(2))
qed simp

lemma best_mount_max:
  "\<lbrakk>best_mount path cur mps = Some mp; m \<in> set mps \<and> str_contains path (mp_name m) \<or> cur = Some m\<rbrakk>
     \<Longrightarrow> length (mp_name m) \<le> length (mp_name mp)"
proof (induction mps arbitrary: cur m)
  case Nil
  then show ?case by simp
next
  case (Cons x mps)
  obtain c where c: "best_mount path cur (x # mps) = best_mount path c mps"
      "\<forall>m. cur = Some m \<or> m = x \<and> str_contains path (mp_name x)
        \<longrightarrow> (\<exists>y. c = Some y \<and> length (mp_name m) \<le> length (mp_name y))"
    using best_mount_step[of path cur x mps] by blast
  have res: "best_mount path c mps = Some mp" using Cons.prems(1) c(1) by simp
  show ?case
  proof (cases "m \<in> set mps \<and> str_contains path (mp_name m)")
    case False
    then obtain y where "c = Some y" "length (mp_name m) \<le> length (mp_name y)" using c(2) Cons.prems(2) by auto
    then show ?thesis using Cons.IH[OF res, of y] by simp
  qed (use Cons.IH[OF res] in blast)
qed

lemma best_mount_None: "best_mount path cur mps = None \<longleftrightarrow> cur = None \<and> (\<forall>mp \<in> set mps. \<not> str_contains path (mp_name mp))"
  by (induction mps arbitrary: cur) (auto split: option.splits)

section \<open>Properties\<close>

text \<open>
  \<^verbatim>\<open>mount\<close> adds a mount point exactly when the target is absolute and not in use, at the end of the table,
  and changes nothing otherwise; the table keeps absolute, pairwise different names with a file system each.
\<close>

lemma mount_correct:
  assumes "mounts_ok s"
  shows "fst (mount fs target s) = (first_char_is (CHR ''/'') target \<and> target \<notin> mp_name ` set (mount_points s))
    \<and> mounts_ok (snd (mount fs target s))
    \<and> mount_points (snd (mount fs target s))
        = mount_points s @ (if fst (mount fs target s) then [\<lparr>mp_name = target, mp_fs = Some fs\<rparr>] else [])"
  using assms by (auto simp: mount_def mounts_ok_def mount_point_new_def list_ex_iff)

lemma mount_correct_witness:
  "mounts_ok (snd (mount 7 ''/'' \<lparr>mount_points = []\<rparr>)) \<and> fst (mount 7 ''/'' \<lparr>mount_points = []\<rparr>)"
proof -
  have "mounts_ok \<lparr>mount_points = []\<rparr>" by (simp add: mounts_ok_def)
  from mount_correct[OF this, of 7 "''/''"] show ?thesis by (simp add: first_char_is_def)
qed

text \<open>
  C28. \<^verbatim>\<open>get_mount_point\<close> returns a mount point whose name occurs in the path, with the longest such name, and
  finds one whenever there is one. When mount names occur in the path only as prefixes, \<^verbatim>\<open>open\<close> passes to the file
  system with the longest mounted prefix exactly the rest of the path.
\<close>

theorem open_longest_prefix:
  assumes ok: "mounts_ok s" and abs: "first_char_is (CHR ''/'') path"
    and pre: "\<forall>mp \<in> set (mount_points s). str_contains path (mp_name mp) \<longrightarrow> str_starts_with path (mp_name mp)"
    and some: "\<exists>mp \<in> set (mount_points s). str_starts_with path (mp_name mp)"
    and utf8: "\<forall>mp \<in> set (mount_points s). str_starts_with path (mp_name mp) \<longrightarrow> char_boundary path (length (mp_name mp))"
  shows "\<exists>mp fs rest. mp \<in> set (mount_points s) \<and> get_mount_point path s = Some mp \<and> mp_fs mp = Some fs
    \<and> path = mp_name mp @ rest
    \<and> (\<forall>m \<in> set (mount_points s). str_starts_with path (mp_name m) \<longrightarrow> length (mp_name m) \<le> length (mp_name mp))
    \<and> vfs_open dyn path flags mode s = fs_open (dyn fs) rest flags mode s"
proof -
  have contains: "str_starts_with path n \<Longrightarrow> str_contains path n" for n
    using str_contains_prefix[of n "drop (length n) path"]
    by (simp add: str_starts_with_def) (metis append_take_drop_id)
  have "best_mount path None (mount_points s) \<noteq> None" using some contains by (auto simp: best_mount_None)
  then obtain mp where mp: "best_mount path None (mount_points s) = Some mp" "mp \<in> set (mount_points s)"
      "str_contains path (mp_name mp)" using best_mount_cases[of path None "mount_points s"] by auto
  then have start: "str_starts_with path (mp_name mp)" using pre by blast
  then have split: "path = mp_name mp @ drop (length (mp_name mp)) path"
    by (simp add: str_starts_with_def) (metis append_take_drop_id)
  obtain fs where fs: "mp_fs mp = Some fs" using ok mp(2) by (auto simp: mounts_ok_def)
  have "vfs_open dyn path flags mode s = fs_open (dyn fs) (drop (length (mp_name mp)) path) flags mode s"
    using abs mp(1) fs utf8 mp(2) start by (simp add: vfs_open_def get_mount_point_def unwrap_def str_from_def)
  moreover have "\<forall>m \<in> set (mount_points s). str_starts_with path (mp_name m) \<longrightarrow> length (mp_name m) \<le> length (mp_name mp)"
    using best_mount_max[OF mp(1)] contains by blast
  ultimately show ?thesis using mp fs split by (auto simp: get_mount_point_def)
qed

definition sample_mounts :: vfs_state where
  "sample_mounts = \<lparr>mount_points = [\<lparr>mp_name = ''/'', mp_fs = Some 1\<rparr>, \<lparr>mp_name = ''/mnt'', mp_fs = Some 2\<rparr>]\<rparr>"

lemmas str_eval = str_starts_with_def first_char_is_def char_boundary_def

text \<open>A file system that only reports the path it was asked for, as the file index.\<close>

definition echo_fs :: "fs_ref \<Rightarrow> 's filesystem" where
  "echo_fs r = \<lparr>fs_open = (\<lambda>path flags mode s. Inr (Some (file_description_new (length path) flags r), s)),
     fs_mkdir = (\<lambda>path mode s. Inr (None, s)), fs_read = (\<lambda>i b c o' s. Inr (c, s)), fs_write = (\<lambda>i b c o' s. Inr (c, s))\<rparr>"

theorem open_longest_prefix_witness:
  "\<exists>fd. vfs_open echo_fs ''/mnt/a'' 0 0 sample_mounts = Inr (Some fd, sample_mounts) \<and> fd_fs fd = 2 \<and> fd_file_index fd = 2"
proof -
  have ok: "mounts_ok sample_mounts" by (simp add: mounts_ok_def sample_mounts_def first_char_is_def)
  have "\<exists>mp fs rest. mp \<in> set (mount_points sample_mounts) \<and> get_mount_point ''/mnt/a'' sample_mounts = Some mp
    \<and> mp_fs mp = Some fs \<and> ''/mnt/a'' = mp_name mp @ rest
    \<and> (\<forall>m \<in> set (mount_points sample_mounts). str_starts_with ''/mnt/a'' (mp_name m) \<longrightarrow> length (mp_name m) \<le> length (mp_name mp))
    \<and> vfs_open echo_fs ''/mnt/a'' 0 0 sample_mounts = fs_open (echo_fs fs) rest 0 0 sample_mounts"
    by (rule open_longest_prefix[OF ok]) (simp_all add: sample_mounts_def str_eval)
  moreover have "get_mount_point ''/mnt/a'' sample_mounts = Some \<lparr>mp_name = ''/mnt'', mp_fs = Some 2\<rparr>"
    by (simp add: get_mount_point_def sample_mounts_def str_eval)
  ultimately have "vfs_open echo_fs ''/mnt/a'' 0 0 sample_mounts = fs_open (echo_fs 2) ''/a'' 0 0 sample_mounts" by auto
  then show ?thesis by (simp add: echo_fs_def file_description_new_def)
qed

text \<open>
  The test is \<^verbatim>\<open>path.contains(name)\<close>, not a prefix test: with file systems at the root and at \<open>n\<close>, every absolute path
  in which \<open>n\<close> occurs anywhere is opened on the file system of \<open>n\<close>, with the first \<open>length n\<close> bytes of the path cut off.
\<close>

theorem open_misroutes:
  assumes "mount_points s = [\<lparr>mp_name = ''/'', mp_fs = Some f\<rparr>, \<lparr>mp_name = n, mp_fs = Some g\<rparr>]"
    and "1 < length n" and "first_char_is (CHR ''/'') path" and "path = a @ n @ b" and "char_boundary path (length n)"
  shows "vfs_open dyn path flags mode s = fs_open (dyn g) (drop (length n) path) flags mode s"
proof -
  have "str_contains path ''/''" using assms(3)
    by (cases path) (auto simp: first_char_is_def str_starts_with_def)
  moreover have "str_contains path n" using assms(4) by (auto simp: str_contains_iff)
  ultimately have "get_mount_point path s = Some \<lparr>mp_name = n, mp_fs = Some g\<rparr>"
    using assms(1,2) by (simp add: get_mount_point_def)
  then show ?thesis using assms(3,5) by (simp add: vfs_open_def unwrap_def str_from_def)
qed

theorem open_misroutes_witness:
  "vfs_open echo_fs ''/home/mnt/x'' 0 0 sample_mounts = fs_open (echo_fs 2) ''e/mnt/x'' 0 0 sample_mounts"
proof -
  have "vfs_open echo_fs ''/home/mnt/x'' 0 0 sample_mounts
      = fs_open (echo_fs 2) (drop (length ''/mnt'') ''/home/mnt/x'') 0 0 sample_mounts"
  proof (rule open_misroutes)
    show "mount_points sample_mounts = [\<lparr>mp_name = ''/'', mp_fs = Some 1\<rparr>, \<lparr>mp_name = ''/mnt'', mp_fs = Some 2\<rparr>]"
      by (simp add: sample_mounts_def)
    show "''/home/mnt/x'' = ''/home'' @ ''/mnt'' @ ''/x''" by simp
  qed (simp_all add: str_eval)
  then show ?thesis by simp
qed

end
