(* ===== verification/Ahci.thy ===== *)
theory Ahci
  imports Pci Vfs
begin

text \<open>
  \<^verbatim>\<open>drivers/ahci.rs\<close>: the disk driver. The registers of a port are a record; the command headers and command
  tables, which driver and controller share, are stores from addresses to records (one constructor per
  \<^verbatim>\<open>repr(C)\<close> structure), and data buffers are bytes of physical memory. A port is named by its number.

  The controller and its disks are not code of the kernel: what they do between two register reads of the
  driver is the parameter \<open>hw\<close>, a function on the state for each port. The driver waits for a command by polling, so the wait is a partial
  function; a wait that does not end is the fault \<open>Hangs\<close>.
\<close>

section \<open>Shared structures\<close>

text \<open>
  The driver lays the FIS structure over the first bytes of the 64-byte array \<^verbatim>\<open>cmd_fis\<close> of the table; the one entry of
  \<^verbatim>\<open>prdt_entries\<close> is a field.
\<close>

record fis_reg_h2d =
  fis_type :: u8
  mul_cmd :: u8
  fis_command :: u8
  featurel :: u8
  lba0 :: u8
  lba1 :: u8
  lba2 :: u8
  fis_device :: u8
  lba3 :: u8
  lba4 :: u8
  lba5 :: u8
  featureh :: u8
  countl :: u8
  counth :: u8
  icc :: u8
  control :: u8
  fis_reserved :: u32

record prdt =
  data_lower :: u32
  data_upper :: u32
  prdt_reserved :: u32
  bc_i :: u32

record command_table =
  cmd_fis :: fis_reg_h2d
  atapi_cmd :: "u8 list"
  table_reserved :: "u8 list"
  prdt_entry :: prdt

record command_header =
  cfl_awp :: u8
  rbc_rsv_pmp :: u8
  prdtl :: u16
  prdbc :: u32
  ctaddr_lower :: u32
  ctaddr_upper :: u32
  header_reserved :: "u32 list"

record port_registers =
  clb_lower :: u32
  clb_higher :: u32
  fb_lower :: u32
  fb_higher :: u32
  interrupt_status :: u32
  interrupt_enable :: u32
  port_cmd :: u32
  port_reserved :: u32
  tfd :: u32
  port_signature :: u32
  ssts :: u32
  sctl :: u32
  serr :: u32
  sact :: u32
  ci :: u32
  sntf :: u32
  fbs :: u32
  dev_sleep :: u32
  port_reserved2 :: "u32 list"
  port_vendor_specific :: "u32 list"

record controller_registers =
  capabilities :: u32
  ghc :: u32
  hba_interrupt_status :: u32
  port_implemented :: u32
  hba_version :: u32
  ccc_ctl :: u32
  ccc_ports :: u32
  em_loc :: u32
  em_ctl :: u32
  capabilities2 :: u32
  bohc :: u32
  hba_reserved :: "u32 list"
  hba_vendor_specific :: "u32 list"

definition SATA_ATA :: u32 where "SATA_ATA = 0x101"
definition FIS_TYPE_REG_H2D :: u8 where "FIS_TYPE_REG_H2D = 0x27"
definition ATA_READ_DMA :: u8 where "ATA_READ_DMA = 0x25"
definition ATA_WRITE_DMA :: u8 where "ATA_WRITE_DMA = 0x35"
definition ATA_IDENTIFY :: u8 where "ATA_IDENTIFY = 0xec"

record ahci_state = "file_description pci_state" +
  hba :: controller_registers
  ports :: "nat \<Rightarrow> port_registers"
  headers :: "u64 \<Rightarrow> command_header"
  tables :: "u64 \<Rightarrow> command_table"
  ahci_devices :: "nat list"
  disk :: "nat \<Rightarrow> nat \<Rightarrow> u8"

text \<open>\<^verbatim>\<open>Result<T, ()>\<close>: \<open>Inl ()\<close> is \<^verbatim>\<open>Err(())\<close>.\<close>

type_synonym 'a rust_result = "unit + 'a"

section \<open>Encoding a command\<close>

definition set_lba :: "u64 \<Rightarrow> fis_reg_h2d \<Rightarrow> fis_reg_h2d" where
  "set_lba lba fis = fis\<lparr>lba0 := ucast lba, lba1 := ucast (drop_bit 8 lba), lba2 := ucast (drop_bit 16 lba),
     lba3 := ucast (drop_bit 24 lba), lba4 := ucast (drop_bit 32 lba), lba5 := ucast (drop_bit 40 lba),
     fis_device := push_bit 6 1\<rparr>"

definition set_count :: "u16 \<Rightarrow> fis_reg_h2d \<Rightarrow> fis_reg_h2d" where
  "set_count cnt fis = fis\<lparr>countl := ucast cnt, counth := ucast (drop_bit 8 cnt)\<rparr>"

definition set_buffer :: "u64 \<Rightarrow> u16 \<Rightarrow> prdt \<Rightarrow> prdt res" where
  "set_buffer address sector_cnt p =
     bnd (wmul (ucast sector_cnt) 512) (\<lambda>n.
     bnd (wsub n 1) (\<lambda>n.
       Inr (p\<lparr>data_lower := ucast address, data_upper := ucast (drop_bit 32 address), prdt_reserved := 0,
              bc_i := n OR push_bit 31 1\<rparr>)))"

text \<open>The pointer that two 32-bit registers hold, in the higher half.\<close>

definition reg_pair_ptr :: "u32 \<Rightarrow> u32 \<Rightarrow> u64 res" where
  "reg_pair_ptr lo hi = wadd (ucast lo OR push_bit 32 (ucast hi)) PHYS_BASE"

definition get_command_table :: "command_header \<Rightarrow> u64 res" where
  "get_command_table h = reg_pair_ptr (ctaddr_lower h) (ctaddr_upper h)"

text \<open>\<^verbatim>\<open>size_of::<CommandHeader>()\<close> is 32.\<close>

definition get_command_header :: "port_registers \<Rightarrow> nat \<Rightarrow> u64 res" where
  "get_command_header r slot =
     bnd (reg_pair_ptr (clb_lower r) (clb_higher r)) (\<lambda>a. Inr (a + of_nat (slot * 32)))"

definition get_slot :: "port_registers \<Rightarrow> nat option" where
  "get_slot r = List.find (\<lambda>i. (sact r OR ci r) AND push_bit i 1 = 0) [0..<32]"

section \<open>Sending a command\<close>

text \<open>
  The polling loop: the controller moves on before each read of \<^verbatim>\<open>ci\<close>. The result is \<open>Inl\<close> when the loop returns the
  error, and \<open>Inr\<close> when it ends.
\<close>

partial_function (option) poll ::
  "(nat \<Rightarrow> 'z ahci_state_scheme \<Rightarrow> 'z ahci_state_scheme) \<Rightarrow> nat \<Rightarrow> nat \<Rightarrow> 'z ahci_state_scheme \<Rightarrow>
     ('z ahci_state_scheme + 'z ahci_state_scheme) option" where
  "poll hw p slot s =
     (let s = hw p s in
      if ci (ports s p) AND push_bit slot 1 \<noteq> 0
      then if interrupt_status (ports s p) AND push_bit 30 1 \<noteq> 0 then Some (Inl s) else poll hw p slot s
      else Some (Inr s))"

definition set_header :: "u64 \<Rightarrow> (command_header \<Rightarrow> command_header) \<Rightarrow> 'z ahci_state_scheme \<Rightarrow> 'z ahci_state_scheme" where
  "set_header a f s = s\<lparr>headers := (headers s)(a := f (headers s a))\<rparr>"

definition set_table :: "u64 \<Rightarrow> (command_table \<Rightarrow> command_table) \<Rightarrow> 'z ahci_state_scheme \<Rightarrow> 'z ahci_state_scheme" where
  "set_table a f s = s\<lparr>tables := (tables s)(a := f (tables s a))\<rparr>"

text \<open>Writing a bit to \<^verbatim>\<open>ci\<close> sets it and leaves the others (the register is write-1-to-set).\<close>

definition set_ci :: "nat \<Rightarrow> nat \<Rightarrow> 'z ahci_state_scheme \<Rightarrow> 'z ahci_state_scheme" where
  "set_ci p slot s = s\<lparr>ports := (ports s)(p := (ports s p)\<lparr>ci := ci (ports s p) OR push_bit slot 1\<rparr>)\<rparr>"

text \<open>\<^verbatim>\<open>size_of::<FisRegH2D>() / 4\<close> is 5.\<close>

definition send_command ::
  "(nat \<Rightarrow> 'z ahci_state_scheme \<Rightarrow> 'z ahci_state_scheme) \<Rightarrow> nat \<Rightarrow> u64 \<Rightarrow> u16 \<Rightarrow> u64 \<Rightarrow> bool \<Rightarrow>
     'z ahci_state_scheme \<Rightarrow> (usize rust_result \<times> 'z ahci_state_scheme) res" where
  "send_command hw p lba sectors buffer write s =
     bnd (expect ''Could not get a slot fot the AHCI command'' (get_slot (ports s p))) (\<lambda>slot.
     bnd (get_command_header (ports s p) slot) (\<lambda>cmd_header.
     let s = set_header cmd_header (\<lambda>h. h\<lparr>cfl_awp := 5\<rparr>) s;
         s = if write then set_header cmd_header (\<lambda>h. h\<lparr>cfl_awp := cfl_awp h OR push_bit 6 1\<rparr>) s else s;
         s = set_header cmd_header (\<lambda>h. h\<lparr>prdtl := 1\<rparr>) s in
     bnd (get_command_table (headers s cmd_header)) (\<lambda>cmd_table.
     let buffer_addr = buffer AND NOT PHYS_BASE in
     bnd (set_buffer buffer_addr sectors (prdt_entry (tables s cmd_table))) (\<lambda>prdt.
     let s = set_table cmd_table (\<lambda>t. t\<lparr>prdt_entry := prdt\<rparr>) s;
         fis = cmd_fis (tables s cmd_table);
         fis = fis\<lparr>fis_type := FIS_TYPE_REG_H2D, mul_cmd := push_bit 7 1,
                   fis_command := if write then ATA_WRITE_DMA else ATA_READ_DMA\<rparr>;
         fis = set_count sectors (set_lba lba fis);
         s = set_table cmd_table (\<lambda>t. t\<lparr>cmd_fis := fis\<rparr>) s;
         s = set_ci p slot s in
     case poll hw p slot s of
       None \<Rightarrow> Inl Hangs
     | Some (Inl s) \<Rightarrow> Inr (Inl (), s)
     | Some (Inr s) \<Rightarrow>
         if interrupt_status (ports s p) AND push_bit 30 1 \<noteq> 0 then Inr (Inl (), s)
         else Inr (Inr (unat (prdbc (headers s cmd_header))), s)))))"

section \<open>Reading and writing bytes\<close>

definition sector_count :: "u64 \<Rightarrow> usize \<Rightarrow> u16 res" where
  "sector_count offset bytes =
     bnd (uadd bytes (unat (offset mod 512))) (\<lambda>n. bnd (div_ceil n 512) (\<lambda>k. Inr (of_nat k)))"

text \<open>
  \<^verbatim>\<open>ahci::read\<close> up to the copy: the bytes that are copied to the caller, after the temporary buffer has been
  given back. \<open>ahci_read\<close> copies them to an address; callers that read into a variable or a structure use \<open>ahci_fetch\<close>.
\<close>

definition ahci_fetch ::
  "(nat \<Rightarrow> 'z ahci_state_scheme \<Rightarrow> 'z ahci_state_scheme) \<Rightarrow> usize \<Rightarrow> u64 \<Rightarrow> usize \<Rightarrow> 'z ahci_state_scheme \<Rightarrow>
     ((usize \<times> u8 list) rust_result \<times> 'z ahci_state_scheme) res" where
  "ahci_fetch hw device_index offset bytes s =
     (if device_index \<ge> length (ahci_devices s) then Inl IndexOutOfBounds
      else let p = ahci_devices s ! device_index in
        bnd (pmm_box_new bytes s) (\<lambda>(tmp, s).
        bnd (sector_count offset bytes) (\<lambda>sectors.
        bnd (send_command hw p (offset div 512) sectors (box_data tmp) False s) (\<lambda>(r, s).
        case r of
          Inr bc \<Rightarrow>
            let data = load_bytes (mem s) (direct (box_data tmp + offset mod 512)) bytes in
            bnd (pmm_box_drop tmp s) (\<lambda>s. Inr (Inr (bc, data), s))
        | Inl e \<Rightarrow> bnd (pmm_box_drop tmp s) (\<lambda>s. Inr (Inl e, s))))))"

definition ahci_read ::
  "(nat \<Rightarrow> 'z ahci_state_scheme \<Rightarrow> 'z ahci_state_scheme) \<Rightarrow> usize \<Rightarrow> u64 \<Rightarrow> usize \<Rightarrow> u64 \<Rightarrow> 'z ahci_state_scheme \<Rightarrow>
     (usize rust_result \<times> 'z ahci_state_scheme) res" where
  "ahci_read hw device_index offset bytes buffer s =
     bnd (ahci_fetch hw device_index offset bytes s) (\<lambda>(r, s). case r of
       Inr (bc, data) \<Rightarrow> Inr (Inr bc, s\<lparr>mem := store_bytes (mem s) (direct buffer) data\<rparr>)
     | Inl e \<Rightarrow> Inr (Inl e, s))"

text \<open>
  \<^verbatim>\<open>ahci::write\<close>, with the bytes of the caller given by \<open>src\<close> on the state in which they are copied.
\<close>

definition ahci_store ::
  "(nat \<Rightarrow> 'z ahci_state_scheme \<Rightarrow> 'z ahci_state_scheme) \<Rightarrow> usize \<Rightarrow> u64 \<Rightarrow> usize \<Rightarrow> ('z ahci_state_scheme \<Rightarrow> u8 list) \<Rightarrow>
     'z ahci_state_scheme \<Rightarrow> (usize rust_result \<times> 'z ahci_state_scheme) res" where
  "ahci_store hw device_index offset bytes src s =
     (if device_index \<ge> length (ahci_devices s) then Inl IndexOutOfBounds
      else let p = ahci_devices s ! device_index in
        bnd (pmm_box_new bytes s) (\<lambda>(tmp, s).
        bnd (sector_count offset bytes) (\<lambda>sectors.
        bnd (send_command hw p (offset div 512) sectors (box_data tmp) False s) (\<lambda>(r, s).
        case r of
          Inr _ \<Rightarrow>
            let s = s\<lparr>mem := store_bytes (mem s) (direct (box_data tmp + offset mod 512)) (src s)\<rparr> in
            bnd (send_command hw p (offset div 512) sectors (box_data tmp) True s) (\<lambda>(r, s).
            bnd (pmm_box_drop tmp s) (\<lambda>s. Inr (r, s)))
        | Inl e \<Rightarrow> bnd (pmm_box_drop tmp s) (\<lambda>s. Inr (Inl e, s))))))"

definition ahci_write ::
  "(nat \<Rightarrow> 'z ahci_state_scheme \<Rightarrow> 'z ahci_state_scheme) \<Rightarrow> usize \<Rightarrow> u64 \<Rightarrow> usize \<Rightarrow> u64 \<Rightarrow> 'z ahci_state_scheme \<Rightarrow>
     (usize rust_result \<times> 'z ahci_state_scheme) res" where
  "ahci_write hw device_index offset bytes buffer =
     ahci_store hw device_index offset bytes (\<lambda>s. load_bytes (mem s) (direct buffer) bytes)"

text \<open>A transfer of no bytes never ends well: its temporary buffer cannot be allocated.\<close>

lemma ahci_zero_bytes:
  "ahci_fetch hw d offset 0 s \<noteq> Inr r" "ahci_read hw d offset 0 buffer s \<noteq> Inr r'"
  "ahci_store hw d offset 0 src s \<noteq> Inr r'" "ahci_write hw d offset 0 buffer s \<noteq> Inr r'"
proof -
  show f: "ahci_fetch hw d offset 0 s \<noteq> Inr r" for r
    by (simp add: ahci_fetch_def bnd_eq_Inr pmm_box_new_zero Let_def)
  show st: "ahci_store hw d offset 0 src s \<noteq> Inr r'" for src
    by (simp add: ahci_store_def bnd_eq_Inr pmm_box_new_zero Let_def)
  show "ahci_read hw d offset 0 buffer s \<noteq> Inr r'" using f by (simp add: ahci_read_def bnd_eq_Inr)
  show "ahci_write hw d offset 0 buffer s \<noteq> Inr r'" using st by (simp add: ahci_write_def)
qed

section \<open>Initialisation\<close>

text \<open>A command slot of a port. \<^verbatim>\<open>size_of::<CommandTable>()\<close> is 144: one page for each table.\<close>

definition init_slot :: "bitflags_api \<Rightarrow> nat \<Rightarrow> nat \<Rightarrow> 'z ahci_state_scheme \<Rightarrow> 'z ahci_state_scheme res" where
  "init_slot fl p i s =
     bnd (get_command_header (ports s p) i) (\<lambda>cmd_header.
     bnd (div_ceil 144 (unat PAGE_SIZE)) (\<lambda>cmd_table_pages.
     bnd (pmm_calloc cmd_table_pages s) (\<lambda>(r, s).
     bnd (expect ''Could not allocate the pages needed for the command list (AHCI)'' r) (\<lambda>a.
     bnd (for_each 0 cmd_table_pages (\<lambda>j s.
       bnd (vmm_get s) (\<lambda>kernel.
       bnd (wadd (as_u64 a) PHYS_BASE) (\<lambda>v.
       bnd (wadd v (of_nat j * PAGE_SIZE)) (\<lambda>v.
       bnd (wadd (as_u64 a) (of_nat j * PAGE_SIZE)) (\<lambda>ph.
         map_page fl kernel (VirtAddr v) (PhysAddr ph)
           (fl_union fl (fl_union fl PageFlags_PRESENT PageFlags_WRITABLE) PageFlags_UNCACHEABLE) True s))))) s) (\<lambda>s.
       Inr (set_header cmd_header (\<lambda>h. h\<lparr>ctaddr_lower := ucast (as_u64 a), ctaddr_upper := ucast (drop_bit 32 (as_u64 a))\<rparr>) s))))))"

definition ahci_device_new ::
  "bitflags_api \<Rightarrow> nat \<Rightarrow> 'z ahci_state_scheme \<Rightarrow> (nat \<times> 'z ahci_state_scheme) res" where
  "ahci_device_new fl p s =
     (let s = s\<lparr>ports := (ports s)(p := (ports s p)\<lparr>interrupt_enable := interrupt_enable (ports s p) OR 1\<rparr>)\<rparr> in
      bnd (for_each 0 32 (init_slot fl p) s) (\<lambda>s. Inr (p, s)))"

text \<open>A port that is implemented and has a disk.\<close>

definition start_port :: "bitflags_api \<Rightarrow> nat \<Rightarrow> 'z ahci_state_scheme \<Rightarrow> 'z ahci_state_scheme res" where
  "start_port fl i s =
     (if port_implemented (hba s) AND push_bit i 1 \<noteq> 0 \<and> port_signature (ports s i) = SATA_ATA
      then bnd (ahci_device_new fl i s) (\<lambda>(d, s). Inr (s\<lparr>ahci_devices := ahci_devices s @ [d]\<rparr>))
      else Inr s)"

definition ahci_init :: "bitflags_api \<Rightarrow> pci_device \<Rightarrow> 'z ahci_state_scheme \<Rightarrow> 'z ahci_state_scheme res" where
  "ahci_init fl dev s =
     bnd (get_bar dev 5 s) (\<lambda>bar5.
     let s = bus_master dev s;
         s = enable_mmio dev s in
     bnd (vmm_get s) (\<lambda>kernel.
     bnd (map_page fl kernel (VirtAddr (as_u64 (higher_half bar5))) bar5
            (fl_union fl (fl_union fl PageFlags_PRESENT PageFlags_WRITABLE) PageFlags_UNCACHEABLE) True s) (\<lambda>s.
     if capabilities (hba s) AND push_bit 31 1 = 0 then Inr s
     else for_each 0 32 (start_port fl) (s\<lparr>hba := (hba s)\<lparr>ghc := ghc (hba s) OR 2\<rparr>\<rparr>))))"

text \<open>\<^verbatim>\<open>pci::enumerate_devices\<close>, which starts the driver for every disk controller it finds.\<close>

definition enumerate_devices :: "bitflags_api \<Rightarrow> 'z ahci_state_scheme \<Rightarrow> 'z ahci_state_scheme res" where
  "enumerate_devices fl s =
     bnd (scan_devices s) (\<lambda>s.
     for_each 0 (length (pci_devices s)) (\<lambda>k s.
       let dev = pci_devices s ! k in
       if pd_class dev = 0x1 \<and> pd_subclass dev = 0x6 \<and> pd_prog_if dev = 0x1 then ahci_init fl dev s else Inr s) s)"

end
