(* ===== verification/Ext2.thy ===== *)
theory Ext2
  imports Ahci
begin

text \<open>
  \<^verbatim>\<open>fs/ext2.rs\<close>: the ext2 file system on the first disk. Structures on the disk are little-endian packed records; each has a
  decoding from bytes and an encoding to bytes, and reading or writing one goes through the disk driver. A structure the code keeps in a
  \<^verbatim>\<open>Box\<close> is a value (the memory of the heap objects is not tracked), \<^verbatim>\<open>&mut self\<close> becomes a returned structure, and
  page boxes and bitmaps are allocated and dropped as in the code.
\<close>

section \<open>Structures on the disk\<close>

definition EXT2_SIGNATURE :: u16 where "EXT2_SIGNATURE = 0xef53"
definition ROOT_DIR_INODE :: u32 where "ROOT_DIR_INODE = 0x2"
definition MAX_OPEN_FILE_CNT :: usize where "MAX_OPEN_FILE_CNT = 1024"

record superblock =
  sb_inode_cnt :: u32
  sb_block_cnt :: u32
  sb_reserved_blocks_cnt :: u32
  sb_unallocated_blocks :: u32
  sb_unallocated_inodes :: u32
  sb_superblock_block :: u32
  sb_block_size :: u32
  sb_fragment_size :: u32
  sb_blocks_per_group :: u32
  sb_fragments_per_group :: u32
  sb_inodes_per_group :: u32
  sb_last_mt :: u32
  sb_last_wt :: u32
  sb_mount_cnt :: u16
  sb_mounts_bfc :: u16
  sb_signature :: u16
  sb_fs_state :: u16
  sb_handle_error :: u16
  sb_min_version :: u16
  sb_last_cc :: u32
  sb_cc_interval :: u32
  sb_os_id :: u32
  sb_maj_version :: u32
  sb_user_id :: u16
  sb_group_id :: u16

definition superblock_of :: "u8 list \<Rightarrow> superblock" where
  "superblock_of bs =
     \<lparr>sb_inode_cnt = le_at 0 4 bs, sb_block_cnt = le_at 4 4 bs, sb_reserved_blocks_cnt = le_at 8 4 bs,
      sb_unallocated_blocks = le_at 12 4 bs, sb_unallocated_inodes = le_at 16 4 bs, sb_superblock_block = le_at 20 4 bs,
      sb_block_size = le_at 24 4 bs, sb_fragment_size = le_at 28 4 bs, sb_blocks_per_group = le_at 32 4 bs,
      sb_fragments_per_group = le_at 36 4 bs, sb_inodes_per_group = le_at 40 4 bs, sb_last_mt = le_at 44 4 bs,
      sb_last_wt = le_at 48 4 bs, sb_mount_cnt = le_at 52 2 bs, sb_mounts_bfc = le_at 54 2 bs, sb_signature = le_at 56 2 bs,
      sb_fs_state = le_at 58 2 bs, sb_handle_error = le_at 60 2 bs, sb_min_version = le_at 62 2 bs, sb_last_cc = le_at 64 4 bs,
      sb_cc_interval = le_at 68 4 bs, sb_os_id = le_at 72 4 bs, sb_maj_version = le_at 76 4 bs, sb_user_id = le_at 80 2 bs,
      sb_group_id = le_at 82 2 bs\<rparr>"

definition superblock_bytes :: "superblock \<Rightarrow> u8 list" where
  "superblock_bytes sb = concat
     [to_le 4 (sb_inode_cnt sb), to_le 4 (sb_block_cnt sb), to_le 4 (sb_reserved_blocks_cnt sb),
      to_le 4 (sb_unallocated_blocks sb), to_le 4 (sb_unallocated_inodes sb), to_le 4 (sb_superblock_block sb),
      to_le 4 (sb_block_size sb), to_le 4 (sb_fragment_size sb), to_le 4 (sb_blocks_per_group sb),
      to_le 4 (sb_fragments_per_group sb), to_le 4 (sb_inodes_per_group sb), to_le 4 (sb_last_mt sb), to_le 4 (sb_last_wt sb),
      to_le 2 (sb_mount_cnt sb), to_le 2 (sb_mounts_bfc sb), to_le 2 (sb_signature sb), to_le 2 (sb_fs_state sb),
      to_le 2 (sb_handle_error sb), to_le 2 (sb_min_version sb), to_le 4 (sb_last_cc sb), to_le 4 (sb_cc_interval sb),
      to_le 4 (sb_os_id sb), to_le 4 (sb_maj_version sb), to_le 2 (sb_user_id sb), to_le 2 (sb_group_id sb)]"

record block_group_descriptor =
  bg_block_bitmap :: u32
  bg_inode_bitmap :: u32
  bg_inode_table :: u32
  bg_unallocated_blocks :: u16
  bg_unallocated_inodes :: u16
  bg_directories_cnt :: u16
  bg_unused :: "u8 list"

definition descriptor_of :: "u8 list \<Rightarrow> block_group_descriptor" where
  "descriptor_of bs =
     \<lparr>bg_block_bitmap = le_at 0 4 bs, bg_inode_bitmap = le_at 4 4 bs, bg_inode_table = le_at 8 4 bs,
      bg_unallocated_blocks = le_at 12 2 bs, bg_unallocated_inodes = le_at 14 2 bs, bg_directories_cnt = le_at 16 2 bs,
      bg_unused = take 14 (drop 18 bs)\<rparr>"

definition descriptor_bytes :: "block_group_descriptor \<Rightarrow> u8 list" where
  "descriptor_bytes d = concat
     [to_le 4 (bg_block_bitmap d), to_le 4 (bg_inode_bitmap d), to_le 4 (bg_inode_table d), to_le 2 (bg_unallocated_blocks d),
      to_le 2 (bg_unallocated_inodes d), to_le 2 (bg_directories_cnt d), bg_unused d]"

record block_group =
  bg_raw :: block_group_descriptor
  bg_index :: usize

record inode =
  type_and_permissions :: u16
  in_user_id :: u16
  sizel :: u32
  last_access_time :: u32
  creation_time :: u32
  last_mod_time :: u32
  deletion_time :: u32
  in_group_id :: u16
  ref_cnt :: u16
  sectors_used :: u32
  in_flags :: u32
  inode_number :: u32
  direct_pointer :: "u32 list"
  singly_ip :: u32
  doubly_ip :: u32
  triply_ip :: u32
  gen_num :: u32
  ext_ab :: u32
  sizeh_dir_acl :: u32
  fragment_block :: u32
  os_specific2 :: "u32 list"

definition inode_of :: "u8 list \<Rightarrow> inode" where
  "inode_of bs =
     \<lparr>type_and_permissions = le_at 0 2 bs, in_user_id = le_at 2 2 bs, sizel = le_at 4 4 bs, last_access_time = le_at 8 4 bs,
      creation_time = le_at 12 4 bs, last_mod_time = le_at 16 4 bs, deletion_time = le_at 20 4 bs, in_group_id = le_at 24 2 bs,
      ref_cnt = le_at 26 2 bs, sectors_used = le_at 28 4 bs, in_flags = le_at 32 4 bs, inode_number = le_at 36 4 bs,
      direct_pointer = map (\<lambda>i. le_at (40 + 4 * i) 4 bs) [0..<12], singly_ip = le_at 88 4 bs, doubly_ip = le_at 92 4 bs,
      triply_ip = le_at 96 4 bs, gen_num = le_at 100 4 bs, ext_ab = le_at 104 4 bs, sizeh_dir_acl = le_at 108 4 bs,
      fragment_block = le_at 112 4 bs, os_specific2 = map (\<lambda>i. le_at (116 + 4 * i) 4 bs) [0..<3]\<rparr>"

definition inode_bytes :: "inode \<Rightarrow> u8 list" where
  "inode_bytes n = concat
     ([to_le 2 (type_and_permissions n), to_le 2 (in_user_id n), to_le 4 (sizel n), to_le 4 (last_access_time n),
       to_le 4 (creation_time n), to_le 4 (last_mod_time n), to_le 4 (deletion_time n), to_le 2 (in_group_id n),
       to_le 2 (ref_cnt n), to_le 4 (sectors_used n), to_le 4 (in_flags n), to_le 4 (inode_number n)]
      @ map (to_le 4) (direct_pointer n)
      @ [to_le 4 (singly_ip n), to_le 4 (doubly_ip n), to_le 4 (triply_ip n), to_le 4 (gen_num n), to_le 4 (ext_ab n),
         to_le 4 (sizeh_dir_acl n), to_le 4 (fragment_block n)]
      @ map (to_le 4) (os_specific2 n))"

section \<open>The mounted file system\<close>

record ext2_filesystem =
  fs_superblock :: superblock
  block_size :: usize
  block_group_cnt :: usize
  starting_lba :: usize

record ext2_state = ahci_state +
  ext2_fs :: "ext2_filesystem option"
  inode_table :: "inode option list"

type_synonym 'z disk_hw = "nat \<Rightarrow> 'z ext2_state_scheme \<Rightarrow> 'z ext2_state_scheme"

text \<open>\<^verbatim>\<open>EXT2_FS.clone().unwrap()\<close>.\<close>

definition the_fs :: "'z ext2_state_scheme \<Rightarrow> ext2_filesystem res" where
  "the_fs s = unwrap (ext2_fs s)"

text \<open>\<^verbatim>\<open>Result::unwrap\<close>, and \<^verbatim>\<open>ahci::read\<close> and \<^verbatim>\<open>ahci::write\<close> of a structure on disk 0, unwrapped.\<close>

definition unwrap_ok :: "'a rust_result \<Rightarrow> 'a res" where
  "unwrap_ok r = (case r of Inl _ \<Rightarrow> Inl (Panicked ''called `Result::unwrap()` on an `Err` value'') | Inr x \<Rightarrow> Inr x)"

definition read_at :: "'z disk_hw \<Rightarrow> usize \<Rightarrow> usize \<Rightarrow> 'z ext2_state_scheme \<Rightarrow> (u8 list \<times> 'z ext2_state_scheme) res" where
  "read_at hw offset bytes s =
     bnd (ahci_fetch hw 0 (of_nat offset) bytes s) (\<lambda>(r, s).
     bnd (unwrap_ok r) (\<lambda>(bc, data). Inr (data, s)))"

definition write_at :: "'z disk_hw \<Rightarrow> usize \<Rightarrow> u8 list \<Rightarrow> 'z ext2_state_scheme \<Rightarrow> 'z ext2_state_scheme res" where
  "write_at hw offset data s =
     bnd (ahci_store hw 0 (of_nat offset) (length data) (\<lambda>_. data) s) (\<lambda>(r, s).
     bnd (unwrap_ok r) (\<lambda>bc. Inr s))"

text \<open>\<^verbatim>\<open>starting_lba * 512 + block * block_size + extra\<close>.\<close>

definition block_offset :: "ext2_filesystem \<Rightarrow> usize \<Rightarrow> usize res \<Rightarrow> usize res" where
  "block_offset fs block extra =
     bnd (umul (starting_lba fs) 512) (\<lambda>a.
     bnd (umul block (block_size fs)) (\<lambda>b.
     bnd (uadd a b) (\<lambda>c.
     bnd extra (\<lambda>e. uadd c e))))"

definition superblock_flush :: "'z disk_hw \<Rightarrow> superblock \<Rightarrow> 'z ext2_state_scheme \<Rightarrow> 'z ext2_state_scheme res" where
  "superblock_flush hw sb s =
     bnd (the_fs s) (\<lambda>fs.
     bnd (uadd (starting_lba fs) 2) (\<lambda>l.
     bnd (umul l 512) (\<lambda>offset.
       write_at hw offset (superblock_bytes sb) s)))"

section \<open>Block groups\<close>

text \<open>The place of a block group descriptor, of \<^verbatim>\<open>size_of::<BlockGroupDescriptor>() = 32\<close> bytes.\<close>

definition descriptor_offset :: "ext2_filesystem \<Rightarrow> usize \<Rightarrow> usize res" where
  "descriptor_offset fs index =
     (let bgdt_block = if block_size fs > 1024 then 1 else 2 in block_offset fs bgdt_block (umul index 32))"

definition block_group_get :: "'z disk_hw \<Rightarrow> usize \<Rightarrow> 'z ext2_state_scheme \<Rightarrow> (block_group \<times> 'z ext2_state_scheme) res" where
  "block_group_get hw block_group_index s =
     bnd (the_fs s) (\<lambda>fs.
     bnd (descriptor_offset fs block_group_index) (\<lambda>offset.
     bnd (read_at hw offset 32 s) (\<lambda>(data, s).
       Inr (\<lparr>bg_raw = descriptor_of data, bg_index = block_group_index\<rparr>, s))))"

definition block_group_flush :: "'z disk_hw \<Rightarrow> block_group \<Rightarrow> 'z ext2_state_scheme \<Rightarrow> 'z ext2_state_scheme res" where
  "block_group_flush hw bg s =
     bnd (the_fs s) (\<lambda>fs.
     bnd (descriptor_offset fs (bg_index bg)) (\<lambda>offset.
       write_at hw offset (descriptor_bytes (bg_raw bg)) s))"

definition get_block_group :: "usize \<Rightarrow> 'z ext2_state_scheme \<Rightarrow> usize res" where
  "get_block_group n s =
     bnd (the_fs s) (\<lambda>fs. bnd (usub n 1) (\<lambda>k. udiv k (unat (sb_inodes_per_group (fs_superblock fs)))))"

definition get_table_index :: "usize \<Rightarrow> 'z ext2_state_scheme \<Rightarrow> usize res" where
  "get_table_index n s =
     bnd (the_fs s) (\<lambda>fs. bnd (usub n 1) (\<lambda>k. umod k (unat (sb_inodes_per_group (fs_superblock fs)))))"

text \<open>\<^verbatim>\<open>size_of::<Inode>()\<close> is 128.\<close>

definition get_inode ::
  "'z disk_hw \<Rightarrow> block_group \<Rightarrow> u32 \<Rightarrow> 'z ext2_state_scheme \<Rightarrow> (inode \<times> 'z ext2_state_scheme) res" where
  "get_inode hw bg inode_addr s =
     bnd (the_fs s) (\<lambda>fs.
     bnd (get_table_index (unat inode_addr) s) (\<lambda>inode_index.
     bnd (block_offset fs (unat (bg_inode_table (bg_raw bg))) (umul inode_index 128)) (\<lambda>offset.
     bnd (read_at hw offset 128 s) (\<lambda>(data, s).
       Inr ((inode_of data)\<lparr>inode_number := inode_addr\<rparr>, s)))))"

text \<open>
  The search for free bits of \<^verbatim>\<open>BlockGroup::alloc_block\<close>: the bitmap, the blocks found, the count of unallocated
  blocks. Leaving the loop early and running to its end give the same three.
\<close>

definition alloc_block_step ::
  "ext2_filesystem \<Rightarrow> usize \<Rightarrow> usize \<Rightarrow> nat \<Rightarrow> bitmap \<times> u32 list \<times> u16 \<Rightarrow>
     (bitmap \<times> u32 list \<times> u16, bitmap \<times> u32 list \<times> u16) flow res" where
  "alloc_block_step fs index block_cnt i = (\<lambda>(bm, blocks, unallocated).
     bnd (bitmap_is_set bm i) (\<lambda>set.
     if \<not> set then
       bnd (bitmap_set bm i) (\<lambda>bm.
       bnd (wmul (of_nat index) (sb_blocks_per_group (fs_superblock fs))) (\<lambda>base.
       bnd (wadd (of_nat i) base) (\<lambda>block.
       let blocks = blocks @ [block] in
       bnd (wsub unallocated 1) (\<lambda>unallocated.
         if length blocks = block_cnt then Inr (Return (bm, blocks, unallocated))
         else Inr (Continue (bm, blocks, unallocated))))))
     else Inr (Continue (bm, blocks, unallocated))))"

definition bg_alloc_block ::
  "'z disk_hw \<Rightarrow> block_group \<Rightarrow> usize \<Rightarrow> 'z ext2_state_scheme \<Rightarrow> (u32 list option \<times> block_group \<times> 'z ext2_state_scheme) res" where
  "bg_alloc_block hw bg block_cnt s =
     (if unat (bg_unallocated_blocks (bg_raw bg)) < block_cnt then Inr (None, bg, s)
      else
        bnd (the_fs s) (\<lambda>fs.
        bnd (bitmap_new (block_size fs) s) (\<lambda>(bm, s).
        bnd (block_offset fs (unat (bg_block_bitmap (bg_raw bg))) (Inr 0)) (\<lambda>offset.
        bnd (read_at hw offset (block_size fs) s) (\<lambda>(data, s).
        let bm = bm\<lparr>bm_data := data\<rparr> in
        bnd (umul (block_size fs) 8) (\<lambda>bits.
        bnd (for_loop 0 bits (alloc_block_step fs (bg_index bg) block_cnt) (bm, [], bg_unallocated_blocks (bg_raw bg))) (\<lambda>r.
        let (bm, blocks, unallocated) = (case r of Return x \<Rightarrow> x | Continue x \<Rightarrow> x);
            bg = bg\<lparr>bg_raw := (bg_raw bg)\<lparr>bg_unallocated_blocks := unallocated\<rparr>\<rparr> in
        if length blocks \<noteq> block_cnt then bnd (bitmap_drop bm s) (\<lambda>s. Inr (None, bg, s))
        else
          bnd (write_at hw offset (bm_data bm) s) (\<lambda>s.
          bnd (block_group_flush hw bg s) (\<lambda>s.
          bnd (bitmap_drop bm s) (\<lambda>s. Inr (Some blocks, bg, s)))))))))))"

definition bg_alloc_inode ::
  "'z disk_hw \<Rightarrow> block_group \<Rightarrow> 'z ext2_state_scheme \<Rightarrow> (u32 option \<times> block_group \<times> 'z ext2_state_scheme) res" where
  "bg_alloc_inode hw bg s =
     (if bg_unallocated_inodes (bg_raw bg) = 0 then Inr (None, bg, s)
      else
        bnd (the_fs s) (\<lambda>fs.
        bnd (bitmap_new (block_size fs) s) (\<lambda>(bm, s).
        bnd (block_offset fs (unat (bg_inode_bitmap (bg_raw bg))) (Inr 0)) (\<lambda>offset.
        bnd (read_at hw offset (block_size fs) s) (\<lambda>(data, s).
        let bm = bm\<lparr>bm_data := data\<rparr> in
        bnd (umul (block_size fs) 8) (\<lambda>bits.
        bnd (for_loop 0 bits (\<lambda>i (bm, bg, s).
          bnd (bitmap_is_set bm i) (\<lambda>set.
          if \<not> set then
            bnd (bitmap_set bm i) (\<lambda>bm.
            bnd (wsub (bg_unallocated_inodes (bg_raw bg)) 1) (\<lambda>unallocated.
            let bg = bg\<lparr>bg_raw := (bg_raw bg)\<lparr>bg_unallocated_inodes := unallocated\<rparr>\<rparr> in
            bnd (write_at hw offset (bm_data bm) s) (\<lambda>s.
            bnd (block_group_flush hw bg s) (\<lambda>s.
            bnd (uadd i 1) (\<lambda>k.
            bnd (umul (bg_index bg) (unat (sb_inodes_per_group (fs_superblock fs)))) (\<lambda>base.
            bnd (uadd k base) (\<lambda>n. Inr (Return (of_nat n, bm, bg, s)))))))))
          else Inr (Continue (bm, bg, s)))) (bm, bg, s)) (\<lambda>r.
        case r of
          Return (n, bm, bg, s) \<Rightarrow> bnd (bitmap_drop bm s) (\<lambda>s. Inr (Some n, bg, s))
        | Continue (bm, bg, s) \<Rightarrow> bnd (bitmap_drop bm s) (\<lambda>s. Inr (None, bg, s)))))))))"

section \<open>The allocator of the file system\<close>

definition ext2_alloc_block :: "'z disk_hw \<Rightarrow> ext2_filesystem \<Rightarrow> 'z ext2_state_scheme \<Rightarrow> (u32 option \<times> 'z ext2_state_scheme) res" where
  "ext2_alloc_block hw fs s =
     (if sb_unallocated_blocks (fs_superblock fs) = 0 then Inr (None, s)
      else bnd (for_loop 0 (block_group_cnt fs) (\<lambda>bg s.
             bnd (block_group_get hw bg s) (\<lambda>(block_group, s).
             bnd (bg_alloc_block hw block_group 1 s) (\<lambda>(r, block_group, s).
             case r of
               Some block_addr \<Rightarrow>
                 if length block_addr = 0 then Inl IndexOutOfBounds else Inr (Return (block_addr ! 0, s))
             | None \<Rightarrow> Inr (Continue s)))) s) (\<lambda>r.
           case r of Return (b, s) \<Rightarrow> Inr (Some b, s) | Continue s \<Rightarrow> Inr (None, s)))"

definition ext2_alloc_inode :: "'z disk_hw \<Rightarrow> ext2_filesystem \<Rightarrow> 'z ext2_state_scheme \<Rightarrow> (u32 option \<times> 'z ext2_state_scheme) res" where
  "ext2_alloc_inode hw fs s =
     (if sb_unallocated_inodes (fs_superblock fs) = 0 then Inr (None, s)
      else bnd (for_loop 0 (block_group_cnt fs) (\<lambda>bg s.
             bnd (block_group_get hw bg s) (\<lambda>(block_group, s).
             bnd (bg_alloc_inode hw block_group s) (\<lambda>(r, block_group, s).
             case r of
               Some inode_addr \<Rightarrow> Inr (Return (inode_addr, s))
             | None \<Rightarrow> Inr (Continue s)))) s) (\<lambda>r.
           case r of Return (n, s) \<Rightarrow> Inr (Some n, s) | Continue s \<Rightarrow> Inr (None, s)))"

section \<open>Inodes\<close>

definition is_directory :: "inode \<Rightarrow> bool" where
  "is_directory n = (type_and_permissions n AND FileType_DIRECTORY \<noteq> 0)"

definition is_regular_file :: "inode \<Rightarrow> bool" where
  "is_regular_file n = (type_and_permissions n AND FileType_NORMAL \<noteq> 0)"

definition is_symlink :: "inode \<Rightarrow> bool" where
  "is_symlink n = (type_and_permissions n AND FileType_SYMLINK \<noteq> 0)"

definition inode_flush :: "'z disk_hw \<Rightarrow> inode \<Rightarrow> 'z ext2_state_scheme \<Rightarrow> 'z ext2_state_scheme res" where
  "inode_flush hw n s =
     bnd (the_fs s) (\<lambda>fs.
     bnd (get_block_group (unat (inode_number n)) s) (\<lambda>g.
     bnd (block_group_get hw g s) (\<lambda>(bg, s).
     bnd (get_table_index (unat (inode_number n)) s) (\<lambda>inode_index.
     bnd (block_offset fs (unat (bg_inode_table (bg_raw bg))) (umul inode_index 128)) (\<lambda>offset.
       write_at hw offset (inode_bytes n) s)))))"

definition inode_get :: "'z disk_hw \<Rightarrow> u32 \<Rightarrow> 'z ext2_state_scheme \<Rightarrow> (inode \<times> 'z ext2_state_scheme) res" where
  "inode_get hw inode_addr s =
     bnd (get_block_group (unat inode_addr) s) (\<lambda>inode_block_group.
     bnd (block_group_get hw inode_block_group s) (\<lambda>(block_group, s).
       get_inode hw block_group inode_addr s))"

text \<open>The address at position \<open>i\<close> of an indirect block.\<close>

definition read_address :: "'z disk_hw \<Rightarrow> ext2_filesystem \<Rightarrow> u32 \<Rightarrow> usize \<Rightarrow> 'z ext2_state_scheme \<Rightarrow> (u32 \<times> 'z ext2_state_scheme) res" where
  "read_address hw fs block i s =
     bnd (block_offset fs (unat block) (umul i 4)) (\<lambda>offset.
     bnd (read_at hw offset 4 s) (\<lambda>(data, s). Inr (of_le data, s)))"

definition write_address ::
  "'z disk_hw \<Rightarrow> ext2_filesystem \<Rightarrow> u32 \<Rightarrow> usize \<Rightarrow> u32 \<Rightarrow> 'z ext2_state_scheme \<Rightarrow> 'z ext2_state_scheme res" where
  "write_address hw fs block i address s =
     bnd (block_offset fs (unat block) (umul i 4)) (\<lambda>offset. write_at hw offset (to_le 4 address) s)"

definition get_block_address ::
  "'z disk_hw \<Rightarrow> inode \<Rightarrow> usize \<Rightarrow> 'z ext2_state_scheme \<Rightarrow> (u32 \<times> 'z ext2_state_scheme) res" where
  "get_block_address hw n block_index s =
     bnd (the_fs s) (\<lambda>fs.
     if block_index < 12 then
       if block_index < length (direct_pointer n) then Inr (direct_pointer n ! block_index, s) else Inl IndexOutOfBounds
     else
       let addresses_per_block = block_size fs div 4;
           block_index = block_index - 12 in
       if block_index < addresses_per_block then read_address hw fs (singly_ip n) block_index s
       else
         let block_index = block_index - addresses_per_block in
         bnd (umul addresses_per_block addresses_per_block) (\<lambda>square.
         if block_index < square then
           bnd (udiv block_index addresses_per_block) (\<lambda>q.
           bnd (read_address hw fs (doubly_ip n) q s) (\<lambda>(indirect, s).
           bnd (umod block_index addresses_per_block) (\<lambda>r.
             read_address hw fs indirect r s)))
         else
           let block_index = block_index - square in
           bnd (umod block_index square) (\<lambda>base.
           bnd (udiv block_index square) (\<lambda>q.
           bnd (read_address hw fs (triply_ip n) q s) (\<lambda>(indirect1, s).
           bnd (read_address hw fs indirect1 (base div 1024) s) (\<lambda>(indirect2, s).
             read_address hw fs indirect2 (base mod 1024) s))))))"

definition alloc_or_panic :: "'z disk_hw \<Rightarrow> ext2_filesystem \<Rightarrow> 'z ext2_state_scheme \<Rightarrow> (u32 \<times> 'z ext2_state_scheme) res" where
  "alloc_or_panic hw fs s =
     bnd (ext2_alloc_block hw fs s) (\<lambda>(r, s).
     bnd (expect ''[EXT2] Could not allocate a new block'' r) (\<lambda>b. Inr (b, s)))"

definition set_block_address ::
  "'z disk_hw \<Rightarrow> inode \<Rightarrow> usize \<Rightarrow> u32 \<Rightarrow> 'z ext2_state_scheme \<Rightarrow> (inode \<times> 'z ext2_state_scheme) res" where
  "set_block_address hw n block_index block_address s =
     bnd (the_fs s) (\<lambda>fs.
     if block_index < 12 then
       if block_index < length (direct_pointer n) then
         let n = n\<lparr>direct_pointer := (direct_pointer n)[block_index := block_address]\<rparr> in
         bnd (inode_flush hw n s) (\<lambda>s. Inr (n, s))
       else Inl IndexOutOfBounds
     else
       let addresses_per_block = block_size fs div 4;
           block_index = block_index - 12 in
       if block_index < addresses_per_block then
         bnd (if singly_ip n = 0 then
                bnd (alloc_or_panic hw fs s) (\<lambda>(b, s).
                let n = n\<lparr>singly_ip := b\<rparr> in
                bnd (inode_flush hw n s) (\<lambda>s. Inr (n, s)))
              else Inr (n, s)) (\<lambda>(n, s).
         bnd (write_address hw fs (singly_ip n) block_index block_address s) (\<lambda>s. Inr (n, s)))
       else
         let block_index = block_index - addresses_per_block in
         bnd (umul addresses_per_block addresses_per_block) (\<lambda>square.
         if block_index < square then
           bnd (udiv block_index addresses_per_block) (\<lambda>q.
           bnd (if doubly_ip n = 0 then
                  bnd (alloc_or_panic hw fs s) (\<lambda>(b, s).
                  let n = n\<lparr>doubly_ip := b\<rparr> in
                  bnd (inode_flush hw n s) (\<lambda>s.
                  bnd (alloc_or_panic hw fs s) (\<lambda>(indirect, s).
                  bnd (write_address hw fs (doubly_ip n) q indirect s) (\<lambda>s. Inr (indirect, n, s)))))
                else bnd (read_address hw fs (doubly_ip n) q s) (\<lambda>(indirect, s). Inr (indirect, n, s))) (\<lambda>(indirect, n, s).
           bnd (umod block_index addresses_per_block) (\<lambda>r.
           bnd (write_address hw fs indirect r block_address s) (\<lambda>s. Inr (n, s)))))
         else Inr (n, s)))"

definition resize :: "'z disk_hw \<Rightarrow> inode \<Rightarrow> usize \<Rightarrow> 'z ext2_state_scheme \<Rightarrow> (inode \<times> 'z ext2_state_scheme) res" where
  "resize hw n new_size s =
     (if new_size = unat (sizel n) then Inr (n, s)
      else
        bnd (the_fs s) (\<lambda>fs.
        bnd (div_ceil new_size (block_size fs)) (\<lambda>new_block_cnt.
        bnd (div_ceil (unat (sizel n)) (block_size fs)) (\<lambda>old_block_cnt.
        if new_block_cnt = old_block_cnt then Inr (n, s)
        else
          bnd (if new_block_cnt > old_block_cnt then
                 for_each old_block_cnt new_block_cnt (\<lambda>i (n, s).
                   bnd (alloc_or_panic hw fs s) (\<lambda>(new_block, s). set_block_address hw n i new_block s)) (n, s)
               else Inr (n, s)) (\<lambda>(n, s).
          bnd (umul new_block_cnt (block_size fs)) (\<lambda>total.
          let n = n\<lparr>sizel := of_nat new_size, sectors_used := of_nat (total div 512)\<rparr> in
          bnd (inode_flush hw n s) (\<lambda>s. Inr (n, s))))))))"

text \<open>The number of bytes that one round of the loops of \<^verbatim>\<open>Inode::read\<close> and \<^verbatim>\<open>Inode::write\<close> moves.\<close>

definition round_count :: "ext2_filesystem \<Rightarrow> usize \<Rightarrow> usize \<Rightarrow> usize res" where
  "round_count fs bytes bytes_done =
     bnd (uadd bytes_done (block_size fs)) (\<lambda>t. if t \<le> bytes then Inr (block_size fs) else umod bytes (block_size fs))"

function inode_read_loop ::
  "'z disk_hw \<Rightarrow> ext2_filesystem \<Rightarrow> inode \<Rightarrow> usize \<Rightarrow> usize \<Rightarrow> u64 \<Rightarrow> usize \<Rightarrow> usize \<Rightarrow> 'z ext2_state_scheme \<Rightarrow>
     (usize rust_result \<times> 'z ext2_state_scheme) res" where
  "inode_read_loop hw fs n offset bytes buffer bytes_read blocks_read s =
     (if bytes_read < bytes then
        bnd (bnd (udiv offset (block_size fs)) (\<lambda>b. uadd b blocks_read)) (\<lambda>b.
        bnd (get_block_address hw n b s) (\<lambda>(block_address, s).
        bnd (round_count fs bytes bytes_read) (\<lambda>count.
        bnd (block_offset fs (unat block_address) (Inr offset)) (\<lambda>disk_offset.
        bnd (ahci_read hw 0 (of_nat disk_offset) count buffer s) (\<lambda>(r, s).
        case r of
          Inl e \<Rightarrow> Inr (Inl e, s)
        | Inr bc \<Rightarrow>
            inode_read_loop hw fs n offset bytes buffer (bytes_read + count) (blocks_read + 1) s)))))
      else Inr (Inr bytes_read, s))"
  by pat_completeness auto
termination
proof (relation "measure (\<lambda>(hw, fs, n, offset, bytes, buffer, bytes_read, blocks_read, s). bytes - bytes_read)", goal_cases)
  case (2 hw fs n offset bytes buffer bytes_read blocks_read s b x y s' count disk_offset z r t bc)
  then have "count \<noteq> 0" using ahci_zero_bytes(2) by metis
  then show ?case using 2(1) by simp
qed simp

definition inode_read ::
  "'z disk_hw \<Rightarrow> inode \<Rightarrow> usize \<Rightarrow> usize \<Rightarrow> u64 \<Rightarrow> 'z ext2_state_scheme \<Rightarrow> (usize rust_result \<times> 'z ext2_state_scheme) res" where
  "inode_read hw n offset bytes buffer s = bnd (the_fs s) (\<lambda>fs. inode_read_loop hw fs n offset bytes buffer 0 0 s)"

function inode_write_loop ::
  "'z disk_hw \<Rightarrow> ext2_filesystem \<Rightarrow> inode \<Rightarrow> usize \<Rightarrow> usize \<Rightarrow> u64 \<Rightarrow> usize \<Rightarrow> usize \<Rightarrow> 'z ext2_state_scheme \<Rightarrow>
     (usize rust_result \<times> 'z ext2_state_scheme) res" where
  "inode_write_loop hw fs n offset bytes buffer bytes_written blocks_written s =
     (if bytes_written < bytes then
        bnd (bnd (udiv offset (block_size fs)) (\<lambda>b. uadd b blocks_written)) (\<lambda>b.
        bnd (get_block_address hw n b s) (\<lambda>(block_address, s).
        bnd (round_count fs bytes bytes_written) (\<lambda>count.
        bnd (block_offset fs (unat block_address) (Inr offset)) (\<lambda>disk_offset.
        bnd (ahci_write hw 0 (of_nat disk_offset) count buffer s) (\<lambda>(r, s).
        case r of
          Inl e \<Rightarrow> Inr (Inl e, s)
        | Inr bc \<Rightarrow>
            inode_write_loop hw fs n offset bytes buffer (bytes_written + count) (blocks_written + 1) s)))))
      else Inr (Inr bytes_written, s))"
  by pat_completeness auto
termination
proof (relation "measure (\<lambda>(hw, fs, n, offset, bytes, buffer, bytes_written, blocks_written, s). bytes - bytes_written)", goal_cases)
  case (2 hw fs n offset bytes buffer bytes_written blocks_written s b x y s' count disk_offset z r t bc)
  then have "count \<noteq> 0" using ahci_zero_bytes(4) by metis
  then show ?case using 2(1) by simp
qed simp

declare inode_read_loop.simps [simp del] inode_write_loop.simps [simp del]

definition inode_write ::
  "'z disk_hw \<Rightarrow> inode \<Rightarrow> usize \<Rightarrow> usize \<Rightarrow> u64 \<Rightarrow> 'z ext2_state_scheme \<Rightarrow>
     (usize rust_result \<times> inode \<times> 'z ext2_state_scheme) res" where
  "inode_write hw n offset bytes buffer s =
     bnd (the_fs s) (\<lambda>fs.
     bnd (uadd offset bytes) (\<lambda>new_size.
     bnd (resize hw n new_size s) (\<lambda>(n, s).
     bnd (inode_write_loop hw fs n offset bytes buffer 0 0 s) (\<lambda>(r, s). Inr (r, n, s)))))"

section \<open>Directories\<close>

text \<open>The fields of the directory entry at an address; its name starts at byte 8.\<close>

record directory_entry =
  de_inode :: u32
  entry_size :: u16
  name_length :: u8
  ti_or_length :: u8

definition entry_at :: "memory \<Rightarrow> u64 \<Rightarrow> directory_entry" where
  "entry_at m p = \<lparr>de_inode = of_le (load_bytes m (direct p) 4), entry_size = of_le (load_bytes m (direct (p + 4)) 2),
     name_length = m (direct (p + 6)), ti_or_length = m (direct (p + 7))\<rparr>"

definition entry_name_at :: "memory \<Rightarrow> u64 \<Rightarrow> usize \<Rightarrow> u8 list" where
  "entry_name_at m p n = load_bytes m (direct (p + 8)) n"

definition as_bytes :: "string \<Rightarrow> u8 list" where
  "as_bytes name = map of_char name"

text \<open>The walk over the entries in the buffer. It may go on for ever, at an entry of size 0.\<close>

partial_function (option) search_loop :: "memory \<Rightarrow> u64 \<Rightarrow> u32 \<Rightarrow> string \<Rightarrow> u32 \<Rightarrow> u32 option res option" where
  "search_loop m buffer sz name i =
     (if i < sz then
        let p = buffer + ucast i;
            curr_entry = entry_at m p in
        if unat i + unat (entry_size curr_entry) < 2 ^ 32 then
          let i = i + ucast (entry_size curr_entry) in
          if de_inode curr_entry = 0 \<or> unat (name_length curr_entry) \<noteq> length name then search_loop m buffer sz name i
          else if entry_name_at m p (unat (name_length curr_entry)) = as_bytes name then Some (Inr (Some (de_inode curr_entry)))
          else search_loop m buffer sz name i
        else Some (Inl Overflow)
      else Some (Inr None))"

definition search :: "'z disk_hw \<Rightarrow> inode \<Rightarrow> string \<Rightarrow> 'z ext2_state_scheme \<Rightarrow> (u32 option \<times> 'z ext2_state_scheme) res" where
  "search hw n name s =
     (if \<not> is_directory n then Inr (None, s)
      else
        bnd (pmm_box_new (unat (sizel n)) s) (\<lambda>(entries_buffer, s).
        bnd (inode_read hw n 0 (unat (sizel n)) (box_data entries_buffer) s) (\<lambda>(r, s).
        bnd (unwrap_ok r) (\<lambda>_.
        case search_loop (mem s) (box_data entries_buffer) (sizel n) name 0 of
          None \<Rightarrow> Inl Hangs
        | Some result \<Rightarrow> bnd result (\<lambda>result. bnd (pmm_box_drop entries_buffer s) (\<lambda>s. Inr (result, s)))))))"

text \<open>The place for a new entry: the offset of the entry to split, its true size and the empty space behind it.\<close>

partial_function (option) space_loop ::
  "memory \<Rightarrow> u64 \<Rightarrow> u32 \<Rightarrow> string \<Rightarrow> u32 \<Rightarrow> (u32 \<times> usize \<times> usize) option res option" where
  "space_loop m buffer sz name i =
     (if i < sz then
        let curr_entry = entry_at m (buffer + ucast i) in
        case round_up (8 + unat (name_length curr_entry)) 4 of
          Inl e \<Rightarrow> Some (Inl e)
        | Inr true_size \<Rightarrow>
            if unat (entry_size curr_entry) > true_size then
              let empty_space = unat (entry_size curr_entry) - true_size in
              (case round_up (8 + length name) 4 of
                 Inl e \<Rightarrow> Some (Inl e)
               | Inr space_needed \<Rightarrow>
                   if empty_space < space_needed then
                     if unat i + unat (entry_size curr_entry) < 2 ^ 32
                     then space_loop m buffer sz name (i + ucast (entry_size curr_entry)) else Some (Inl Overflow)
                   else Some (Inr (Some (i, true_size, empty_space))))
            else if unat i + unat (entry_size curr_entry) < 2 ^ 32
              then space_loop m buffer sz name (i + ucast (entry_size curr_entry)) else Some (Inl Overflow)
      else Some (Inr None))"

text \<open>The new entry, in the space behind the entry at \<open>i\<close>.\<close>

definition split_entry :: "u64 \<Rightarrow> u32 \<Rightarrow> usize \<Rightarrow> usize \<Rightarrow> u32 \<Rightarrow> string \<Rightarrow> memory \<Rightarrow> memory" where
  "split_entry buffer i true_size empty_space n name m =
     (let curr = buffer + ucast i;
          new_entry = buffer + of_nat (unat i + true_size);
          m = store_bytes m (direct (curr + 4)) (to_le 2 (of_nat true_size :: u16));
          m = store_bytes m (direct (new_entry + 6)) [of_nat (length name)];
          m = store_bytes m (direct new_entry) (to_le 4 n);
          m = store_bytes m (direct (new_entry + 4)) (to_le 2 (of_nat empty_space :: u16));
          m = store_bytes m (direct (new_entry + 7)) [1] in
      store_bytes m (direct (new_entry + 8)) (as_bytes name))"

definition add_entry ::
  "'z disk_hw \<Rightarrow> inode \<Rightarrow> u32 \<Rightarrow> string \<Rightarrow> 'z ext2_state_scheme \<Rightarrow> (unit rust_result \<times> inode \<times> 'z ext2_state_scheme) res" where
  "add_entry hw dir n name s =
     (if \<not> is_directory dir then Inr (Inl (), dir, s)
      else
        bnd (pmm_box_new (unat (sizel dir)) s) (\<lambda>(entries_buffer, s).
        bnd (inode_read hw dir 0 (unat (sizel dir)) (box_data entries_buffer) s) (\<lambda>(r, s).
        bnd (unwrap_ok r) (\<lambda>_.
        case space_loop (mem s) (box_data entries_buffer) (sizel dir) name 0 of
          None \<Rightarrow> Inl Hangs
        | Some result \<Rightarrow> bnd result (\<lambda>place. case place of
            Some (i, true_size, empty_space) \<Rightarrow>
              let s = s\<lparr>mem := split_entry (box_data entries_buffer) i true_size empty_space n name (mem s)\<rparr> in
              bnd (inode_write hw dir 0 (unat (sizel dir)) (box_data entries_buffer) s) (\<lambda>(r, dir, s).
              bnd (unwrap_ok r) (\<lambda>_.
              bnd (pmm_box_drop entries_buffer s) (\<lambda>s. Inr (Inr (), dir, s))))
          | None \<Rightarrow> bnd (pmm_box_drop entries_buffer s) (\<lambda>s. Inr (Inl (), dir, s)))))))"

section \<open>The file system\<close>

text \<open>\<^verbatim>\<open>1024 << n\<close> on \<^verbatim>\<open>usize\<close>: a shift by 64 or more panics.\<close>

definition ext2_new :: "u64 \<Rightarrow> superblock \<Rightarrow> ext2_filesystem res" where
  "ext2_new lba sb =
     bnd (if unat (sb_block_size sb) < 64 then Inr (1024 * 2 ^ unat (sb_block_size sb) mod usize_limit) else Inl Overflow) (\<lambda>bs.
     bnd (div_ceil (unat (sb_block_cnt sb)) (unat (sb_blocks_per_group sb))) (\<lambda>groups.
       Inr \<lparr>fs_superblock = sb, block_size = bs, block_group_cnt = groups, starting_lba = unat lba\<rparr>))"

text \<open>The reference to the one ext2 file system that \<^verbatim>\<open>EXT2_FS\<close> holds.\<close>

definition EXT2_FS_REF :: fs_ref where "EXT2_FS_REF = 0"

definition new_fd :: "inode \<Rightarrow> u32 \<Rightarrow> 'z ext2_state_scheme \<Rightarrow> (file_description option \<times> 'z ext2_state_scheme) res" where
  "new_fd n flags s =
     (case List.find (\<lambda>i. inode_table s ! i = None) [0..<length (inode_table s)] of
        None \<Rightarrow> Inr (None, s)
      | Some i \<Rightarrow>
          let s = s\<lparr>inode_table := (inode_table s)[i := Some n]\<rparr> in
          bnd (the_fs s) (\<lambda>_. Inr (Some (file_description_new i flags EXT2_FS_REF), s)))"

text \<open>\<^verbatim>\<open>str::split\<close> at a character.\<close>

fun split_at :: "char \<Rightarrow> string \<Rightarrow> string list" where
  "split_at c [] = [[]]"
| "split_at c (x # xs) =
     (if x = c then [] # split_at c xs
      else case split_at c xs of [] \<Rightarrow> [[x]] | w # ws \<Rightarrow> (x # w) # ws)"

text \<open>The loop of \<^verbatim>\<open>open\<close> over the rest of the path; the last fragment is the one with nothing behind it.\<close>

fun open_loop ::
  "bitflags_api \<Rightarrow> 'z disk_hw \<Rightarrow> ext2_filesystem \<Rightarrow> u32 \<Rightarrow> inode \<Rightarrow> string list \<Rightarrow> 'z ext2_state_scheme \<Rightarrow>
     (file_description option \<times> 'z ext2_state_scheme) res" where
  "open_loop fl hw fs flags current_dir [] s = Inr (None, s)"
| "open_loop fl hw fs flags current_dir (path_fragment # rest) s =
     (if path_fragment = [] then open_loop fl hw fs flags current_dir rest s
      else
        bnd (search hw current_dir path_fragment s) (\<lambda>(r, s). case r of
          Some inode_addr \<Rightarrow>
            bnd (inode_get hw inode_addr s) (\<lambda>(entry_inode, s).
            if rest = [] then new_fd entry_inode flags s
            else if \<not> is_directory entry_inode then Inr (None, s)
            else open_loop fl hw fs flags entry_inode rest s)
        | None \<Rightarrow>
            if rest = [] \<and> fl_contains fl (ucast flags) (ucast O_CREAT) then
              bnd (ext2_alloc_inode hw fs s) (\<lambda>(r, s).
              bnd (expect ''[EXT2] Could not allocate a new inode'' r) (\<lambda>new_inode_addr.
              bnd (inode_get hw new_inode_addr s) (\<lambda>(new_inode, s).
              let new_inode = new_inode\<lparr>type_and_permissions := 0x81ed, ref_cnt := 1\<rparr> in
              bnd (inode_flush hw new_inode s) (\<lambda>s.
              bnd (add_entry hw current_dir new_inode_addr path_fragment s) (\<lambda>(r, current_dir, s).
              bnd (unwrap_ok r) (\<lambda>_.
                new_fd new_inode flags s))))))
            else Inr (None, s)))"

definition ext2_open ::
  "bitflags_api \<Rightarrow> 'z disk_hw \<Rightarrow> ext2_filesystem \<Rightarrow> string \<Rightarrow> u32 \<Rightarrow> u32 \<Rightarrow> 'z ext2_state_scheme \<Rightarrow>
     (file_description option \<times> 'z ext2_state_scheme) res" where
  "ext2_open fl hw fs path flags mode s =
     bnd (inode_get hw ROOT_DIR_INODE s) (\<lambda>(root_dir, s).
       open_loop fl hw fs flags root_dir (split_at (CHR ''/'') path) s)"

definition ext2_mkdir :: "string \<Rightarrow> u32 \<Rightarrow> 'z ext2_state_scheme \<Rightarrow> (file_description option \<times> 'z ext2_state_scheme) res" where
  "ext2_mkdir path mode s = Inl (Panicked ''not yet implemented'')"

definition ext2_read :: "'z disk_hw \<Rightarrow> usize \<Rightarrow> u64 \<Rightarrow> usize \<Rightarrow> usize \<Rightarrow> 'z ext2_state_scheme \<Rightarrow> (usize \<times> 'z ext2_state_scheme) res" where
  "ext2_read hw index buffer cnt offset s =
     (if index \<ge> length (inode_table s) then Inl IndexOutOfBounds
      else case inode_table s ! index of
        Some n \<Rightarrow> bnd (inode_read hw n offset cnt buffer s) (\<lambda>(r, s). bnd (unwrap_ok r) (\<lambda>k. Inr (k, s)))
      | None \<Rightarrow> Inr (0, s))"

definition ext2_write :: "'z disk_hw \<Rightarrow> usize \<Rightarrow> u64 \<Rightarrow> usize \<Rightarrow> usize \<Rightarrow> 'z ext2_state_scheme \<Rightarrow> (usize \<times> 'z ext2_state_scheme) res" where
  "ext2_write hw index buffer cnt offset s =
     (if index \<ge> length (inode_table s) then Inl IndexOutOfBounds
      else case inode_table s ! index of
        Some n \<Rightarrow> bnd (inode_write hw n offset cnt buffer s) (\<lambda>(r, n, s).
                  bnd (unwrap_ok r) (\<lambda>k. Inr (k, s\<lparr>inode_table := (inode_table s)[index := Some n]\<rparr>)))
      | None \<Rightarrow> Inr (0, s))"

definition ext2_ops :: "bitflags_api \<Rightarrow> 'z disk_hw \<Rightarrow> ext2_filesystem \<Rightarrow> 'z ext2_state_scheme filesystem" where
  "ext2_ops fl hw fs = \<lparr>fs_open = ext2_open fl hw fs, fs_mkdir = ext2_mkdir, fs_read = ext2_read hw, fs_write = ext2_write hw\<rparr>"

text \<open>
  Printing the block size shifts an \<^verbatim>\<open>i32\<close>, which panics for 32 bits or more.
\<close>

definition try_and_init :: "'z disk_hw \<Rightarrow> u64 \<Rightarrow> 'z ext2_state_scheme \<Rightarrow> (unit rust_result \<times> 'z ext2_state_scheme) res" where
  "try_and_init hw lba s =
     bnd (wadd lba 2) (\<lambda>l.
     bnd (wmul l 512) (\<lambda>offset.
     bnd (ahci_fetch hw 0 offset 84 s) (\<lambda>(r, s).
     case r of
       Inl e \<Rightarrow> Inr (Inl e, s)
     | Inr (bc, data) \<Rightarrow>
         let sb = superblock_of data in
         if sb_signature sb \<noteq> EXT2_SIGNATURE then Inr (Inl (), s)
         else if unat (sb_block_size sb) \<ge> 32 then Inl Overflow
         else bnd (ext2_new lba sb) (\<lambda>fs. Inr (Inr (), s\<lparr>ext2_fs := Some fs\<rparr>)))))"

definition ext2_get :: "'z ext2_state_scheme \<Rightarrow> ext2_filesystem res" where
  "ext2_get s = the_fs s"

end
