(* ===== verification/Block_Device.thy ===== *)
theory Block_Device
  imports Phys_Memory
begin

text \<open>
  The interface between a disk and the file system on it. A block device gives its bytes on request and replaces them on
  request; a record codec lays a structure out as bytes. What a client of both may rely on is proved here once: a structure that is stored
  is read back, and storing at one place leaves structures at other places alone.
\<close>

section \<open>Bytes of a device\<close>

definition bytes_at :: "(nat \<Rightarrow> u8) \<Rightarrow> nat \<Rightarrow> nat \<Rightarrow> u8 list" where
  "bytes_at c a n = map c [a..<a + n]"

definition put_bytes :: "nat \<Rightarrow> u8 list \<Rightarrow> (nat \<Rightarrow> u8) \<Rightarrow> nat \<Rightarrow> u8" where
  "put_bytes a bs c = (\<lambda>x. if a \<le> x \<and> x < a + length bs then bs ! (x - a) else c x)"

lemma length_bytes_at [simp]: "length (bytes_at c a n) = n"
  by (simp add: bytes_at_def)

lemma nth_bytes_at [simp]: "i < n \<Longrightarrow> bytes_at c a n ! i = c (a + i)"
  by (simp add: bytes_at_def)

lemma take_drop_bytes_at: "k + m \<le> n \<Longrightarrow> take m (drop k (bytes_at c a n)) = bytes_at c (a + k) m"
  by (rule nth_equalityI) (simp_all add: add.assoc)

lemma bytes_at_put [simp]: "bytes_at (put_bytes a bs c) a (length bs) = bs"
  by (rule nth_equalityI) (simp_all add: put_bytes_def)

lemma bytes_at_put_apart:
  "a + length bs \<le> b \<or> b + n \<le> a \<Longrightarrow> bytes_at (put_bytes a bs c) b n = bytes_at c b n"
  by (rule nth_equalityI) (auto simp: put_bytes_def)

lemma put_bytes_same: "put_bytes a (bytes_at c a n) c = c"
  by (rule ext) (auto simp: put_bytes_def)

section \<open>Interfaces\<close>

locale block_device =
  fixes fetch :: "nat \<Rightarrow> nat \<Rightarrow> 's \<Rightarrow> (u8 list \<times> 's) res"
    and store :: "nat \<Rightarrow> u8 list \<Rightarrow> 's \<Rightarrow> 's res"
    and content :: "'s \<Rightarrow> nat \<Rightarrow> u8"
    and ready :: "'s \<Rightarrow> bool"
    and fits :: "nat \<Rightarrow> nat \<Rightarrow> bool"
    and same :: "'s \<Rightarrow> 's \<Rightarrow> bool"
  assumes fetch_ok: "\<lbrakk>ready s; fits a n\<rbrakk> \<Longrightarrow>
      \<exists>s'. fetch a n s = Inr (bytes_at (content s) a n, s') \<and> ready s' \<and> same s s' \<and> content s' = content s"
    and store_ok: "\<lbrakk>ready s; fits a (length bs)\<rbrakk> \<Longrightarrow>
      \<exists>s'. store a bs s = Inr s' \<and> ready s' \<and> same s s' \<and> content s' = put_bytes a bs (content s)"
    and same_trans: "same s t \<Longrightarrow> same t u \<Longrightarrow> same s u"
begin

lemma store_fetch:
  assumes "ready s" "fits a (length bs)"
  shows "\<exists>s1 s2. store a bs s = Inr s1 \<and> fetch a (length bs) s1 = Inr (bs, s2) \<and> ready s2 \<and> same s s2
    \<and> content s2 = put_bytes a bs (content s)"
proof -
  from store_ok[OF assms] obtain s1 where s1: "store a bs s = Inr s1" "ready s1" "same s s1"
    "content s1 = put_bytes a bs (content s)" by blast
  from fetch_ok[OF s1(2) assms(2)] obtain s2 where "fetch a (length bs) s1 = Inr (bs, s2)" "ready s2" "same s1 s2"
    "content s2 = content s1" using s1(4) by auto
  then show ?thesis using s1 same_trans by metis
qed

lemma store_fetch_apart:
  assumes "ready s" "fits a (length bs)" "fits b n" and "a + length bs \<le> b \<or> b + n \<le> a"
  shows "\<exists>s1 s2. store a bs s = Inr s1 \<and> fetch b n s1 = Inr (bytes_at (content s) b n, s2) \<and> ready s2 \<and> same s s2
    \<and> content s2 = put_bytes a bs (content s)"
proof -
  from store_ok[OF assms(1,2)] obtain s1 where s1: "store a bs s = Inr s1" "ready s1" "same s s1"
    "content s1 = put_bytes a bs (content s)" by blast
  from fetch_ok[OF s1(2) assms(3)] obtain s2 where "fetch b n s1 = Inr (bytes_at (content s) b n, s2)" "ready s2" "same s1 s2"
    "content s2 = content s1" using s1(4) bytes_at_put_apart[OF assms(4)] by auto
  then show ?thesis using s1 same_trans by metis
qed

end

locale record_codec =
  fixes enc :: "'r \<Rightarrow> u8 list" and dec :: "u8 list \<Rightarrow> 'r" and sz :: nat and wf :: "'r \<Rightarrow> bool"
  assumes dec_enc: "wf r \<Longrightarrow> dec (enc r) = r"
    and length_enc: "wf r \<Longrightarrow> length (enc r) = sz"
begin

lemma enc_inject: "wf r \<Longrightarrow> wf r' \<Longrightarrow> enc r = enc r' \<longleftrightarrow> r = r'"
  by (metis dec_enc)

end

text \<open>Structures on a device.\<close>

locale disk_record = block_device fetch store content ready fits same + record_codec enc dec sz wf
  for fetch :: "nat \<Rightarrow> nat \<Rightarrow> 's \<Rightarrow> (u8 list \<times> 's) res" and store content ready fits same
    and enc :: "'r \<Rightarrow> u8 list" and dec sz wf
begin

lemma store_record:
  assumes "ready s" "wf r" "fits a sz"
  shows "\<exists>s'. store a (enc r) s = Inr s' \<and> ready s' \<and> same s s' \<and> content s' = put_bytes a (enc r) (content s)
    \<and> bytes_at (content s') a sz = enc r"
proof -
  from store_ok[OF assms(1), of a "enc r"] length_enc[OF assms(2)] assms(3) obtain s' where
    s': "store a (enc r) s = Inr s'" "ready s'" "same s s'" "content s' = put_bytes a (enc r) (content s)" by auto
  moreover have "bytes_at (content s') a sz = enc r"
    using bytes_at_put[of a "enc r" "content s"] length_enc[OF assms(2)] s'(4) by simp
  ultimately show ?thesis by blast
qed

lemma fetch_record:
  assumes "ready s" "wf r" "fits a sz" "bytes_at (content s) a sz = enc r"
  shows "\<exists>data s'. fetch a sz s = Inr (data, s') \<and> dec data = r \<and> ready s' \<and> same s s' \<and> content s' = content s"
  using fetch_ok[OF assms(1,3)] assms(2,4) dec_enc by auto

end

end
