(* ===== verification/Ahci_Disk.thy ===== *)
theory Ahci_Disk
  imports Ahci Block_Device
begin

text \<open>
  What the driver of \<^verbatim>\<open>drivers/ahci.rs\<close> achieves on a controller that serves its commands. \<open>hba_serves\<close> is the documented
  behaviour of the controller that the driver relies on: a command issued in a slot is executed after finitely many observations, without an error, by
  moving the sectors between the disk and the buffer that the command header and table describe.
\<close>

section \<open>The controller\<close>

record ata_command =
  ac_write :: bool
  ac_lba :: nat
  ac_sectors :: nat
  ac_buffer :: u64
  ac_bytes :: nat

definition decode_command :: "command_header \<Rightarrow> command_table \<Rightarrow> ata_command" where
  "decode_command h t =
     (let f = cmd_fis t; d = prdt_entry t in
      \<lparr>ac_write = bit (cfl_awp h) 6,
       ac_lba = unat (ucast (lba0 f) OR push_bit 8 (ucast (lba1 f)) OR push_bit 16 (ucast (lba2 f))
         OR push_bit 24 (ucast (lba3 f)) OR push_bit 32 (ucast (lba4 f)) OR push_bit 40 (ucast (lba5 f)) :: u64),
       ac_sectors = unat (ucast (countl f) OR push_bit 8 (ucast (counth f)) :: u16),
       ac_buffer = ucast (data_lower d) OR push_bit 32 (ucast (data_upper d)),
       ac_bytes = unat (bc_i d AND mask 22) + 1\<rparr>)"

definition run_command :: "nat \<Rightarrow> ata_command \<Rightarrow> 'z ahci_state_scheme \<Rightarrow> 'z ahci_state_scheme" where
  "run_command p c s =
     (let start = ac_lba c * 512; n = min (ac_sectors c * 512) (ac_bytes c) in
      if ac_write c
      then s\<lparr>disk := (disk s)(p := \<lambda>x. if start \<le> x \<and> x < start + n
                                     then mem s (ac_buffer c + of_nat (x - start)) else disk s p x)\<rparr>
      else s\<lparr>mem := store_bytes (mem s) (ac_buffer c) (map (disk s p) [start..<start + n])\<rparr>)"

definition complete :: "nat \<Rightarrow> nat \<Rightarrow> u64 \<Rightarrow> u64 \<Rightarrow> 'z ahci_state_scheme \<Rightarrow> 'z ahci_state_scheme" where
  "complete p slot hdr tbl s =
     (let c = decode_command (headers s hdr) (tables s tbl); s = run_command p c s in
      set_header hdr (\<lambda>h. h\<lparr>prdbc := of_nat (min (ac_sectors c * 512) (ac_bytes c))\<rparr>)
        (s\<lparr>ports := (ports s)(p := (ports s p)\<lparr>ci := ci (ports s p) AND NOT (push_bit slot 1)\<rparr>)\<rparr>))"

definition hba_serves :: "(nat \<Rightarrow> 'z ahci_state_scheme \<Rightarrow> 'z ahci_state_scheme) \<Rightarrow> bool" where
  "hba_serves hw \<longleftrightarrow> (\<forall>s p slot hdr tbl. slot < 32 \<and> ci (ports s p) = push_bit slot 1
       \<and> get_command_header (ports s p) slot = Inr hdr \<and> get_command_table (headers s hdr) = Inr tbl \<longrightarrow>
     (\<exists>n. (\<forall>k \<in> {1..n}. bit (ci (ports ((hw p ^^ k) s) p)) slot
              \<and> \<not> bit (interrupt_status (ports ((hw p ^^ k) s) p)) 30)
        \<and> (hw p ^^ Suc n) s = complete p slot hdr tbl s))"

lemma poll_unfold:
  assumes "slot < 32"
  shows "poll hw p slot s =
     (if bit (ci (ports (hw p s) p)) slot
      then if bit (interrupt_status (ports (hw p s) p)) 30 then Some (Inl (hw p s)) else poll hw p slot (hw p s)
      else Some (Inr (hw p s)))"
proof -
  have "ci (ports (hw p s) p) AND push_bit slot 1 = 0 \<longleftrightarrow> \<not> bit (ci (ports (hw p s) p)) slot"
    using assms by (intro and_bit_eq_0) simp
  moreover have "interrupt_status (ports (hw p s) p) AND push_bit 30 1 = 0 \<longleftrightarrow> \<not> bit (interrupt_status (ports (hw p s) p)) 30"
    by (intro and_bit_eq_0) simp
  ultimately show ?thesis unfolding poll.simps[of hw p slot s] Let_def by (simp only: not_not)
qed

lemma poll_completes:
  assumes "\<forall>k \<in> {1..n}. bit (ci (ports ((hw p ^^ k) s) p)) slot
      \<and> \<not> bit (interrupt_status (ports ((hw p ^^ k) s) p)) 30"
    and "(hw p ^^ Suc n) s = s'" and "\<not> bit (ci (ports s' p)) slot" and "slot < 32"
  shows "poll hw p slot s = Some (Inr s')"
  using assms(1,2)
proof (induction n arbitrary: s)
  case 0
  then show ?case using assms(3,4) by (simp add: poll_unfold)
next
  case (Suc n)
  have shift: "(hw p ^^ k) (hw p s) = (hw p ^^ Suc k) s" for k by (simp add: funpow_swap1)
  have "poll hw p slot (hw p s) = Some (Inr s')"
  proof (rule Suc.IH)
    show "\<forall>k \<in> {1..n}. bit (ci (ports ((hw p ^^ k) (hw p s)) p)) slot
        \<and> \<not> bit (interrupt_status (ports ((hw p ^^ k) (hw p s)) p)) 30"
      unfolding shift using Suc.prems(1)[rule_format, of "Suc k" for k] by auto
    show "(hw p ^^ Suc n) (hw p s) = s'" unfolding shift using Suc.prems(2) .
  qed
  moreover have "bit (ci (ports (hw p s) p)) slot \<and> \<not> bit (interrupt_status (ports (hw p s) p)) 30"
    using Suc.prems(1)[rule_format, of 1] by simp
  ultimately show ?case using assms(4) by (simp add: poll_unfold[of slot hw p s])
qed

section \<open>The command the driver writes\<close>

lemma bytes_u64:
  "(ucast (ucast lba :: u8) :: u64) OR push_bit 8 (ucast (ucast (drop_bit 8 lba) :: u8)) OR push_bit 16 (ucast (ucast (drop_bit 16 lba) :: u8))
     OR push_bit 24 (ucast (ucast (drop_bit 24 lba) :: u8)) OR push_bit 32 (ucast (ucast (drop_bit 32 lba) :: u8))
     OR push_bit 40 (ucast (ucast (drop_bit 40 lba) :: u8)) = take_bit 48 lba" for lba :: u64
proof (rule bit_word_eqI)
  fix n assume n: "n < LENGTH(64)"
  consider "n < 8" | "8 \<le> n" "n < 16" | "16 \<le> n" "n < 24" | "24 \<le> n" "n < 32" | "32 \<le> n" "n < 40" | "40 \<le> n" "n < 48" | "48 \<le> n"
    by linarith
  then show "bit ((ucast (ucast lba :: u8) :: u64) OR push_bit 8 (ucast (ucast (drop_bit 8 lba) :: u8)) OR push_bit 16 (ucast (ucast (drop_bit 16 lba) :: u8))
     OR push_bit 24 (ucast (ucast (drop_bit 24 lba) :: u8)) OR push_bit 32 (ucast (ucast (drop_bit 32 lba) :: u8))
     OR push_bit 40 (ucast (ucast (drop_bit 40 lba) :: u8))) n = bit (take_bit 48 lba) n"
    using n by cases (simp_all add: bit_or_iff bit_push_bit_iff bit_unsigned_iff bit_drop_bit_eq bit_take_bit_iff less_diff_conv2)
qed

lemma bytes_u16: "(ucast (ucast c :: u8) :: u16) OR push_bit 8 (ucast (ucast (drop_bit 8 c) :: u8)) = c" for c :: u16
proof (rule bit_word_eqI)
  fix n assume n: "n < LENGTH(16)"
  show "bit ((ucast (ucast c :: u8) :: u16) OR push_bit 8 (ucast (ucast (drop_bit 8 c) :: u8))) n = bit c n"
    using n by (cases "n < 8") (simp_all add: bit_or_iff bit_push_bit_iff bit_unsigned_iff bit_drop_bit_eq less_diff_conv2)
qed

lemma halves_u64: "(ucast (ucast a :: u32) :: u64) OR push_bit 32 (ucast (ucast (drop_bit 32 a) :: u32)) = a" for a :: u64
proof (rule bit_word_eqI)
  fix n assume n: "n < LENGTH(64)"
  show "bit ((ucast (ucast a :: u32) :: u64) OR push_bit 32 (ucast (ucast (drop_bit 32 a) :: u32))) n = bit a n"
    using n by (cases "n < 32") (simp_all add: bit_or_iff bit_push_bit_iff bit_unsigned_iff bit_drop_bit_eq less_diff_conv2)
qed

text \<open>A port with no command in flight, no error, and a table for slot 0.\<close>

definition port_ready :: "nat \<Rightarrow> 'z ahci_state_scheme \<Rightarrow> bool" where
  "port_ready p s \<longleftrightarrow> sact (ports s p) = 0 \<and> ci (ports s p) = 0 \<and> \<not> bit (interrupt_status (ports s p)) 30
     \<and> (\<exists>hdr tbl. get_command_header (ports s p) 0 = Inr hdr \<and> get_command_table (headers s hdr) = Inr tbl)"

definition transfer :: "u64 \<Rightarrow> u16 \<Rightarrow> u64 \<Rightarrow> bool \<Rightarrow> ata_command" where
  "transfer lba sectors buffer w = \<lparr>ac_write = w, ac_lba = unat (take_bit 48 lba), ac_sectors = unat sectors,
     ac_buffer = direct buffer, ac_bytes = unat sectors * 512\<rparr>"

lemma get_slot_ready: "sact r = 0 \<Longrightarrow> ci r = 0 \<Longrightarrow> get_slot r = Some 0"
  by (simp add: get_slot_def upt_rec)

lemma set_buffer_ok:
  assumes "0 < unat sectors" "unat sectors \<le> 8192"
  shows "\<exists>n. set_buffer a sectors d = Inr (d\<lparr>data_lower := ucast a, data_upper := ucast (drop_bit 32 a), prdt_reserved := 0, bc_i := n\<rparr>)
    \<and> unat (n AND mask 22) + 1 = unat sectors * 512"
proof -
  let ?n = "(ucast sectors * 512 :: u32)"
  have us: "unat (ucast sectors :: u32) = unat sectors"
    using unat_less_limit[of sectors] by (simp add: unsigned_ucast_eq take_bit_nat_eq_self)
  have n: "unat ?n = unat sectors * 512" using us assms by (simp add: unat_word_ariths)
  have ge: "1 \<le> ?n" using n assms(1) by (simp add: word_le_nat_alt)
  have m: "unat (?n - 1) = unat sectors * 512 - 1" using n ge by (simp add: unat_sub)
  have "wmul (ucast sectors) 512 = Inr ?n" using us assms by (simp add: wmul_def)
  moreover have "wsub ?n 1 = Inr (?n - 1)" using ge by (simp add: wsub_def)
  moreover have "(?n - 1 OR push_bit 31 1) AND mask 22 = ?n - 1"
  proof -
    have small: "take_bit 22 (?n - 1) = ?n - 1"
    proof (rule word_unat_eq_iff[THEN iffD2])
      show "unat (take_bit 22 (?n - 1)) = unat (?n - 1)"
        using m assms by (simp add: unsigned_take_bit_eq take_bit_nat_eq_self)
    qed
    have "(?n - 1 OR push_bit 31 1) AND mask 22 = take_bit 22 (?n - 1 OR push_bit 31 1)"
      by (simp only: take_bit_eq_mask)
    also have "\<dots> = take_bit 22 (?n - 1) OR take_bit 22 (push_bit 31 1)" by (simp only: take_bit_or)
    also have "take_bit 22 (push_bit 31 1 :: u32) = 0" by simp
    finally show ?thesis by (simp only: small or.right_neutral)
  qed
  ultimately show ?thesis using m assms(1) unfolding set_buffer_def
    by (intro exI[of _ "?n - 1 OR push_bit 31 1"]) (simp del: push_bit_of_1)
qed

lemma ci_round_trip:
  assumes "ci r = 0"
  shows "r\<lparr>ci := ci r OR push_bit 0 1, ci := ci (r\<lparr>ci := ci r OR push_bit 0 1\<rparr>) AND NOT (push_bit 0 1)\<rparr> = r"
  using assms by (cases r) simp

text \<open>The header and the table of a command, as the driver leaves them.\<close>

definition cmd_header_for :: "bool \<Rightarrow> command_header \<Rightarrow> command_header" where
  "cmd_header_for w h = h\<lparr>cfl_awp := (if w then 5 OR push_bit 6 1 else 5), prdtl := 1\<rparr>"

definition cmd_fis_for :: "u64 \<Rightarrow> u16 \<Rightarrow> bool \<Rightarrow> fis_reg_h2d \<Rightarrow> fis_reg_h2d" where
  "cmd_fis_for lba sectors w f = set_count sectors (set_lba lba (f\<lparr>fis_type := FIS_TYPE_REG_H2D, mul_cmd := push_bit 7 1,
     fis_command := if w then ATA_WRITE_DMA else ATA_READ_DMA\<rparr>))"

lemma decode_written:
  assumes "unat (bc_i d AND mask 22) + 1 = unat sectors * 512"
    and "data_lower d = ucast (direct buffer)" "data_upper d = ucast (drop_bit 32 (direct buffer))"
  shows "decode_command (cmd_header_for w h) (t\<lparr>prdt_entry := d, cmd_fis := cmd_fis_for lba sectors w f\<rparr>)
    = transfer lba sectors buffer w"
proof -
  have "bit (5 OR push_bit 6 1 :: u8) 6" "\<not> bit (5 :: u8) 6" by simp_all
  then show ?thesis unfolding decode_command_def transfer_def cmd_header_for_def cmd_fis_for_def set_lba_def set_count_def
    using assms bytes_u64[of lba] bytes_u16[of sectors] halves_u64[of "direct buffer"] by (simp add: Let_def del: push_bit_of_1)
qed

definition issued :: "u64 \<Rightarrow> u64 \<Rightarrow> bool \<Rightarrow> u64 \<Rightarrow> u16 \<Rightarrow> prdt \<Rightarrow> 'z ahci_state_scheme \<Rightarrow> 'z ahci_state_scheme" where
  "issued hdr tbl w lba sectors d s = s\<lparr>headers := (headers s)(hdr := cmd_header_for w (headers s hdr)),
     tables := (tables s)(tbl := (tables s tbl)\<lparr>prdt_entry := d, cmd_fis := cmd_fis_for lba sectors w (cmd_fis (tables s tbl))\<rparr>)\<rparr>"

lemma send_command_unfold:
  assumes "port_ready p s" and "get_command_header (ports s p) 0 = Inr hdr" and "get_command_table (headers s hdr) = Inr tbl"
    and "set_buffer (direct buffer) sectors (prdt_entry (tables s tbl)) = Inr d"
  shows "send_command hw p lba sectors buffer w s =
    (case poll hw p 0 (set_ci p 0 (issued hdr tbl w lba sectors d s)) of
       None \<Rightarrow> Inl Hangs
     | Some (Inl s) \<Rightarrow> Inr (Inl (), s)
     | Some (Inr s) \<Rightarrow>
         if interrupt_status (ports s p) AND push_bit 30 1 \<noteq> 0 then Inr (Inl (), s)
         else Inr (Inr (unat (prdbc (headers s hdr))), s))"
proof -
  have slot: "get_slot (ports s p) = Some 0" using assms(1) by (simp add: port_ready_def get_slot_ready)
  have tbl: "get_command_table (cmd_header_for w (headers s hdr)) = Inr tbl"
    using assms(3) by (simp add: cmd_header_for_def get_command_table_def)
  have hdrs: "(let s = set_header hdr (\<lambda>h. h\<lparr>cfl_awp := 5\<rparr>) s;
         s = if w then set_header hdr (\<lambda>h. h\<lparr>cfl_awp := cfl_awp h OR push_bit 6 1\<rparr>) s else s in
         set_header hdr (\<lambda>h. h\<lparr>prdtl := 1\<rparr>) s) = s\<lparr>headers := (headers s)(hdr := cmd_header_for w (headers s hdr))\<rparr>"
    by (simp add: set_header_def cmd_header_for_def Let_def)
  show ?thesis
    using slot assms(2,4) tbl hdrs unfolding send_command_def issued_def
    by (simp add: Let_def set_table_def cmd_fis_for_def direct_def[symmetric] del: push_bit_of_1)
qed

lemma run_command_frame:
  "run_command p c (s\<lparr>headers := H, tables := T, ports := P\<rparr>) = (run_command p c s)\<lparr>headers := H, tables := T, ports := P\<rparr>"
  by (simp add: run_command_def Let_def cong: if_cong)

lemma run_command_keeps:
  "ports (run_command p c s) = ports s" "headers (run_command p c s) = headers s" "tables (run_command p c s) = tables s"
  "ahci_devices (run_command p c s) = ahci_devices s" "page_allocator (run_command p c s) = page_allocator s"
  "kernel_vmm (run_command p c s) = kernel_vmm s" "ahci_state.more (run_command p c s) = ahci_state.more s"
  by (simp_all add: run_command_def Let_def)

lemma send_command_ok:
  assumes hw: "hba_serves hw" and rdy: "port_ready p s" and cnt: "0 < unat sectors" "unat sectors \<le> 8192"
  shows "\<exists>s' H T. send_command hw p lba sectors buffer w s = Inr (Inr (unat sectors * 512), s')
    \<and> s' = (run_command p (transfer lba sectors buffer w) s)\<lparr>headers := H, tables := T\<rparr> \<and> port_ready p s'"
proof -
  let ?c = "transfer lba sectors buffer w"
  from rdy obtain hdr tbl where r: "sact (ports s p) = 0" "ci (ports s p) = 0" "\<not> bit (interrupt_status (ports s p)) 30"
      "get_command_header (ports s p) 0 = Inr hdr" "get_command_table (headers s hdr) = Inr tbl"
    by (auto simp: port_ready_def)
  obtain n where n: "set_buffer (direct buffer) sectors (prdt_entry (tables s tbl))
        = Inr ((prdt_entry (tables s tbl))\<lparr>data_lower := ucast (direct buffer), data_upper := ucast (drop_bit 32 (direct buffer)),
            prdt_reserved := 0, bc_i := n\<rparr>)" "unat (n AND mask 22) + 1 = unat sectors * 512"
    using set_buffer_ok[OF cnt] by blast
  let ?d = "(prdt_entry (tables s tbl))\<lparr>data_lower := ucast (direct buffer), data_upper := ucast (drop_bit 32 (direct buffer)),
            prdt_reserved := 0, bc_i := n\<rparr>"
  let ?s1 = "issued hdr tbl w lba sectors ?d s"
  let ?s2 = "set_ci p 0 ?s1"
  have ports2: "ports ?s2 = (ports s)(p := (ports s p)\<lparr>ci := ci (ports s p) OR push_bit 0 1\<rparr>)"
    by (simp add: set_ci_def issued_def)
  have h2: "get_command_header (ports ?s2 p) 0 = Inr hdr" using r(4) by (simp add: ports2 get_command_header_def)
  have t2: "get_command_table (headers ?s2 hdr) = Inr tbl"
    using r(5) by (simp add: set_ci_def issued_def cmd_header_for_def get_command_table_def)
  have "decode_command (headers ?s2 hdr) (tables ?s2 tbl) = ?c"
    using decode_written[where d = ?d and sectors = sectors and buffer = buffer and w = w and h = "headers s hdr" and t = "tables s tbl"
        and lba = lba and f = "cmd_fis (tables s tbl)"] n(2)
    by (simp add: set_ci_def issued_def)
  then obtain H where compl: "complete p 0 hdr tbl ?s2 = (run_command p ?c s)\<lparr>headers := H, tables := tables ?s2\<rparr>"
      and H: "prdbc (H hdr) = of_nat (unat sectors * 512)" "ctaddr_lower (H hdr) = ctaddr_lower (headers s hdr)"
        "ctaddr_upper (H hdr) = ctaddr_upper (headers s hdr)"
  proof -
    assume dec: "decode_command (headers ?s2 hdr) (tables ?s2 tbl) = ?c"
    let ?H = "(headers ?s2)(hdr := (headers ?s2 hdr)\<lparr>prdbc := of_nat (unat sectors * 512)\<rparr>)"
    have s2: "?s2 = s\<lparr>headers := headers ?s2, tables := tables ?s2, ports := ports ?s2\<rparr>"
      by (simp add: set_ci_def issued_def)
    have "run_command p ?c ?s2 = (run_command p ?c s)\<lparr>headers := headers ?s2, tables := tables ?s2, ports := ports ?s2\<rparr>"
      by (subst s2) (rule run_command_frame)
    moreover have "(ports ?s2)(p := (ports ?s2 p)\<lparr>ci := ci (ports ?s2 p) AND NOT (push_bit 0 1)\<rparr>) = ports s"
      using ci_round_trip[OF r(2)] by (simp add: ports2 fun_upd_idem_iff del: push_bit_of_1)
    ultimately have "complete p 0 hdr tbl ?s2 = (run_command p ?c s)\<lparr>headers := ?H, tables := tables ?s2, ports := ports s\<rparr>"
      unfolding complete_def dec Let_def by (simp add: set_header_def transfer_def)
    also have "\<dots> = (run_command p ?c s)\<lparr>headers := ?H, tables := tables ?s2\<rparr>"
      using run_command_keeps(1)[of p ?c s] by (cases "run_command p ?c s") simp
    finally show thesis
      by (rule that) (simp_all add: set_ci_def issued_def cmd_header_for_def)
  qed
  have b2: "ci (ports ?s2 p) = push_bit 0 1" using r(2) by (simp add: ports2)
  from hw[unfolded hba_serves_def, rule_format, of 0 ?s2 p hdr tbl] b2 h2 t2
  obtain k where k: "\<forall>i \<in> {1..k}. bit (ci (ports ((hw p ^^ i) ?s2) p)) 0
        \<and> \<not> bit (interrupt_status (ports ((hw p ^^ i) ?s2) p)) 30"
      "(hw p ^^ Suc k) ?s2 = complete p 0 hdr tbl ?s2" by auto
  let ?s' = "(run_command p ?c s)\<lparr>headers := H, tables := tables ?s2\<rparr>"
  have keep: "ports ?s' = ports s" by (simp add: run_command_keeps)
  have "\<not> bit (ci (ports ?s' p)) 0" using r(2) keep by simp
  then have "poll hw p 0 ?s2 = Some (Inr ?s')" using poll_completes[where hw = hw and p = p and slot = 0 and s = ?s2 and n = k, OF k] compl by simp
  moreover have "interrupt_status (ports ?s' p) AND push_bit 30 1 = 0"
    using r(3) keep by (simp only: and_bit_eq_0 len_num1 len_bit0) simp
  moreover have "unat (of_nat (unat sectors * 512) :: u32) = unat sectors * 512"
    by (rule unat_of_nat_small) (use cnt in simp)
  then have "unat (prdbc (headers ?s' hdr)) = unat sectors * 512" using H(1) by simp
  ultimately have "send_command hw p lba sectors buffer w s = Inr (Inr (unat sectors * 512), ?s')"
    using send_command_unfold[OF rdy r(4,5) n(1)] by simp
  moreover have "port_ready p ?s'"
    using r keep H(2,3) by (auto simp: port_ready_def get_command_table_def)
  ultimately show ?thesis by blast
qed

section \<open>Transfers through a box\<close>

lemma load_store_inside:
  assumes "k + n \<le> length bs" and "length bs \<le> 2 ^ 64"
  shows "load_bytes (store_bytes m a bs) (a + of_nat k) n = take n (drop k bs)"
proof (rule nth_equalityI)
  fix i assume "i < length (load_bytes (store_bytes m a bs) (a + of_nat k) n)"
  then have i: "i < n" by simp
  have "a + of_nat k + of_nat i - a = of_nat (k + i)" by simp
  moreover have "unat (of_nat (k + i) :: u64) = k + i" by (rule unat_of_nat_small) (use assms i in simp)
  ultimately show "load_bytes (store_bytes m a bs) (a + of_nat k) n ! i = take n (drop k bs) ! i"
    using assms i by (simp add: store_bytes_def)
qed (use assms in simp)

lemma direct_kptr_offset:
  assumes "f * 4096 + k < 2 ^ 47"
  shows "direct (kptr f + of_nat k) = direct (kptr f) + of_nat k"
proof -
  have f: "f < 2 ^ 35" using assms by simp
  have u: "unat (of_nat f * PAGE_SIZE + of_nat k :: u64) = f * 4096 + k"
    using unat_plus_no_wrap[of "of_nat f * PAGE_SIZE" k] assms f by (simp add: unat_frame_addr)
  then have "lower (of_nat f * PAGE_SIZE + of_nat k)"
    unfolding lower_def word_less_nat_alt u using assms by simp
  then have "direct ((of_nat f * PAGE_SIZE + of_nat k) + PHYS_BASE) = of_nat f * PAGE_SIZE + of_nat k" by (rule direct_plus)
  then show ?thesis unfolding direct_kptr[OF f] by (simp add: kptr_plus[OF f] algebra_simps)
qed

lemma direct_kptr_plus: "f < 2 ^ 35 \<Longrightarrow> k < 4096 \<Longrightarrow> direct (kptr f + of_nat k) = of_nat f * PAGE_SIZE + of_nat k"
  using direct_kptr_offset[of f k] by (simp add: direct_kptr)

lemma unat_mod_512: "unat (x mod 512) = unat x mod 512" for x :: u64
  by (simp add: unat_mod_distrib)

lemma unat_div_512: "unat (x div 512) = unat x div 512" for x :: u64
  by (simp add: unat_div_distrib)

definition sectors_of :: "u64 \<Rightarrow> usize \<Rightarrow> nat" where
  "sectors_of offset bytes = ceil_div (bytes + unat offset mod 512) 512"

lemma sectors_of_bounds:
  assumes "0 < bytes"
  shows "0 < sectors_of offset bytes" "unat offset mod 512 + bytes \<le> sectors_of offset bytes * 512"
proof -
  show "unat offset mod 512 + bytes \<le> sectors_of offset bytes * 512"
    using ceil_div_le[of 512 "bytes + unat offset mod 512"] by (simp add: sectors_of_def)
  then show "0 < sectors_of offset bytes" using assms by (auto intro: gr0I)
qed

lemma sector_count_eq:
  assumes "sectors_of offset bytes \<le> 8192"
  shows "\<exists>n. sector_count offset bytes = Inr n \<and> unat n = sectors_of offset bytes"
proof -
  have "bytes + unat offset mod 512 \<le> 8192 * 512"
    using ceil_div_le[of 512 "bytes + unat offset mod 512"] assms by (simp add: sectors_of_def)
  then have "sector_count offset bytes = Inr (of_nat (sectors_of offset bytes))"
    by (simp add: sector_count_def uadd_def div_ceil_eq sectors_of_def unat_mod_512)
  moreover have "unat (of_nat (sectors_of offset bytes) :: u16) = sectors_of offset bytes"
    by (rule unat_of_nat_small) (use assms in simp)
  ultimately show ?thesis by blast
qed

text \<open>A device that is ready, and the part of the state a disk access leaves alone.\<close>

definition device_ready :: "(nat \<Rightarrow> 'z ahci_state_scheme \<Rightarrow> 'z ahci_state_scheme) \<Rightarrow> usize \<Rightarrow> nat \<Rightarrow> 'z ahci_state_scheme \<Rightarrow> bool" where
  "device_ready hw i p s \<longleftrightarrow> hba_serves hw \<and> pmm_wf s \<and> i < length (ahci_devices s) \<and> ahci_devices s ! i = p \<and> port_ready p s"

definition same_kernel :: "'z ahci_state_scheme \<Rightarrow> 'z ahci_state_scheme \<Rightarrow> bool" where
  "same_kernel s s' \<longleftrightarrow> free_frames s' = free_frames s \<and> frame_cnt s' = frame_cnt s \<and> ahci_devices s' = ahci_devices s \<and> kernel_vmm s' = kernel_vmm s
     \<and> ahci_state.more s' = ahci_state.more s \<and> (\<forall>x. unat x div 4096 \<notin> free_frames s \<longrightarrow> mem s' x = mem s x)"

lemma same_kernel_refl [simp]: "same_kernel s s"
  by (simp add: same_kernel_def)

lemma same_kernel_trans: "same_kernel s t \<Longrightarrow> same_kernel t u \<Longrightarrow> same_kernel s u"
  by (simp add: same_kernel_def)

lemma box_new_effect:
  assumes "pmm_wf s" and "pmm_box_new bytes s = Inr (tmp, s1)" and "bytes < 2 ^ 60"
  shows "\<exists>f. box_data tmp = kptr f \<and> page_cnt tmp = ceil_div bytes 4096 \<and> f + ceil_div bytes 4096 \<le> frame_cnt s
    \<and> 0 < ceil_div bytes 4096 \<and> f + ceil_div bytes 4096 \<le> 2 ^ 35
    \<and> {f..<f + ceil_div bytes 4096} \<subseteq> free_frames s \<and> free_frames s1 = free_frames s - {f..<f + ceil_div bytes 4096}
    \<and> frame_cnt s1 = frame_cnt s \<and> pmm_wf s1
    \<and> mem s1 = fill_bytes (mem s) (of_nat f * PAGE_SIZE) 0 (ceil_div bytes 4096 * 4096)
    \<and> pmm_state.more s1 = pmm_state.more s"
proof -
  have dc: "div_ceil bytes 4096 = Inr (ceil_div bytes 4096)" using assms(3) by (simp add: div_ceil_eq)
  from assms(2) dc obtain a where a: "pmm_calloc (ceil_div bytes 4096) s = Inr (Some a, s1)"
      "tmp = \<lparr>box_data = as_u64 (higher_half a), page_cnt = ceil_div bytes 4096\<rparr>"
    by (auto simp: pmm_box_new_def res_simps)
  from pmm_calloc_Some[OF assms(1) a(1)] obtain p where "a = frame_addr p" "0 < ceil_div bytes 4096"
      "{p..<p + ceil_div bytes 4096} \<subseteq> free_frames s" "p + ceil_div bytes 4096 \<le> frame_cnt s"
      "free_frames s1 = free_frames s - {p..<p + ceil_div bytes 4096}" "frame_cnt s1 = frame_cnt s" "pmm_wf s1"
      "mem s1 = fill_bytes (mem s) (as_u64 a) 0 (ceil_div bytes 4096 * 4096)" "pmm_state.more s1 = pmm_state.more s"
    by blast
  then show ?thesis using a(2) pmm_wf_cap[OF assms(1)]
    by (intro exI[of _ p]) (auto simp: kptr_def frame_addr_def)
qed

lemma ahci_more_fields:
  assumes "pmm_state.more s' = pmm_state.more s"
  shows "ports s' = ports s" "headers s' = headers s" "tables s' = tables s" "ahci_devices s' = ahci_devices s"
    "disk s' = disk s" "kernel_vmm s' = kernel_vmm s" "ahci_state.more s' = ahci_state.more s"
  using assms by (cases s, cases s', simp)+

lemma port_ready_cong:
  "ports s' = ports s \<Longrightarrow> headers s' = headers s \<Longrightarrow> port_ready p s' = port_ready p s"
  by (simp add: port_ready_def)

definition disk_bytes :: "nat \<Rightarrow> nat \<Rightarrow> nat \<Rightarrow> 'z ahci_state_scheme \<Rightarrow> u8 list" where
  "disk_bytes p a n s = map (disk s p) [a..<a + n]"

lemma length_disk_bytes [simp]: "length (disk_bytes p a n s) = n"
  by (simp add: disk_bytes_def)

lemma nth_disk_bytes [simp]: "i < n \<Longrightarrow> disk_bytes p a n s ! i = disk s p (a + i)"
  by (simp add: disk_bytes_def)

lemma lba_transfer:
  fixes offset :: u64
  assumes "unat offset < 2 ^ 57"
  shows "unat (take_bit 48 (offset div 512)) = unat offset div 512"
proof -
  have "unat offset div 512 < 2 ^ 48" using assms by auto
  then show ?thesis unfolding unsigned_take_bit_eq unat_div_512 by (rule take_bit_nat_eq_self)
qed

text \<open>Reading the sectors into a fresh box.\<close>

lemma read_box:
  assumes dev: "device_ready hw i p s" and b: "0 < bytes" "sectors_of offset bytes \<le> 8192" "unat offset < 2 ^ 57"
    and box: "pmm_box_new bytes s = Inr (tmp, s1)"
  shows "\<exists>f sec s2. box_data tmp = kptr f \<and> page_cnt tmp = ceil_div bytes 4096 \<and> f + page_cnt tmp \<le> 2 ^ 35 \<and> 0 < page_cnt tmp
    \<and> f + page_cnt tmp \<le> frame_cnt s1 \<and> frame_cnt s1 = frame_cnt s
    \<and> {f..<f + page_cnt tmp} \<subseteq> free_frames s \<and> free_frames s1 = free_frames s - {f..<f + page_cnt tmp}
    \<and> sector_count offset bytes = Inr sec \<and> unat sec = sectors_of offset bytes
    \<and> send_command hw p (offset div 512) sec (box_data tmp) False s1 = Inr (Inr (sectors_of offset bytes * 512), s2)
    \<and> mem s2 = store_bytes (mem s1) (of_nat f * PAGE_SIZE)
        (disk_bytes p (unat offset div 512 * 512) (sectors_of offset bytes * 512) s)
    \<and> mem s1 = fill_bytes (mem s) (of_nat f * PAGE_SIZE) 0 (page_cnt tmp * 4096)
    \<and> port_ready p s2 \<and> pmm_wf s2 \<and> page_allocator s2 = page_allocator s1 \<and> disk s2 = disk s
    \<and> ahci_devices s2 = ahci_devices s \<and> kernel_vmm s2 = kernel_vmm s \<and> ahci_state.more s2 = ahci_state.more s"
proof -
  let ?k = "sectors_of offset bytes"
  have d: "hba_serves hw" "pmm_wf s" "port_ready p s" using dev by (auto simp: device_ready_def)
  have "bytes \<le> 8192 * 512" using sectors_of_bounds(2)[OF b(1), of offset] b(2) by simp
  then have small: "bytes < 2 ^ 60" by simp
  from box_new_effect[OF d(2) box small] obtain f where f: "box_data tmp = kptr f" "page_cnt tmp = ceil_div bytes 4096"
      "f + page_cnt tmp \<le> 2 ^ 35" "0 < page_cnt tmp" "f + page_cnt tmp \<le> frame_cnt s" "{f..<f + page_cnt tmp} \<subseteq> free_frames s"
      "free_frames s1 = free_frames s - {f..<f + page_cnt tmp}" "frame_cnt s1 = frame_cnt s" "pmm_wf s1"
      "mem s1 = fill_bytes (mem s) (of_nat f * PAGE_SIZE) 0 (page_cnt tmp * 4096)" "pmm_state.more s1 = pmm_state.more s" by auto
  note same = ahci_more_fields[OF f(11)]
  obtain sec where sec: "sector_count offset bytes = Inr sec" "unat sec = ?k" using sector_count_eq[OF b(2)] by blast
  have rdy: "port_ready p s1" using d(3) port_ready_cong[OF same(1,2)] by simp
  have pos: "0 < unat sec" "unat sec \<le> 8192" using sec(2) b(2) sectors_of_bounds(1)[OF b(1)] by auto
  from send_command_ok[OF d(1) rdy pos, of "offset div 512" "box_data tmp" False]
  obtain s2 H T where s2: "send_command hw p (offset div 512) sec (box_data tmp) False s1 = Inr (Inr (unat sec * 512), s2)"
      "s2 = (run_command p (transfer (offset div 512) sec (box_data tmp) False) s1)\<lparr>headers := H, tables := T\<rparr>" "port_ready p s2"
    by blast
  have f35: "f < 2 ^ 35" using f(3,4) by linarith
  have run: "run_command p (transfer (offset div 512) sec (box_data tmp) False) s1
      = s1\<lparr>mem := store_bytes (mem s1) (of_nat f * PAGE_SIZE) (disk_bytes p (unat offset div 512 * 512) (?k * 512) s)\<rparr>"
    using lba_transfer[OF b(3)] f(1) direct_kptr[OF f35] sec(2) same(5)
    by (simp add: run_command_def transfer_def Let_def disk_bytes_def)
  have "pmm_wf s2" using f(9) s2(2) run by (simp add: pmm_wf_def)
  then show ?thesis using f sec s2 run same by (intro exI[of _ f] exI[of _ sec] exI[of _ s2]) simp
qed

text \<open>Giving the box back.\<close>

lemma drop_box:
  assumes wf: "pmm_wf s" and b: "box_data tmp = kptr f" "f + page_cnt tmp \<le> frame_cnt s" "f < 2 ^ 35"
  shows "\<exists>s'. pmm_box_drop tmp s = Inr s' \<and> free_frames s' = free_frames s \<union> {f..<f + page_cnt tmp} \<and> pmm_wf s' \<and> frame_cnt s' = frame_cnt s
    \<and> mem s' = mem s \<and> pmm_state.more s' = pmm_state.more s"
proof -
  have "unat (direct (box_data tmp)) div 4096 = f" using b(1,3) by (simp add: direct_kptr unat_frame_addr)
  then show ?thesis using pmm_free_frames[OF wf, of "box_data tmp" f "page_cnt tmp"] b(2) by (auto simp: pmm_box_drop_def)
qed

text \<open>Memory outside the box is left alone when the sectors fit into it.\<close>

lemma outside_frames:
  assumes "f + n \<le> 2 ^ 35" and "unat x div 4096 \<notin> {f..<f + n}" and "0 < n"
  shows "n * 4096 \<le> unat (x - of_nat f * PAGE_SIZE)"
proof -
  have a: "unat (of_nat f * PAGE_SIZE) = f * 4096" using assms(1,3) by (simp add: unat_frame_addr)
  have out: "unat x < f * 4096 \<or> (f + n) * 4096 \<le> unat x"
    using assms(2) by (auto simp: less_eq_div_iff_mult_less_eq div_less_iff_less_mult not_le not_less)
  have "(f + n) * 4096 \<le> 2 ^ 47" using assms(1) by simp
  then show ?thesis using out unat_less_limit[of x] unfolding unat_minus_word a by (simp split: if_splits) linarith
qed

lemma box_store_frame:
  assumes "f + n \<le> 2 ^ 35" and "length bs \<le> n * 4096" and "unat x div 4096 \<notin> {f..<f + n}"
  shows "store_bytes (fill_bytes m (of_nat f * PAGE_SIZE) 0 (n * 4096)) (of_nat f * PAGE_SIZE) bs x = m x"
  using outside_frames[OF assms(1,3)] assms(2) by (cases "n = 0") (simp_all add: store_bytes_def fill_bytes_def)

text \<open>There is room for a buffer: the first run of free frames that is long enough does not start at frame 0.\<close>

definition box_room :: "usize \<Rightarrow> 'z pmm_state_scheme \<Rightarrow> bool" where
  "box_room bytes s \<longleftrightarrow> (case first_fit (free_frames s) (frame_cnt s) (ceil_div bytes 4096) of None \<Rightarrow> False | Some f \<Rightarrow> 0 < f)"

lemma box_new_at:
  assumes "pmm_wf s" and "first_fit (free_frames s) (frame_cnt s) (ceil_div bytes 4096) = Some f" "0 < f" and "bytes < 2 ^ 60"
  shows "\<exists>s1. pmm_box_new bytes s = Inr (\<lparr>box_data = kptr f, page_cnt = ceil_div bytes 4096\<rparr>, s1)"
proof -
  have dc: "div_ceil bytes 4096 = Inr (ceil_div bytes 4096)" using assms(4) by (simp add: div_ceil_eq)
  from pmm_alloc_first_fit[OF assms(1), of "ceil_div bytes 4096"] assms(2,3) obtain s1 where
    a: "pmm_alloc (ceil_div bytes 4096) s = Inr (Some (frame_addr f), s1)" by auto
  have "ceil_div bytes 4096 * 4096 < 2 ^ 64" using assms(4) ceil_div_less[of 4096 bytes] by simp
  then have "\<exists>s2. pmm_calloc (ceil_div bytes 4096) s = Inr (Some (frame_addr f), s2)"
    using a by (simp add: pmm_calloc_def umul_def)
  then show ?thesis using dc by (auto simp: pmm_box_new_def kptr_def)
qed

lemma box_new_total:
  assumes "pmm_wf s" and "box_room bytes s" and "bytes < 2 ^ 60"
  shows "\<exists>tmp s1. pmm_box_new bytes s = Inr (tmp, s1)"
  using box_new_at[OF assms(1) _ _ assms(3)] assms(2) by (auto simp: box_room_def split: option.splits)

text \<open>A run of free frames is room enough, and a box is taken at or before its start.\<close>

lemma first_fit_run:
  assumes "pmm_wf s" and "0 \<notin> free_frames s" and "{a..<a + k} \<subseteq> free_frames s" "0 < k"
  shows "\<exists>f. first_fit (free_frames s) (frame_cnt s) k = Some f \<and> 0 < f \<and> f \<le> a \<and> {f..<f + k} \<subseteq> free_frames s"
proof -
  let ?F = "free_frames s" and ?P = "\<lambda>p. {p..<p + k} \<subseteq> free_frames s"
  have "a + k - 1 \<in> ?F" using assms(3,4) by auto
  then have a: "a < Suc (frame_cnt s) - k" using pmm_wf_cap[OF assms(1)] assms(4) by auto
  then have "List.find ?P [0..<Suc (frame_cnt s) - k] \<noteq> None" using assms(3) by (auto simp: find_None_iff)
  then obtain f where f: "List.find ?P [0..<Suc (frame_cnt s) - k] = Some f" by blast
  then have F: "?P f" "\<not> a < f" using assms(3) by (auto simp: find_upt_Some)
  then have "f \<in> ?F" using assms(4) by auto
  then have "0 < f" using assms(2) by (auto intro: gr0I)
  then show ?thesis using f F assms(4) by (auto simp: first_fit_def)
qed

lemma box_room_run:
  "pmm_wf s \<Longrightarrow> 0 \<notin> free_frames s \<Longrightarrow> {a..<a + ceil_div bytes 4096} \<subseteq> free_frames s \<Longrightarrow> 0 < ceil_div bytes 4096 \<Longrightarrow> box_room bytes s"
  using first_fit_run[of s a "ceil_div bytes 4096"] by (auto simp: box_room_def)

text \<open>A transfer that fits: sectors and pages of the temporary buffer, and the LBA in 48 bits.\<close>

definition transfer_fits :: "u64 \<Rightarrow> usize \<Rightarrow> bool" where
  "transfer_fits offset bytes \<longleftrightarrow> 0 < bytes \<and> sectors_of offset bytes \<le> 8192
     \<and> sectors_of offset bytes * 512 \<le> ceil_div bytes 4096 * 4096 \<and> unat offset < 2 ^ 57"

lemma transfer_fits_small:
  assumes "transfer_fits offset bytes"
  shows "0 < bytes" "sectors_of offset bytes \<le> 8192" "unat offset < 2 ^ 57" "bytes < 2 ^ 60"
proof -
  show b: "0 < bytes" "sectors_of offset bytes \<le> 8192" "unat offset < 2 ^ 57" using assms by (auto simp: transfer_fits_def)
  show "bytes < 2 ^ 60" using sectors_of_bounds(2)[OF b(1), of offset] b(2) by simp
qed

lemma take_drop_disk_bytes:
  assumes "k + n \<le> m"
  shows "take n (drop k (disk_bytes p a m s)) = disk_bytes p (a + k) n s"
  using assms by (intro nth_equalityI) (simp_all add: add.assoc)

lemma div_mod_512: "unat offset div 512 * 512 + unat offset mod 512 = unat offset" for offset :: u64
  by (rule div_mult_mod_eq)

lemma offset_mod_of_nat: "offset mod 512 = of_nat (unat offset mod 512)" for offset :: u64
  by (simp flip: unat_mod_512)

lemma port_ready_more:
  assumes "pmm_state.more s' = pmm_state.more s"
  shows "port_ready p s' = port_ready p s"
  by (rule port_ready_cong) (use ahci_more_fields[OF assms] in simp_all)

lemma fetch_ok:
  assumes dev: "device_ready hw i p s" and fit: "transfer_fits offset bytes" and room: "box_room bytes s"
  shows "\<exists>s'. ahci_fetch hw i offset bytes s
        = Inr (Inr (sectors_of offset bytes * 512, disk_bytes p (unat offset) bytes s), s')
    \<and> device_ready hw i p s' \<and> same_kernel s s' \<and> disk s' = disk s"
proof -
  let ?k = "sectors_of offset bytes"
  note b = transfer_fits_small[OF fit]
  have d: "hba_serves hw" "pmm_wf s" "i < length (ahci_devices s)" "ahci_devices s ! i = p" using dev by (auto simp: device_ready_def)
  obtain tmp s1 where box: "pmm_box_new bytes s = Inr (tmp, s1)" using box_new_total[OF d(2) room b(4)] by blast
  from read_box[OF dev b(1-3) box] obtain f sec s2 where r: "box_data tmp = kptr f" "page_cnt tmp = ceil_div bytes 4096"
      "f + page_cnt tmp \<le> 2 ^ 35" "0 < page_cnt tmp" "f + page_cnt tmp \<le> frame_cnt s1" "frame_cnt s1 = frame_cnt s"
      "{f..<f + page_cnt tmp} \<subseteq> free_frames s" "free_frames s1 = free_frames s - {f..<f + page_cnt tmp}"
      "sector_count offset bytes = Inr sec"
      "send_command hw p (offset div 512) sec (box_data tmp) False s1 = Inr (Inr (?k * 512), s2)"
      "mem s2 = store_bytes (mem s1) (of_nat f * PAGE_SIZE) (disk_bytes p (unat offset div 512 * 512) (?k * 512) s)"
      "mem s1 = fill_bytes (mem s) (of_nat f * PAGE_SIZE) 0 (page_cnt tmp * 4096)"
      "port_ready p s2" "pmm_wf s2" "page_allocator s2 = page_allocator s1" "disk s2 = disk s"
      "ahci_devices s2 = ahci_devices s" "kernel_vmm s2 = kernel_vmm s" "ahci_state.more s2 = ahci_state.more s" by blast
  have f35: "f < 2 ^ 35" using r(3,4) by linarith
  have al: "free_frames s2 = free_frames s1" "frame_cnt s2 = frame_cnt s1" using r(15) by (simp_all add: free_frames_def frame_cnt_def)
  have cnt: "f + page_cnt tmp \<le> frame_cnt s2" using r(5) al by simp
  from drop_box[OF r(14,1) cnt f35] obtain s3 where s3: "pmm_box_drop tmp s2 = Inr s3"
      "free_frames s3 = free_frames s2 \<union> {f..<f + page_cnt tmp}" "pmm_wf s3" "frame_cnt s3 = frame_cnt s2"
      "mem s3 = mem s2" "pmm_state.more s3 = pmm_state.more s2" by blast
  note same = ahci_more_fields[OF s3(6)]
  have "direct (box_data tmp + offset mod 512) = of_nat f * PAGE_SIZE + of_nat (unat offset mod 512)"
    using direct_kptr_plus[OF f35, of "unat offset mod 512"] r(1) by (simp add: offset_mod_of_nat[of offset])
  moreover have "unat offset mod 512 + bytes \<le> ?k * 512" by (rule sectors_of_bounds(2)[OF b(1)])
  ultimately have "load_bytes (mem s2) (direct (box_data tmp + offset mod 512)) bytes = disk_bytes p (unat offset) bytes s"
    using load_store_inside[of "unat offset mod 512" bytes "disk_bytes p (unat offset div 512 * 512) (?k * 512) s" "mem s1" "of_nat f * PAGE_SIZE"]
      b(2) by (simp add: r(11) take_drop_disk_bytes div_mod_512)
  then have "ahci_fetch hw i offset bytes s = Inr (Inr (?k * 512, disk_bytes p (unat offset) bytes s), s3)"
    using d(3,4) box r(9,10) s3(1) by (simp add: ahci_fetch_def)
  moreover have "device_ready hw i p s3"
    using d s3(3) r(13,17) port_ready_more[OF s3(6)] same by (simp add: device_ready_def)
  moreover have "free_frames s3 = free_frames s" using s3(2) al r(7,8) by blast
  moreover have "mem s3 x = mem s x" if "unat x div 4096 \<notin> free_frames s" for x
    unfolding s3(5) r(11,12) using that fit r(2,3,7) by (intro box_store_frame) (auto simp: transfer_fits_def)
  ultimately show ?thesis using same r(6,16-19) al s3(4) by (intro exI[of _ s3]) (simp add: same_kernel_def)
qed

text \<open>Writing the box back: bytes of the caller at the offset inside the first sector, what was read elsewhere.\<close>

definition disk_put :: "nat \<Rightarrow> nat \<Rightarrow> u8 list \<Rightarrow> (nat \<Rightarrow> nat \<Rightarrow> u8) \<Rightarrow> nat \<Rightarrow> nat \<Rightarrow> u8" where
  "disk_put p a bs d = d(p := \<lambda>x. if a \<le> x \<and> x < a + length bs then bs ! (x - a) else d p x)"

lemma written_sectors:
  assumes m: "m = store_bytes (store_bytes m0 a (disk_bytes p b n s)) (a + of_nat k) bs"
    and len: "k + length bs \<le> n" "n \<le> 2 ^ 60" and x: "b \<le> x" "x < b + n"
  shows "m (a + of_nat (x - b)) = disk_put p (b + k) bs (disk s) p x"
proof -
  let ?j = "x - b"
  have j: "unat (of_nat ?j :: u64) = ?j" by (rule unat_of_nat_small) (use x len in simp)
  have k: "unat (of_nat k :: u64) = k" by (rule unat_of_nat_small) (use len in simp)
  have d: "a + of_nat ?j - (a + of_nat k) = of_nat ?j - of_nat k" by (simp add: algebra_simps)
  have "unat (of_nat ?j - of_nat k :: u64) = (if k \<le> ?j then ?j - k else ?j + 2 ^ 64 - k)"
    unfolding unat_minus_word j k by simp
  moreover have "disk_bytes p b n s ! ?j = disk s p x" using x by simp
  moreover have "?j < n" using x by linarith
  moreover have "\<not> ?j + 2 ^ 64 - k < length bs" using len by simp
  moreover have "?j - k = x - (b + k)" "k \<le> ?j \<longleftrightarrow> b + k \<le> x" using x by auto
  ultimately show ?thesis using x unfolding m disk_put_def store_bytes_def d by (auto simp: j simp del: of_nat_diff)
qed

text \<open>The caller's bytes do not lie in free memory.\<close>

definition source_bytes :: "('z ahci_state_scheme \<Rightarrow> u8 list) \<Rightarrow> u8 list \<Rightarrow> 'z ahci_state_scheme \<Rightarrow> bool" where
  "source_bytes src bs s \<longleftrightarrow> (\<forall>t. (\<forall>x. unat x div 4096 \<notin> free_frames s \<longrightarrow> mem t x = mem s x)
     \<and> kernel_vmm t = kernel_vmm s \<and> ahci_state.more t = ahci_state.more s \<longrightarrow> src t = bs)"

lemma source_bytes_const [simp]: "source_bytes (\<lambda>_. bs) bs s"
  by (simp add: source_bytes_def)

lemma write_box:
  assumes hw: "hba_serves hw" and rdy: "port_ready p s" and f: "f < 2 ^ 35"
    and sec: "0 < unat sec" "unat sec \<le> 8192" and o: "unat offset < 2 ^ 57"
    and m: "mem s = store_bytes (store_bytes m0 (of_nat f * PAGE_SIZE) (disk_bytes p (unat offset div 512 * 512) (unat sec * 512) s))
       (of_nat f * PAGE_SIZE + of_nat (unat offset mod 512)) bs"
    and len: "unat offset mod 512 + length bs \<le> unat sec * 512"
  shows "\<exists>s'. send_command hw p (offset div 512) sec (kptr f) True s = Inr (Inr (unat sec * 512), s')
    \<and> disk s' = disk_put p (unat offset) bs (disk s) \<and> mem s' = mem s \<and> page_allocator s' = page_allocator s
    \<and> port_ready p s' \<and> ahci_devices s' = ahci_devices s \<and> kernel_vmm s' = kernel_vmm s \<and> ahci_state.more s' = ahci_state.more s"
proof -
  let ?b = "unat offset div 512 * 512" and ?n = "unat sec * 512"
  from send_command_ok[OF hw rdy sec, of "offset div 512" "kptr f" True]
  obtain s' H T where s': "send_command hw p (offset div 512) sec (kptr f) True s = Inr (Inr ?n, s')"
      "s' = (run_command p (transfer (offset div 512) sec (kptr f) True) s)\<lparr>headers := H, tables := T\<rparr>" "port_ready p s'"
    by blast
  let ?d = "(disk s)(p := \<lambda>x. if ?b \<le> x \<and> x < ?b + ?n then mem s (of_nat f * PAGE_SIZE + of_nat (x - ?b)) else disk s p x)"
  have run: "run_command p (transfer (offset div 512) sec (kptr f) True) s = s\<lparr>disk := ?d\<rparr>"
    using lba_transfer[OF o] direct_kptr[OF f] by (simp add: run_command_def transfer_def Let_def cong: if_cong)
  have n60: "?n \<le> 2 ^ 60" using sec by simp
  have "?d q x = disk_put p (unat offset) bs (disk s) q x" for q x
  proof (cases "q = p \<and> ?b \<le> x \<and> x < ?b + ?n")
    case True
    then show ?thesis using written_sectors[OF m len n60, of x] by (simp add: div_mod_512)
  next
    case False
    moreover have "?b \<le> unat offset" "unat offset + length bs \<le> ?b + ?n" using len div_mod_512[of offset] by linarith+
    ultimately show ?thesis by (auto simp: disk_put_def)
  qed
  then have "?d = disk_put p (unat offset) bs (disk s)" by blast
  then show ?thesis using s' run by auto
qed

lemma store_in_box:
  assumes "f + n \<le> 2 ^ 35" and "k + length bs \<le> n * 4096" and "unat x div 4096 \<notin> {f..<f + n}" and "0 < n"
  shows "store_bytes m (of_nat f * PAGE_SIZE + of_nat k) bs x = m x"
proof -
  have f: "f < 2 ^ 52" using assms(1,4) by simp
  have u: "unat (of_nat f * PAGE_SIZE + of_nat k) = f * 4096 + k"
    using assms(1,2) unat_plus_no_wrap[of "of_nat f * PAGE_SIZE" k] by (simp add: unat_frame_addr[OF f])
  have out: "unat x < f * 4096 \<or> (f + n) * 4096 \<le> unat x"
    using assms(3) by (auto simp: less_eq_div_iff_mult_less_eq div_less_iff_less_mult not_le not_less)
  have "(f + n) * 4096 \<le> 2 ^ 47" using assms(1) by simp
  then have "length bs \<le> unat (x - (of_nat f * PAGE_SIZE + of_nat k))"
    using out assms(2) unfolding unat_minus_word u by (simp split: if_splits) linarith
  then show ?thesis by (simp add: store_bytes_def)
qed

lemma store_ok:
  assumes dev: "device_ready hw i p s" and fit: "transfer_fits offset bytes" and room: "box_room bytes s"
    and src: "source_bytes src bs s" "length bs = bytes"
  shows "\<exists>s'. ahci_store hw i offset bytes src s = Inr (Inr (sectors_of offset bytes * 512), s')
    \<and> device_ready hw i p s' \<and> same_kernel s s' \<and> disk s' = disk_put p (unat offset) bs (disk s)"
proof -
  let ?k = "sectors_of offset bytes" and ?o = "unat offset mod 512"
  note b = transfer_fits_small[OF fit]
  have d: "hba_serves hw" "pmm_wf s" "i < length (ahci_devices s)" "ahci_devices s ! i = p" using dev by (auto simp: device_ready_def)
  obtain tmp s1 where box: "pmm_box_new bytes s = Inr (tmp, s1)" using box_new_total[OF d(2) room b(4)] by blast
  from read_box[OF dev b(1-3) box] obtain f sec s2 where r: "box_data tmp = kptr f" "page_cnt tmp = ceil_div bytes 4096"
      "f + page_cnt tmp \<le> 2 ^ 35" "0 < page_cnt tmp" "f + page_cnt tmp \<le> frame_cnt s1" "frame_cnt s1 = frame_cnt s"
      "{f..<f + page_cnt tmp} \<subseteq> free_frames s" "free_frames s1 = free_frames s - {f..<f + page_cnt tmp}"
      "sector_count offset bytes = Inr sec" "unat sec = ?k"
      "send_command hw p (offset div 512) sec (box_data tmp) False s1 = Inr (Inr (?k * 512), s2)"
      "mem s2 = store_bytes (mem s1) (of_nat f * PAGE_SIZE) (disk_bytes p (unat offset div 512 * 512) (?k * 512) s)"
      "mem s1 = fill_bytes (mem s) (of_nat f * PAGE_SIZE) 0 (page_cnt tmp * 4096)"
      "port_ready p s2" "pmm_wf s2" "page_allocator s2 = page_allocator s1" "disk s2 = disk s"
      "ahci_devices s2 = ahci_devices s" "kernel_vmm s2 = kernel_vmm s" "ahci_state.more s2 = ahci_state.more s" by blast
  have f35: "f < 2 ^ 35" using r(3,4) by linarith
  have len: "?o + length bs \<le> ?k * 512" using sectors_of_bounds(2)[OF b(1)] src(2) by simp
  have fits: "?k * 512 \<le> page_cnt tmp * 4096" using fit r(2) by (simp add: transfer_fits_def)
  have mem2: "mem s2 x = mem s x" if "unat x div 4096 \<notin> free_frames s" for x
    unfolding r(12,13) using that fits r(3,7) by (intro box_store_frame) auto
  have srcs: "src s2 = bs" using src(1) mem2 r(19,20) by (simp add: source_bytes_def)
  have at: "direct (box_data tmp + offset mod 512) = of_nat f * PAGE_SIZE + of_nat ?o"
    using direct_kptr_plus[OF f35, of ?o] r(1) by (simp add: offset_mod_of_nat[of offset])
  let ?s3 = "s2\<lparr>mem := store_bytes (mem s2) (of_nat f * PAGE_SIZE + of_nat ?o) bs\<rparr>"
  have rdy3: "port_ready p ?s3" using r(14) by (simp add: port_ready_def)
  have sec: "0 < unat sec" "unat sec \<le> 8192" using r(10) b(2) sectors_of_bounds(1)[OF b(1), of offset] by simp_all
  have m3: "mem ?s3 = store_bytes (store_bytes (mem s1) (of_nat f * PAGE_SIZE) (disk_bytes p (unat offset div 512 * 512) (unat sec * 512) ?s3))
       (of_nat f * PAGE_SIZE + of_nat ?o) bs" using r(12,17) by (simp add: r(10) disk_bytes_def)
  have len3: "?o + length bs \<le> unat sec * 512" using len by (simp add: r(10))
  from write_box[OF d(1) rdy3 f35 sec b(3) m3 len3] obtain s4 where s4:
      "send_command hw p (offset div 512) sec (kptr f) True ?s3 = Inr (Inr (?k * 512), s4)"
      "disk s4 = disk_put p (unat offset) bs (disk s)" "mem s4 = mem ?s3" "page_allocator s4 = page_allocator s1" "port_ready p s4"
      "ahci_devices s4 = ahci_devices s" "kernel_vmm s4 = kernel_vmm s" "ahci_state.more s4 = ahci_state.more s"
    using r(10,16-20) by auto
  have al: "free_frames s4 = free_frames s1" "frame_cnt s4 = frame_cnt s1" "pmm_wf s4" using s4(4) r(15,16)
    by (simp_all add: free_frames_def frame_cnt_def pmm_wf_def)
  have cnt: "f + page_cnt tmp \<le> frame_cnt s4" using r(5) al by simp
  from drop_box[OF al(3) r(1) cnt f35] obtain s5 where s5: "pmm_box_drop tmp s4 = Inr s5"
      "free_frames s5 = free_frames s4 \<union> {f..<f + page_cnt tmp}" "pmm_wf s5" "frame_cnt s5 = frame_cnt s4"
      "mem s5 = mem s4" "pmm_state.more s5 = pmm_state.more s4" by blast
  note same = ahci_more_fields[OF s5(6)]
  have "ahci_store hw i offset bytes src s = Inr (Inr (?k * 512), s5)"
    using d(3,4) box r(1,9,11) s4(1) s5(1) srcs at by (simp add: ahci_store_def)
  moreover have "device_ready hw i p s5"
    using d s5(3) s4(5,6) port_ready_more[OF s5(6)] same by (simp add: device_ready_def)
  moreover have "free_frames s5 = free_frames s" using s5(2) al r(7,8) by blast
  moreover have "mem s5 x = mem s x" if "unat x div 4096 \<notin> free_frames s" for x
  proof -
    have out: "unat x div 4096 \<notin> {f..<f + page_cnt tmp}" using that r(7) by blast
    have "?o + length bs \<le> page_cnt tmp * 4096" using len fits by (rule le_trans)
    then have "mem s5 x = mem s2 x" unfolding s5(5) s4(3) using store_in_box[OF r(3) _ out r(4)] by simp
    then show ?thesis using mem2[OF that] by simp
  qed
  ultimately show ?thesis using same r(6) al s4 s5(4) by (intro exI[of _ s5]) (simp add: same_kernel_def)
qed

lemma disk_bytes_at: "disk_bytes p a n s = bytes_at (disk s p) a n"
  by (simp add: disk_bytes_def bytes_at_def)

lemma disk_put_at: "disk_put p a bs d = d(p := put_bytes a bs (d p))"
  by (auto simp: disk_put_def put_bytes_def)

lemma read_ok:
  assumes "device_ready hw i p s" and "transfer_fits offset bytes" and "box_room bytes s"
  shows "\<exists>s'. ahci_read hw i offset bytes buffer s = Inr (Inr (sectors_of offset bytes * 512), s')
    \<and> load_bytes (mem s') (direct buffer) bytes = disk_bytes p (unat offset) bytes s
    \<and> disk s' = disk s \<and> free_frames s' = free_frames s \<and> frame_cnt s' = frame_cnt s \<and> device_ready hw i p s'
    \<and> ahci_devices s' = ahci_devices s \<and> kernel_vmm s' = kernel_vmm s \<and> ahci_state.more s' = ahci_state.more s
    \<and> (\<forall>x. unat x div 4096 \<notin> free_frames s \<and> bytes \<le> unat (x - direct buffer) \<longrightarrow> mem s' x = mem s x)"
proof -
  let ?D = "disk_bytes p (unat offset) bytes s"
  from fetch_ok[OF assms] obtain s1 where s1: "ahci_fetch hw i offset bytes s = Inr (Inr (sectors_of offset bytes * 512, ?D), s1)"
    "device_ready hw i p s1" "same_kernel s s1" "disk s1 = disk s" by blast
  let ?s' = "s1\<lparr>mem := store_bytes (mem s1) (direct buffer) ?D\<rparr>"
  have "load_bytes (mem ?s') (direct buffer) bytes = ?D"
    using load_store_same[of ?D "mem s1" "direct buffer"] transfer_fits_small(4)[OF assms(2)] by simp
  moreover have "device_ready hw i p ?s'" using s1(2) by (simp add: device_ready_def port_ready_def pmm_wf_def)
  moreover have "mem ?s' x = mem s x" if "unat x div 4096 \<notin> free_frames s" "bytes \<le> unat (x - direct buffer)" for x
    using that s1(3) by (simp add: same_kernel_def store_bytes_def)
  moreover have "free_frames ?s' = free_frames s" "frame_cnt ?s' = frame_cnt s"
    using s1(3) by (simp_all add: same_kernel_def free_frames_def frame_cnt_def)
  ultimately show ?thesis using s1(1,3,4) by (intro exI[of _ ?s']) (simp add: ahci_read_def same_kernel_def)
qed

section \<open>A controller that completes at once\<close>

text \<open>A concrete controller that executes a pending command at the next observation, and a machine with one device on port 0.\<close>

definition prompt_hba :: "nat \<Rightarrow> 'z ahci_state_scheme \<Rightarrow> 'z ahci_state_scheme" where
  "prompt_hba p s = (case List.find (\<lambda>i. ci (ports s p) = push_bit i 1) [0..<32] of
     None \<Rightarrow> s
   | Some slot \<Rightarrow> (case get_command_header (ports s p) slot of Inl _ \<Rightarrow> s | Inr hdr \<Rightarrow>
       (case get_command_table (headers s hdr) of Inl _ \<Rightarrow> s | Inr tbl \<Rightarrow> complete p slot hdr tbl s)))"

lemma find_slot:
  assumes "slot < 32" and "c = (push_bit slot 1 :: u32)"
  shows "List.find (\<lambda>i. c = push_bit i 1) [0..<32] = Some slot"
proof -
  have "push_bit i 1 \<noteq> (push_bit slot 1 :: u32)" if "i < slot" for i
  proof
    assume "push_bit i 1 = (push_bit slot 1 :: u32)"
    then have "bit (push_bit i 1 :: u32) slot = bit (push_bit slot 1 :: u32) slot" by (rule arg_cong)
    then show False using that assms(1) by (simp only: bit_push_1) simp
  qed
  then have "\<And>j. j < slot \<Longrightarrow> c \<noteq> push_bit j 1" using assms(2) by (metis (no_types))
  then show ?thesis using assms by (auto simp: find_upt_Some simp del: push_bit_of_1)
qed

lemma prompt_hba_serves: "hba_serves prompt_hba"
  unfolding hba_serves_def
proof (intro allI impI, elim conjE)
  fix s :: "'z ahci_state_scheme" and p slot hdr tbl
  assume a: "slot < 32" "ci (ports s p) = push_bit slot 1" "get_command_header (ports s p) slot = Inr hdr"
    "get_command_table (headers s hdr) = Inr tbl"
  have "prompt_hba p s = complete p slot hdr tbl s"
    unfolding prompt_hba_def find_slot[OF a(1,2)] using a(3,4) by simp
  then show "\<exists>n. (\<forall>k \<in> {1..n}. bit (ci (ports ((prompt_hba p ^^ k) s) p)) slot
              \<and> \<not> bit (interrupt_status (ports ((prompt_hba p ^^ k) s) p)) 30)
        \<and> (prompt_hba p ^^ Suc n) s = complete p slot hdr tbl s"
    by (intro exI[of _ 0]) simp
qed

definition idle_port :: port_registers where
  "idle_port = \<lparr>clb_lower = 0x1000, clb_higher = 0, fb_lower = 0, fb_higher = 0, interrupt_status = 0, interrupt_enable = 1,
     port_cmd = 0, port_reserved = 0, tfd = 0, port_signature = SATA_ATA, ssts = 0, sctl = 0, serr = 0, sact = 0, ci = 0, sntf = 0, fbs = 0,
     dev_sleep = 0, port_reserved2 = [], port_vendor_specific = []\<rparr>"

definition sample_header :: command_header where
  "sample_header = \<lparr>cfl_awp = 0, rbc_rsv_pmp = 0, prdtl = 0, prdbc = 0, ctaddr_lower = 0x2000, ctaddr_upper = 0, header_reserved = []\<rparr>"

definition sample_fis :: fis_reg_h2d where
  "sample_fis = \<lparr>fis_type = 0, mul_cmd = 0, fis_command = 0, featurel = 0, lba0 = 0, lba1 = 0, lba2 = 0, fis_device = 0, lba3 = 0,
     lba4 = 0, lba5 = 0, featureh = 0, countl = 0, counth = 0, icc = 0, control = 0, fis_reserved = 0\<rparr>"

definition sample_machine :: "(nat \<Rightarrow> u8) \<Rightarrow> 'z \<Rightarrow> 'z ahci_state_scheme" where
  "sample_machine d z = \<lparr>mem = (\<lambda>_. 0), page_allocator = Some \<lparr>bm_ptr = PHYS_BASE, bm_data = [0, - 1], bm_size = 2\<rparr>,
     kernel_vmm = None, cr3 = 0, flushed = [], config_space = (\<lambda>_. - 1), pci_devices = [],
     hba = \<lparr>capabilities = 0x80000000, ghc = 0, hba_interrupt_status = 0, port_implemented = 1, hba_version = 0, ccc_ctl = 0, ccc_ports = 0,
       em_loc = 0, em_ctl = 0, capabilities2 = 0, bohc = 0, hba_reserved = [], hba_vendor_specific = []\<rparr>, ports = (\<lambda>_. idle_port),
     headers = (\<lambda>_. sample_header),
     tables = (\<lambda>_. \<lparr>cmd_fis = sample_fis, atapi_cmd = [], table_reserved = [], prdt_entry = \<lparr>data_lower = 0, data_upper = 0, prdt_reserved = 0, bc_i = 0\<rparr>\<rparr>),
     ahci_devices = [0], disk = (\<lambda>_. d), \<dots> = z\<rparr>"

lemma sample_machine_free: "free_frames (sample_machine d z) = {8..<16}" "frame_cnt (sample_machine d z) = 16"
  by (simp_all add: free_frames_def frame_cnt_def sample_machine_def upper_ones bm_bits_def)

lemma sample_machine_room: "0 < n \<Longrightarrow> n \<le> 8 * 4096 \<Longrightarrow> box_room n (sample_machine d z)"
proof -
  assume n: "0 < n" "n \<le> 8 * 4096"
  let ?k = "ceil_div n 4096"
  have k: "0 < ?k" "?k \<le> 8" using ceil_div_le[of 4096 n] ceil_div_least[of 4096 n 8] n by (auto intro: gr0I)
  have "first_fit {8..<16} 16 ?k = Some 8"
    using k by (auto simp: first_fit_def find_upt_Some)
  then show ?thesis by (simp add: box_room_def sample_machine_free)
qed

lemma sample_machine_ready: "device_ready prompt_hba 0 0 (sample_machine d z)"
proof -
  have "pmm_wf (sample_machine d z)" by (simp add: pmm_wf_def sample_machine_def bm_wf_def bm_bits_def)
  moreover have "port_ready 0 (sample_machine d z)"
    by (simp add: port_ready_def sample_machine_def idle_port_def sample_header_def get_command_header_def get_command_table_def
        reg_pair_ptr_def wadd_def PHYS_BASE_def)
  ultimately show ?thesis by (simp add: device_ready_def prompt_hba_serves sample_machine_def)
qed

section \<open>Properties\<close>


lemma sectors_of_510: "sectors_of 510 4 = 2"
  by (simp add: sectors_of_def ceil_div_def)

lemma fits_510: "transfer_fits 510 4"
  by (simp add: transfer_fits_def sectors_of_510 ceil_div_def)




text \<open>
  The condition on the temporary buffer is needed: \<^verbatim>\<open>ahci::read\<close> allocates pages for \<open>bytes\<close> bytes, but lets the controller
  write all the sectors that the range touches. When these are more than the pages hold (a page-sized read at an unaligned offset,
  for instance), the bytes behind the buffer, which it does not own, are overwritten with the contents of the disk.
\<close>

theorem ahci_read_overruns:
  assumes dev: "device_ready hw i p s" and b: "0 < bytes" "sectors_of offset bytes \<le> 8192" "unat offset < 2 ^ 57"
    and box: "pmm_box_new bytes s = Inr (tmp, s1)" and k: "page_cnt tmp * 4096 + k < sectors_of offset bytes * 512"
  shows "\<exists>r s'. ahci_fetch hw i offset bytes s = Inr (Inr r, s')
    \<and> mem s' (direct (box_data tmp) + of_nat (page_cnt tmp * 4096 + k)) = disk s p (unat offset div 512 * 512 + (page_cnt tmp * 4096 + k))"
proof -
  let ?k = "sectors_of offset bytes" and ?j = "page_cnt tmp * 4096 + k"
  have d: "i < length (ahci_devices s)" "ahci_devices s ! i = p" using dev by (auto simp: device_ready_def)
  from read_box[OF dev b box] obtain f sec s2 where r: "box_data tmp = kptr f" "f + page_cnt tmp \<le> 2 ^ 35" "0 < page_cnt tmp"
      "f + page_cnt tmp \<le> frame_cnt s1" "sector_count offset bytes = Inr sec"
      "send_command hw p (offset div 512) sec (box_data tmp) False s1 = Inr (Inr (?k * 512), s2)"
      "mem s2 = store_bytes (mem s1) (of_nat f * PAGE_SIZE) (disk_bytes p (unat offset div 512 * 512) (?k * 512) s)"
      "pmm_wf s2" "page_allocator s2 = page_allocator s1" by blast
  have f35: "f < 2 ^ 35" using r(2,3) by linarith
  have cnt: "f + page_cnt tmp \<le> frame_cnt s2" using r(4,9) by (simp add: frame_cnt_def)
  from drop_box[OF r(8,1) cnt f35] obtain s3 where s3: "pmm_box_drop tmp s2 = Inr s3" "mem s3 = mem s2" by blast
  have "unat (of_nat ?j :: u64) = ?j" by (rule unat_of_nat_small) (use k b(2) in simp)
  then have "mem s2 (of_nat f * PAGE_SIZE + of_nat ?j) = disk s p (unat offset div 512 * 512 + ?j)"
    unfolding r(7) store_bytes_def using k by simp
  then have "mem s3 (direct (box_data tmp) + of_nat ?j) = disk s p (unat offset div 512 * 512 + ?j)"
    using s3(2) r(1) direct_kptr[OF f35] by simp
  then show ?thesis using d box r(5,6) s3(1) by (simp add: ahci_fetch_def)
qed

theorem ahci_read_overruns_witness:
  "\<exists>tmp s1 r s'. pmm_box_new 4096 (sample_machine (\<lambda>_. 7) ()) = Inr (tmp, s1) \<and> page_cnt tmp = 1
    \<and> ahci_fetch prompt_hba 0 1 4096 (sample_machine (\<lambda>_. 7) ()) = Inr (Inr r, s')
    \<and> mem s' (direct (box_data tmp) + 4096) = 7"
proof -
  let ?s = "sample_machine (\<lambda>_. 7) ()"
  have room: "box_room 4096 ?s" by (rule sample_machine_room) simp_all
  have wf: "pmm_wf ?s" using sample_machine_ready[of "\<lambda>_. 7" "()"] by (simp add: device_ready_def)
  obtain tmp s1 where box: "pmm_box_new 4096 ?s = Inr (tmp, s1)" using box_new_total[OF wf room] by auto
  have pc: "page_cnt tmp = 1" using box_new_effect[OF wf box] by (auto simp: ceil_div_def)
  have sec: "sectors_of 1 4096 = 9" by (simp add: sectors_of_def ceil_div_def)
  from ahci_read_overruns[OF sample_machine_ready _ _ _ box, of 1 0] obtain r s' where
    "ahci_fetch prompt_hba 0 1 4096 ?s = Inr (Inr r, s')" "mem s' (direct (box_data tmp) + 4096) = disk ?s 0 4096"
    by (auto simp: sec pc)
  then show ?thesis using box pc by (auto simp: sample_machine_def)
qed

end
