(* ===== verification/Ext2_Codec.thy ===== *)
theory Ext2_Codec
  imports Ext2 Ahci_Disk
begin

text \<open>
  The structures of ext2 on the disk: each encoding is read back by its decoding, so that a structure written through the driver is the
  structure read. The driver, on a ready device with a free page, is a block device for transfers of at most a page.
\<close>

section \<open>Codecs\<close>

lemma le_at_skip: "length x \<le> k \<Longrightarrow> le_at k n (x @ y) = le_at (k - length x) n y"
  by (simp add: le_at_def)

lemma le_at_here: "length x = n \<Longrightarrow> le_at 0 n (x @ y) = of_le x"
  by (simp add: le_at_def)

lemma le_at_last: "length x = n \<Longrightarrow> le_at 0 n x = of_le x"
  by (simp add: le_at_def)

lemmas le_at_simps = le_at_skip le_at_here le_at_last of_le_to_le

lemma superblock_length: "length (superblock_bytes sb) = 84"
  by (simp add: superblock_bytes_def)

lemma superblock_codec: "superblock_of (superblock_bytes sb) = sb"
  by (cases sb) (simp add: superblock_of_def superblock_bytes_def le_at_simps)

lemma descriptor_length: "length (bg_unused d) = 14 \<Longrightarrow> length (descriptor_bytes d) = 32"
  by (simp add: descriptor_bytes_def)

lemma descriptor_codec: "length (bg_unused d) = 14 \<Longrightarrow> descriptor_of (descriptor_bytes d) = d"
  by (cases d) (simp add: descriptor_of_def descriptor_bytes_def le_at_simps)

definition inode_wf :: "inode \<Rightarrow> bool" where
  "inode_wf n \<longleftrightarrow> length (direct_pointer n) = 12 \<and> length (os_specific2 n) = 3"

lemma length_concat_words: "length (concat (map (to_le 4) ws)) = 4 * length ws"
  by (induction ws) simp_all

lemma le_at_words:
  "i < length ws \<Longrightarrow> le_at (4 * i) 4 (concat (map (to_le 4) ws) @ rest) = (ws ! i :: u32)"
proof (induction ws arbitrary: i)
  case (Cons w ws)
  show ?case
  proof (cases i)
    case 0
    then show ?thesis by (simp add: le_at_simps)
  next
    case (Suc j)
    then show ?thesis using Cons by (simp add: le_at_simps)
  qed
qed simp

lemma inode_length: "inode_wf n \<Longrightarrow> length (inode_bytes n) = 128"
  by (simp add: inode_bytes_def inode_wf_def length_concat_words)

lemma map_nth_upt: "length ws = k \<Longrightarrow> map (\<lambda>i. ws ! i) [0..<k] = ws"
  by (auto simp: map_nth)

lemma inode_codec:
  assumes "inode_wf n"
  shows "inode_of (inode_bytes n) = n"
proof -
  let ?A = "concat [to_le 2 (type_and_permissions n), to_le 2 (in_user_id n), to_le 4 (sizel n), to_le 4 (last_access_time n),
       to_le 4 (creation_time n), to_le 4 (last_mod_time n), to_le 4 (deletion_time n), to_le 2 (in_group_id n),
       to_le 2 (ref_cnt n), to_le 4 (sectors_used n), to_le 4 (in_flags n), to_le 4 (inode_number n)]"
  let ?D = "concat (map (to_le 4) (direct_pointer n))"
  let ?I = "concat [to_le 4 (singly_ip n), to_le 4 (doubly_ip n), to_le 4 (triply_ip n), to_le 4 (gen_num n), to_le 4 (ext_ab n),
         to_le 4 (sizeh_dir_acl n), to_le 4 (fragment_block n)]"
  let ?O = "concat (map (to_le 4) (os_specific2 n))"
  have bytes: "inode_bytes n = ?A @ ?D @ ?I @ ?O" by (simp add: inode_bytes_def)
  have len: "length ?A = 40" "length ?D = 48" "length ?I = 28" using assms by (simp_all add: inode_wf_def length_concat_words)
  have d: "le_at (40 + 4 * i) 4 (inode_bytes n) = direct_pointer n ! i" if "i < 12" for i
    using that assms le_at_words[of i "direct_pointer n" "?I @ ?O"] unfolding bytes
    by (subst le_at_skip) (use len in \<open>simp_all add: inode_wf_def\<close>)
  have o: "le_at (116 + 4 * i) 4 (inode_bytes n) = os_specific2 n ! i" if "i < 3" for i
  proof -
    have "le_at (116 + 4 * i) 4 (inode_bytes n) = (le_at (4 * i) 4 ?O :: u32)"
      unfolding bytes append_assoc[symmetric] by (subst le_at_skip) (use len in simp_all)
    then show ?thesis using that assms le_at_words[of i "os_specific2 n" "[]"] by (simp add: inode_wf_def)
  qed
  have ds: "map (\<lambda>i. le_at (40 + 4 * i) 4 (inode_bytes n)) [0..<12] = direct_pointer n"
    using assms by (intro nth_equalityI) (simp_all add: d inode_wf_def)
  have os: "map (\<lambda>i. le_at (116 + 4 * i) 4 (inode_bytes n)) [0..<3] = os_specific2 n"
    using assms by (intro nth_equalityI) (simp_all add: o inode_wf_def)
  show ?thesis unfolding inode_of_def ds os using assms len(2)
    by (cases n) (simp add: inode_bytes_def le_at_simps length_concat_words inode_wf_def)
qed

interpretation sb_codec: record_codec superblock_bytes superblock_of 84 "\<lambda>_. True"
  by unfold_locales (simp_all add: superblock_codec superblock_length)

interpretation bg_codec: record_codec descriptor_bytes descriptor_of 32 "\<lambda>d. length (bg_unused d) = 14"
  by unfold_locales (simp_all add: descriptor_codec descriptor_length)

interpretation in_codec: record_codec inode_bytes inode_of 128 inode_wf
  by unfold_locales (simp_all add: inode_codec inode_length)

section \<open>The driver as a block device\<close>

definition disk_ready :: "'z disk_hw \<Rightarrow> nat \<Rightarrow> 'z ext2_state_scheme \<Rightarrow> bool" where
  "disk_ready hw p s \<longleftrightarrow> device_ready hw 0 p s \<and> 0 \<notin> free_frames s \<and> free_frames s \<noteq> {}"

definition page_fits :: "nat \<Rightarrow> nat \<Rightarrow> bool" where
  "page_fits a n \<longleftrightarrow> 0 < n \<and> a mod 512 + n \<le> 4096 \<and> a < 2 ^ 57"

lemma one_page: "0 < n \<Longrightarrow> n \<le> 4096 \<Longrightarrow> ceil_div n 4096 = 1"
  by (rule ceil_div_eqI) simp_all

lemma page_fits_transfer:
  assumes "page_fits a n"
  shows "transfer_fits (of_nat a) n" "unat (of_nat a :: u64) = a" "n \<le> 4096" "0 < n"
proof -
  show n: "n \<le> 4096" "0 < n" using assms by (auto simp: page_fits_def)
  show a: "unat (of_nat a :: u64) = a" using assms by (intro unat_of_nat_small) (simp add: page_fits_def)
  have "sectors_of (of_nat a) n \<le> 8"
    unfolding sectors_of_def a using assms by (intro ceil_div_least) (simp_all add: page_fits_def)
  then show "transfer_fits (of_nat a) n" using n a assms by (simp add: transfer_fits_def one_page page_fits_def)
qed

lemma disk_ready_room:
  assumes "disk_ready hw p s" and "0 < n" "n \<le> 4096"
  shows "box_room n s"
proof -
  obtain a where "a \<in> free_frames s" using assms(1) by (auto simp: disk_ready_def)
  then show ?thesis using assms(1) by (intro box_room_run[of s a]) (auto simp: disk_ready_def device_ready_def one_page[OF assms(2,3)])
qed

lemma disk_ready_same: "same_kernel s s' \<Longrightarrow> device_ready hw 0 p s' \<Longrightarrow> disk_ready hw p s \<Longrightarrow> disk_ready hw p s'"
  by (simp add: disk_ready_def same_kernel_def)

lemma read_at_ok:
  assumes "disk_ready hw p s" and "page_fits a n"
  shows "\<exists>s'. read_at hw a n s = Inr (bytes_at (disk s p) a n, s') \<and> disk_ready hw p s' \<and> same_kernel s s' \<and> disk s' = disk s"
proof -
  note f = page_fits_transfer[OF assms(2)]
  have "device_ready hw 0 p s" using assms(1) by (simp add: disk_ready_def)
  from fetch_ok[OF this f(1) disk_ready_room[OF assms(1) f(4,3)]] obtain s' where
    s': "ahci_fetch hw 0 (of_nat a) n s = Inr (Inr (sectors_of (of_nat a) n * 512, disk_bytes p a n s), s')"
      "device_ready hw 0 p s'" "same_kernel s s'" "disk s' = disk s" unfolding f(2) by blast
  then show ?thesis using disk_ready_same[OF s'(3,2) assms(1)] by (simp add: read_at_def unwrap_ok_def disk_bytes_at)
qed

lemma write_at_ok:
  assumes "disk_ready hw p s" and "page_fits a (length bs)"
  shows "\<exists>s'. write_at hw a bs s = Inr s' \<and> disk_ready hw p s' \<and> same_kernel s s'
    \<and> disk s' = (disk s)(p := put_bytes a bs (disk s p))"
proof -
  note f = page_fits_transfer[OF assms(2)]
  have "device_ready hw 0 p s" using assms(1) by (simp add: disk_ready_def)
  from store_ok[OF this f(1) disk_ready_room[OF assms(1) f(4,3)] source_bytes_const refl] obtain s' where
    s': "ahci_store hw 0 (of_nat a) (length bs) (\<lambda>_. bs) s = Inr (Inr (sectors_of (of_nat a) (length bs) * 512), s')"
      "device_ready hw 0 p s'" "same_kernel s s'" "disk s' = disk_put p a bs (disk s)" unfolding f(2) by blast
  then show ?thesis using disk_ready_same[OF s'(3,2) assms(1)] by (simp add: write_at_def unwrap_ok_def disk_put_at)
qed

interpretation ext2_dev: block_device "read_at hw" "write_at hw" "\<lambda>s. disk s p" "disk_ready hw p" page_fits same_kernel
  for hw :: "'z disk_hw" and p
proof
  show "\<exists>s'. read_at hw a n s = Inr (bytes_at (disk s p) a n, s') \<and> disk_ready hw p s' \<and> same_kernel s s' \<and> disk s' p = disk s p"
    if "disk_ready hw p s" "page_fits a n" for s a n using read_at_ok[OF that] by auto
  show "\<exists>s'. write_at hw a bs s = Inr s' \<and> disk_ready hw p s' \<and> same_kernel s s' \<and> disk s' p = put_bytes a bs (disk s p)"
    if "disk_ready hw p s" "page_fits a (length bs)" for s a bs using write_at_ok[OF that] by auto
qed (rule same_kernel_trans)

interpretation sb_rec: disk_record "read_at hw" "write_at hw" "\<lambda>s. disk s p" "disk_ready hw p" page_fits same_kernel
    superblock_bytes superblock_of 84 "\<lambda>_. True"
  for hw :: "'z disk_hw" and p
  by unfold_locales

interpretation bg_rec: disk_record "read_at hw" "write_at hw" "\<lambda>s. disk s p" "disk_ready hw p" page_fits same_kernel
    descriptor_bytes descriptor_of 32 "\<lambda>d. length (bg_unused d) = 14"
  for hw :: "'z disk_hw" and p
  by unfold_locales

interpretation in_rec: disk_record "read_at hw" "write_at hw" "\<lambda>s. disk s p" "disk_ready hw p" page_fits same_kernel
    inode_bytes inode_of 128 inode_wf
  for hw :: "'z disk_hw" and p
  by unfold_locales

end
