(* ===== verification/Ext2_Blocks.thy ===== *)
theory Ext2_Blocks
  imports Ext2_Codec
begin

text \<open>
  Where ext2 keeps things: the tables of the block groups, the inodes, the blocks of a file through the tree of indirect blocks, and the
  bitmaps of the allocator. The on-disk layout is described on the contents of the disk; the operations of the driver are
  shown to read and write exactly there.
\<close>

section \<open>Geometry\<close>

definition fs_ok :: "ext2_filesystem \<Rightarrow> bool" where
  "fs_ok fs \<longleftrightarrow> block_size fs \<in> {1024, 2048, 4096} \<and> starting_lba fs < 2 ^ 40 \<and> sb_inodes_per_group (fs_superblock fs) \<noteq> 0"

definition mounted :: "'z disk_hw \<Rightarrow> nat \<Rightarrow> ext2_filesystem \<Rightarrow> 'z ext2_state_scheme \<Rightarrow> bool" where
  "mounted hw p fs s \<longleftrightarrow> disk_ready hw p s \<and> ext2_fs s = Some fs \<and> fs_ok fs"

text \<open>A step that only reads.\<close>

definition reads_only :: "'z disk_hw \<Rightarrow> nat \<Rightarrow> ext2_filesystem \<Rightarrow> 'z ext2_state_scheme \<Rightarrow> 'z ext2_state_scheme \<Rightarrow> bool" where
  "reads_only hw p fs s s' \<longleftrightarrow> mounted hw p fs s' \<and> same_kernel s s' \<and> disk s' = disk s"

lemma same_kernel_ext2: "same_kernel s s' \<Longrightarrow> ext2_fs s' = ext2_fs s" "same_kernel s s' \<Longrightarrow> inode_table s' = inode_table s"
  for s :: "'z ext2_state_scheme"
  by (cases s, cases s', simp add: same_kernel_def)+

lemma the_fs_mounted: "mounted hw p fs s \<Longrightarrow> the_fs s = Inr fs"
  by (simp add: mounted_def the_fs_def unwrap_def)

lemma reads_only_trans: "reads_only hw p fs s t \<Longrightarrow> reads_only hw p fs t u \<Longrightarrow> reads_only hw p fs s u"
  by (auto simp: reads_only_def intro: same_kernel_trans)

lemma fs_ok_bounds:
  assumes "fs_ok fs"
  shows "1024 \<le> block_size fs" "block_size fs \<le> 4096" "starting_lba fs < 2 ^ 40" "block_size fs mod 512 = 0"
    "0 < unat (sb_inodes_per_group (fs_superblock fs))" "0 < block_size fs"
  using assms by (auto simp: fs_ok_def unat_gt_0)

text \<open>The position of byte \<open>e\<close> of a block.\<close>

definition byte_pos :: "ext2_filesystem \<Rightarrow> nat \<Rightarrow> nat \<Rightarrow> nat" where
  "byte_pos fs b e = starting_lba fs * 512 + b * block_size fs + e"

lemma byte_pos_bound:
  assumes "fs_ok fs" "b < 2 ^ 32" "e < 2 ^ 50"
  shows "byte_pos fs b e < 2 ^ 57"
proof -
  have "b * block_size fs \<le> 2 ^ 32 * 4096" using assms(2) fs_ok_bounds(2)[OF assms(1)] by (intro mult_mono) simp_all
  then show ?thesis using fs_ok_bounds(3)[OF assms(1)] assms(3) by (simp add: byte_pos_def)
qed

lemma block_offset_eq:
  assumes "fs_ok fs" "b < 2 ^ 32" "e < 2 ^ 50"
  shows "block_offset fs b (Inr e) = Inr (byte_pos fs b e)"
proof -
  have "starting_lba fs * 512 + b * block_size fs + e < 2 ^ 57" using byte_pos_bound[OF assms] by (simp add: byte_pos_def)
  then show ?thesis by (simp add: block_offset_def umul_def uadd_def byte_pos_def)
qed

lemma mounted_read:
  assumes "mounted hw p fs s" and "page_fits a n"
  shows "\<exists>s'. read_at hw a n s = Inr (bytes_at (disk s p) a n, s') \<and> reads_only hw p fs s s'"
  using read_at_ok[of hw p s a n] assms same_kernel_ext2(1) by (fastforce simp: mounted_def reads_only_def)

lemma mounted_write:
  assumes "mounted hw p fs s" and "page_fits a (length bs)"
  shows "\<exists>s'. write_at hw a bs s = Inr s' \<and> mounted hw p fs s' \<and> same_kernel s s'
    \<and> disk s' = (disk s)(p := put_bytes a bs (disk s p))"
  using write_at_ok[of hw p s a bs] assms same_kernel_ext2(1) by (fastforce simp: mounted_def)

section \<open>The blocks of a file\<close>

text \<open>Entry \<open>i\<close> of the table of addresses in block \<open>b\<close>, and the address at the end of a path of entries.\<close>

definition addr_entry :: "(nat \<Rightarrow> u8) \<Rightarrow> ext2_filesystem \<Rightarrow> u32 \<Rightarrow> nat \<Rightarrow> u32" where
  "addr_entry c fs b i = of_le (bytes_at c (byte_pos fs (unat b) (i * 4)) 4)"

definition addr_path :: "(nat \<Rightarrow> u8) \<Rightarrow> ext2_filesystem \<Rightarrow> u32 \<Rightarrow> nat list \<Rightarrow> u32" where
  "addr_path c fs b is = foldl (addr_entry c fs) b is"

text \<open>
  The layout of ext2: twelve direct blocks, then trees of depth 1, 2 and 3 whose nodes have \<open>a\<close> entries each; a block of a tree is reached
  by the digits of its number in base \<open>a\<close>.
\<close>

definition ref_block :: "(nat \<Rightarrow> u8) \<Rightarrow> ext2_filesystem \<Rightarrow> inode \<Rightarrow> nat \<Rightarrow> u32" where
  "ref_block c fs n i =
     (let a = block_size fs div 4 in
      if i < 12 then direct_pointer n ! i
      else if i < 12 + a then addr_path c fs (singly_ip n) [i - 12]
      else if i < 12 + a + a\<^sup>2 then
        (let j = i - (12 + a) in addr_path c fs (doubly_ip n) [j div a, j mod a])
      else
        (let j = i - (12 + a + a\<^sup>2) in addr_path c fs (triply_ip n) [j div a\<^sup>2, j div a mod a, j mod a]))"

lemma read_address_ok:
  assumes "mounted hw p fs s" and "i < 2 ^ 40"
  shows "\<exists>s'. read_address hw fs b i s = Inr (addr_entry (disk s p) fs b i, s') \<and> reads_only hw p fs s s'"
proof -
  let ?a = "byte_pos fs (unat b) (i * 4)"
  have ok: "fs_ok fs" using assms(1) by (simp add: mounted_def)
  have b: "unat b < 2 ^ 32" using unat_less_limit[of b] by simp
  have i: "i * 4 < 2 ^ 50" using assms(2) by simp
  have "?a mod 512 < 512" by (rule mod_less_divisor) simp
  then have "page_fits ?a 4" using byte_pos_bound[OF ok b i] by (simp add: page_fits_def)
  from mounted_read[OF assms(1) this] obtain s' where
    s': "read_at hw ?a 4 s = Inr (bytes_at (disk s p) ?a 4, s')" "reads_only hw p fs s s'" by blast
  have "umul i 4 = Inr (i * 4)" using i by (simp add: umul_def)
  then have "read_address hw fs b i s = Inr (addr_entry (disk s p) fs b i, s')"
    unfolding read_address_def addr_entry_def by (simp only: block_offset_eq[OF ok b i] s'(1) bnd_Inr prod.case)
  then show ?thesis using s'(2) by blast
qed

lemma read_address_reads:
  assumes "reads_only hw p fs s t" and "i < 2 ^ 40"
  shows "\<exists>s'. read_address hw fs b i t = Inr (addr_entry (disk s p) fs b i, s') \<and> reads_only hw p fs s s'"
proof -
  have t: "mounted hw p fs t" "disk t = disk s" using assms(1) by (simp_all add: reads_only_def)
  from read_address_ok[OF t(1) assms(2), of b] show ?thesis unfolding t(2) using reads_only_trans[OF assms(1)] by blast
qed

lemma reads_only_refl: "mounted hw p fs s \<Longrightarrow> reads_only hw p fs s s"
  by (simp add: reads_only_def)

text \<open>The path the code follows: its last two digits are taken in base 1024 whatever the size of the blocks.\<close>

lemma get_block_address_steps:
  assumes m: "mounted hw p fs s" and wf: "inode_wf n" and i: "i < 2 ^ 40"
  defines "a \<equiv> block_size fs div 4" and "c \<equiv> disk s p"
  shows "\<exists>s'. reads_only hw p fs s s' \<and> get_block_address hw n i s = Inr
    (if i < 12 + a + a\<^sup>2 then ref_block c fs n i
     else let j = i - (12 + a + a\<^sup>2) in addr_path c fs (triply_ip n) [j div a\<^sup>2, j mod a\<^sup>2 div 1024, j mod a\<^sup>2 mod 1024], s')"
proof -
  note fs = the_fs_mounted[OF m]
  have ok: "fs_ok fs" using m by (simp add: mounted_def)
  have a: "0 < a" "a \<le> 1024" using fs_ok_bounds[OF ok] by (auto simp: a_def)
  have sq: "umul a a = Inr (a\<^sup>2)" using mult_mono[OF a(2) a(2)] by (simp add: umul_def power2_eq_square)
  have a2: "0 < a\<^sup>2" using a by simp
  have r0: "reads_only hw p fs s s" using m by (rule reads_only_refl)
  consider (direct) "i < 12" | (single) "12 \<le> i" "i < 12 + a" | (double) "12 + a \<le> i" "i < 12 + a + a\<^sup>2" | (triple) "12 + a + a\<^sup>2 \<le> i"
    by linarith
  then show ?thesis
  proof cases
    case direct
    then show ?thesis using wf r0 fs by (intro exI[of _ s]) (simp add: get_block_address_def ref_block_def inode_wf_def)
  next
    case single
    then have "\<not> i < 12" "i - 12 < a" "i - 12 < 2 ^ 40" using i by auto
    from read_address_reads[OF r0 this(3), of "singly_ip n"] this(1,2) single show ?thesis
      by (auto simp: get_block_address_def fs ref_block_def addr_path_def c_def a_def[symmetric] Let_def)
  next
    case double
    let ?j = "i - (12 + a)"
    have j: "i - 12 - a = ?j" "\<not> i < 12" "\<not> i - 12 < a" "?j < a\<^sup>2" "?j div a < 2 ^ 40" "?j mod a < 2 ^ 40"
      using double i div_le_dividend[of ?j a] mod_less_eq_dividend[of ?j a] by linarith+
    from read_address_reads[OF r0 j(5), of "doubly_ip n"] obtain s1 where
      s1: "read_address hw fs (doubly_ip n) (?j div a) s = Inr (addr_entry c fs (doubly_ip n) (?j div a), s1)" "reads_only hw p fs s s1"
      unfolding c_def by blast
    from read_address_reads[OF s1(2) j(6), of "addr_entry c fs (doubly_ip n) (?j div a)"] obtain s2 where
      s2: "read_address hw fs (addr_entry c fs (doubly_ip n) (?j div a)) (?j mod a) s1
        = Inr (addr_entry c fs (addr_entry c fs (doubly_ip n) (?j div a)) (?j mod a), s2)" "reads_only hw p fs s s2"
      unfolding c_def by blast
    have "get_block_address hw n i s = Inr (addr_entry c fs (addr_entry c fs (doubly_ip n) (?j div a)) (?j mod a), s2)"
      using j(2-4) s1(1) s2(1) a by (simp add: get_block_address_def fs a_def[symmetric] Let_def sq j(1) udiv_def umod_def)
    moreover have "ref_block c fs n i = addr_entry c fs (addr_entry c fs (doubly_ip n) (?j div a)) (?j mod a)"
      using double by (simp add: ref_block_def a_def[symmetric] Let_def addr_path_def)
    ultimately show ?thesis using s2(2) double by auto
  next
    case triple
    let ?j = "i - (12 + a + a\<^sup>2)"
    let ?b = "?j mod a\<^sup>2"
    have bj: "?b \<le> ?j" "?j div a\<^sup>2 \<le> ?j" "?b div 1024 \<le> ?b" "?b mod 1024 \<le> ?b" "?j \<le> i"
      by (rule mod_less_eq_dividend div_le_dividend diff_le_self)+
    have j: "i - 12 - a - a\<^sup>2 = ?j" "\<not> i < 12" "\<not> i - 12 < a" "\<not> i - 12 - a < a\<^sup>2" "\<not> i < 12 + a + a\<^sup>2"
      using triple by linarith+
    have d: "?j div a\<^sup>2 < 2 ^ 40" "?b div 1024 < 2 ^ 40" "?b mod 1024 < 2 ^ 40" using bj i by linarith+
    from read_address_reads[OF r0 d(1), of "triply_ip n"] obtain s1 where
      s1: "read_address hw fs (triply_ip n) (?j div a\<^sup>2) s = Inr (addr_entry c fs (triply_ip n) (?j div a\<^sup>2), s1)" "reads_only hw p fs s s1"
      unfolding c_def by blast
    let ?x = "addr_entry c fs (triply_ip n) (?j div a\<^sup>2)"
    from read_address_reads[OF s1(2) d(2), of ?x] obtain s2 where
      s2: "read_address hw fs ?x (?b div 1024) s1 = Inr (addr_entry c fs ?x (?b div 1024), s2)" "reads_only hw p fs s s2"
      unfolding c_def by blast
    let ?y = "addr_entry c fs ?x (?b div 1024)"
    from read_address_reads[OF s2(2) d(3), of ?y] obtain s3 where
      s3: "read_address hw fs ?y (?b mod 1024) s2 = Inr (addr_entry c fs ?y (?b mod 1024), s3)" "reads_only hw p fs s s3"
      unfolding c_def by blast
    have "get_block_address hw n i s = Inr (addr_entry c fs ?y (?b mod 1024), s3)"
      using j(2-4) s1(1) s2(1) s3(1) a2 by (simp add: get_block_address_def fs a_def[symmetric] Let_def sq j(1) udiv_def umod_def)
    then show ?thesis using s3(2) j(5) by (intro exI[of _ s3]) (simp add: Let_def addr_path_def)
  qed
qed

text \<open>The blocks whose address the code finds.\<close>

definition reachable_block :: "ext2_filesystem \<Rightarrow> nat \<Rightarrow> bool" where
  "reachable_block fs i \<longleftrightarrow> i < 2 ^ 40 \<and> (i < 12 + block_size fs div 4 + (block_size fs div 4)\<^sup>2 \<or> block_size fs = 4096)"

lemma get_block_address_ok:
  assumes "mounted hw p fs s" and "inode_wf n" and "reachable_block fs i"
  shows "\<exists>s'. get_block_address hw n i s = Inr (ref_block (disk s p) fs n i, s') \<and> reads_only hw p fs s s'"
proof -
  let ?a = "block_size fs div 4" and ?c = "disk s p"
  have i: "i < 2 ^ 40" "i < 12 + ?a + ?a\<^sup>2 \<or> block_size fs = 4096" using assms(3) by (simp_all add: reachable_block_def)
  have "ref_block ?c fs n i = (let j = i - (12 + ?a + ?a\<^sup>2) in addr_path ?c fs (triply_ip n) [j div ?a\<^sup>2, j mod ?a\<^sup>2 div 1024, j mod ?a\<^sup>2 mod 1024])"
    if big: "\<not> i < 12 + ?a + ?a\<^sup>2"
  proof -
    have a: "?a = 1024" using that i(2) by simp
    have d: "j mod 1024\<^sup>2 div 1024 = j div 1024 mod 1024" for j :: nat
      using mod_mult2_eq[of j 1024 1024] by (simp add: power2_eq_square)
    have m: "j mod 1024\<^sup>2 mod 1024 = j mod 1024" for j :: nat
      by (rule mod_mod_cancel) simp
    show ?thesis using big unfolding ref_block_def a Let_def d m by simp
  qed
  then show ?thesis using get_block_address_steps[OF assms(1,2) i(1)] by (cases "i < 12 + ?a + ?a\<^sup>2") auto
qed

section \<open>Scratch bitmaps\<close>

lemma fill_page_apart:
  assumes "f < 2 ^ 35" and "unat x div 4096 \<noteq> f"
  shows "fill_bytes m (of_nat f * PAGE_SIZE) 0 4096 x = m x"
  using box_store_frame[of f 1 "[]" x m] assms by (simp add: store_bytes_def)

lemma mounted_alloc_page:
  assumes "mounted hw p fs s" and "2 \<le> card (free_frames s)" and "pmm_wf s1" and "free_frames s1 = free_frames s - {f}"
    and "pmm_state.more s1 = pmm_state.more s"
  shows "mounted hw p fs s1" "disk s1 = disk s"
proof -
  note same = ahci_more_fields[OF assms(5)]
  show "disk s1 = disk s" by (rule same)
  have fin: "finite (free_frames s)" using assms(2) card.infinite by fastforce
  have "1 \<le> card (free_frames s1)" using assms(2) fin unfolding assms(4) card_Diff_singleton_if by (split if_split) (intro conjI impI; linarith)
  then have "free_frames s1 \<noteq> {}" by auto
  moreover have "ext2_fs s1 = ext2_fs s" using same(7) by (cases s, cases s1) simp
  moreover have "device_ready hw 0 p s1"
    using assms(1,3) same port_ready_more[OF assms(5)] by (simp add: mounted_def disk_ready_def device_ready_def)
  ultimately show "mounted hw p fs s1" using assms(1,4) by (simp add: mounted_def disk_ready_def)
qed

lemma mounted_free_page:
  assumes "mounted hw p fs t" and "0 < f" "f < frame_cnt t" "f < 2 ^ 35" and "bm_ptr bm = kptr f" "0 < bm_size bm" "bm_size bm \<le> 4096"
  shows "\<exists>t'. bitmap_drop bm t = Inr t' \<and> mounted hw p fs t' \<and> free_frames t' = insert f (free_frames t) \<and> frame_cnt t' = frame_cnt t
    \<and> mem t' = mem t \<and> pmm_state.more t' = pmm_state.more t"
proof -
  have wf: "pmm_wf t" using assms(1) by (simp add: mounted_def disk_ready_def device_ready_def)
  have "unat (direct (bm_ptr bm)) div 4096 = f" using assms(4,5) by (simp add: direct_kptr unat_frame_addr)
  from pmm_free_frames[OF wf this, of 1] assms(3) obtain t' where t': "pmm_free (bm_ptr bm) 1 t = Inr t'"
    "free_frames t' = insert f (free_frames t)" "frame_cnt t' = frame_cnt t" "pmm_wf t'" "mem t' = mem t"
    "pmm_state.more t' = pmm_state.more t" by auto
  note same = ahci_more_fields[OF t'(6)]
  have "div_ceil (bm_size bm) 4096 = Inr 1" using assms(6,7) by (simp add: div_ceil_eq one_page)
  then have "bitmap_drop bm t = Inr t'" using t'(1) by (simp add: bitmap_drop_def)
  moreover have "ext2_fs t' = ext2_fs t" using same(7) by (cases t, cases t') simp
  moreover have "device_ready hw 0 p t'"
    using assms(1) t'(4) same port_ready_more[OF t'(6)] by (simp add: mounted_def disk_ready_def device_ready_def)
  ultimately show ?thesis using assms(1,2) t' by (intro exI[of _ t']) (simp add: mounted_def disk_ready_def)
qed

lemma scratch_bitmap:
  assumes m: "mounted hw p fs s" and c: "2 \<le> card (free_frames s)" and n: "0 < n" "n \<le> 4096"
  shows "\<exists>bm s1. bitmap_new n s = Inr (bm, s1) \<and> bm_size bm = n \<and> length (bm_data bm) = n \<and> mounted hw p fs s1 \<and> disk s1 = disk s
    \<and> (\<forall>bm' t. bm_shape bm' = bm_shape bm \<and> mounted hw p fs t \<and> same_kernel s1 t \<longrightarrow>
          (\<exists>t'. bitmap_drop bm' t = Inr t' \<and> mounted hw p fs t' \<and> same_kernel s t' \<and> disk t' = disk t))"
proof -
  have wf: "pmm_wf s" and dr: "disk_ready hw p s" using m by (simp_all add: mounted_def disk_ready_def device_ready_def)
  from calloc_one[OF wf] dr obtain a s1 where a: "pmm_calloc 1 s = Inr (Some a, s1)" by (auto simp: disk_ready_def)
  from calloc_frame[OF wf a] obtain f where f: "as_u64 (higher_half a) = kptr f" "0 < f" "f + 1 \<le> 2 ^ 35" "f \<in> free_frames s"
      "free_frames s1 = free_frames s - {f}" "pmm_wf s1" "frame_cnt s1 = frame_cnt s"
      "mem s1 = fill_bytes (mem s) (of_nat f * PAGE_SIZE) 0 4096" "pmm_state.more s1 = pmm_state.more s" by auto
  have f35: "f < 2 ^ 35" "f < frame_cnt s" using f(3,4) pmm_wf_cap[OF wf] by auto
  let ?bm = "bitmap_from_raw_ptr (mem s1) (kptr f) n"
  have "div_ceil n 4096 = Inr 1" using n by (simp add: div_ceil_eq one_page)
  then have new: "bitmap_new n s = Inr (?bm, s1)" using a f(1) by (simp add: bitmap_new_def)
  have bm: "bm_size ?bm = n" "length (bm_data ?bm) = n" "bm_ptr ?bm = kptr f" by (simp_all add: bitmap_from_raw_ptr_def)
  note m1 = mounted_alloc_page[OF m c f(6,5,9)]
  have "\<exists>t'. bitmap_drop bm' t = Inr t' \<and> mounted hw p fs t' \<and> same_kernel s t' \<and> disk t' = disk t"
    if t: "bm_shape bm' = bm_shape ?bm" "mounted hw p fs t" "same_kernel s1 t" for bm' t
  proof -
    have b: "bm_ptr bm' = kptr f" "bm_size bm' = n" using t(1) bm by (simp_all add: bm_shape_def)
    have ft: "f < frame_cnt t" using t(3) f35(2) f(7) by (simp add: same_kernel_def)
    from mounted_free_page[OF t(2) f(2) ft f35(1) b(1)] n b(2) obtain t' where t': "bitmap_drop bm' t = Inr t'" "mounted hw p fs t'"
      "free_frames t' = insert f (free_frames t)" "frame_cnt t' = frame_cnt t" "mem t' = mem t" "pmm_state.more t' = pmm_state.more t" by auto
    have ff: "free_frames t' = free_frames s" using t'(3) t(3) f(4,5) by (auto simp: same_kernel_def)
    have "mem t' x = mem s x" if "unat x div 4096 \<notin> free_frames s" for x
      using that t(3) t'(5) f(4,5,8) fill_page_apart[OF f35(1), of x "mem s"] by (auto simp: same_kernel_def)
    then have "same_kernel s t'"
      using ff t'(4) t(3) f(7) ahci_more_fields[OF t'(6)] ahci_more_fields[OF f(9)] by (simp add: same_kernel_def)
    then show ?thesis using t'(1,2) ahci_more_fields[OF t'(6)] by blast
  qed
  then show ?thesis using new bm m1 by blast
qed

section \<open>Block groups\<close>

definition desc_pos :: "ext2_filesystem \<Rightarrow> nat \<Rightarrow> nat" where
  "desc_pos fs g = byte_pos fs (if block_size fs > 1024 then 1 else 2) (g * 32)"

definition disk_descriptor :: "(nat \<Rightarrow> u8) \<Rightarrow> ext2_filesystem \<Rightarrow> nat \<Rightarrow> block_group_descriptor" where
  "disk_descriptor c fs g = descriptor_of (bytes_at c (desc_pos fs g) 32)"

lemma small_fits:
  assumes "a < 2 ^ 57" "0 < n" "n \<le> 3584"
  shows "page_fits a n"
proof -
  have "a mod 512 < 512" by (rule mod_less_divisor) simp
  then show ?thesis using assms by (simp add: page_fits_def)
qed

lemma desc_pos_fits:
  assumes "fs_ok fs" "g < 2 ^ 40"
  shows "page_fits (desc_pos fs g) 32" "descriptor_offset fs g = Inr (desc_pos fs g)"
proof -
  have g: "g * 32 < 2 ^ 50" using assms(2) by simp
  have b: "(if block_size fs > 1024 then 1 else 2) < (2 :: nat) ^ 32" by simp
  show "page_fits (desc_pos fs g) 32" using byte_pos_bound[OF assms(1) b g] by (intro small_fits) (simp_all add: desc_pos_def)
  have "umul g 32 = Inr (g * 32)" using g by (simp add: umul_def)
  then show "descriptor_offset fs g = Inr (desc_pos fs g)"
    using block_offset_eq[OF assms(1) b g] by (simp add: descriptor_offset_def desc_pos_def)
qed

lemma block_group_get_ok:
  assumes "mounted hw p fs s" and "g < 2 ^ 40"
  shows "\<exists>s'. block_group_get hw g s = Inr (\<lparr>bg_raw = disk_descriptor (disk s p) fs g, bg_index = g\<rparr>, s') \<and> reads_only hw p fs s s'"
proof -
  have ok: "fs_ok fs" using assms(1) by (simp add: mounted_def)
  note d = desc_pos_fits[OF ok assms(2)]
  from mounted_read[OF assms(1) d(1)] show ?thesis
    using d(2) by (auto simp: block_group_get_def the_fs_mounted[OF assms(1)] disk_descriptor_def)
qed

lemma disk_descriptor_wf: "length (bg_unused (disk_descriptor c fs g)) = 14"
  by (simp add: disk_descriptor_def descriptor_of_def)

lemma block_group_flush_ok:
  assumes "mounted hw p fs s" and "bg_index bg < 2 ^ 40" and "length (bg_unused (bg_raw bg)) = 14"
  shows "\<exists>s'. block_group_flush hw bg s = Inr s' \<and> mounted hw p fs s' \<and> same_kernel s s'
    \<and> disk s' = (disk s)(p := put_bytes (desc_pos fs (bg_index bg)) (descriptor_bytes (bg_raw bg)) (disk s p))"
proof -
  have ok: "fs_ok fs" using assms(1) by (simp add: mounted_def)
  note d = desc_pos_fits[OF ok assms(2)]
  have "page_fits (desc_pos fs (bg_index bg)) (length (descriptor_bytes (bg_raw bg)))"
    using d(1) descriptor_length[OF assms(3)] by simp
  from mounted_write[OF assms(1) this] show ?thesis using d(2) by (simp add: block_group_flush_def the_fs_mounted[OF assms(1)])
qed

section \<open>Allocation in a block group\<close>

text \<open>The bits set in a bitmap block.\<close>

definition bits_of :: "u8 list \<Rightarrow> nat set" where
  "bits_of bs = {i. i < 8 * length bs \<and> bit (bs ! (i div 8)) (i mod 8)}"

lemma bm_ones_bits_of: "bm_ones bm = bits_of (bm_data bm)"
  by (simp add: bm_ones_def bits_of_def bm_bits_def)

lemma block_fits:
  assumes "fs_ok fs" "b < 2 ^ 32"
  shows "page_fits (byte_pos fs b 0) (block_size fs)" "block_offset fs b (Inr 0) = Inr (byte_pos fs b 0)"
proof -
  have "512 dvd byte_pos fs b 0" using fs_ok_bounds(4)[OF assms(1)] by (simp add: byte_pos_def mod_eq_0_iff_dvd)
  then have "byte_pos fs b 0 mod 512 = 0" by (rule dvd_imp_mod_0)
  then show "page_fits (byte_pos fs b 0) (block_size fs)"
    using byte_pos_bound[OF assms, of 0] fs_ok_bounds[OF assms(1)] by (simp add: page_fits_def)
  show "block_offset fs b (Inr 0) = Inr (byte_pos fs b 0)" by (rule block_offset_eq[OF assms]) simp
qed

text \<open>The numbers that a group of blocks stands for do not overflow.\<close>

definition group_base :: "ext2_filesystem \<Rightarrow> nat \<Rightarrow> nat" where
  "group_base fs g = g * unat (sb_blocks_per_group (fs_superblock fs))"

lemma block_number:
  assumes "group_base fs g + n \<le> 2 ^ 32" and "i < n" and "g < 2 ^ 32"
  shows "bnd (wmul (of_nat g) (sb_blocks_per_group (fs_superblock fs))) (wadd (of_nat i)) = Inr (of_nat (i + group_base fs g) :: u32)"
proof -
  let ?w = "sb_blocks_per_group (fs_superblock fs)"
  have g: "unat (of_nat g :: u32) = g" by (rule unat_of_nat_small) (use assms(3) in simp)
  have i: "unat (of_nat i :: u32) = i" by (rule unat_of_nat_small) (use assms in simp)
  have "unat (of_nat g :: u32) * unat ?w < 2 ^ 32" unfolding g using assms(1,2) by (simp add: group_base_def)
  then have m: "wmul (of_nat g) ?w = Inr (of_nat g * ?w)" by (simp add: wmul_def)
  have um: "unat (of_nat g * ?w) = group_base fs g" using unat_wmul[OF m] by (simp add: g group_base_def)
  have "wadd (of_nat i) (of_nat g * ?w) = Inr (of_nat i + of_nat g * ?w)"
    using assms(1,2) by (simp add: wadd_def i um)
  then show ?thesis using m by (simp add: group_base_def)
qed

lemma alloc_block_loop:
  assumes len: "length (bm_data bm) = n" and u: "0 < unat u" and base: "group_base fs g + 8 * n \<le> 2 ^ 32" "g < 2 ^ 32"
  shows "for_loop 0 (n * 8) (alloc_block_step fs g 1) (bm, [], u) =
    (case List.find (\<lambda>i. i \<notin> bits_of (bm_data bm)) [0..<n * 8] of
       None \<Rightarrow> Inr (Continue (bm, [], u))
     | Some i \<Rightarrow> bnd (bnd (bitmap_set bm i) (\<lambda>bm'. Inr (bm', [of_nat (i + group_base fs g)], u - 1))) (\<lambda>r. Inr (Return r)))"
proof (rule for_loop_search)
  have get: "i < n * 8 \<Longrightarrow> bitmap_is_set bm i = Inr (i \<in> bits_of (bm_data bm))" for i
    using len by (simp add: bm.get_eq bm_ones_bits_of bm_bits_def)
  show "alloc_block_step fs g 1 i (bm, [], u) = Inr (Continue (bm, [], u))" if "i < n * 8" "\<not> i \<notin> bits_of (bm_data bm)" for i
    using that get by (simp add: alloc_block_step_def)
  have "1 \<le> u" using u by (simp add: word_le_nat_alt)
  then have w: "wsub u 1 = Inr (u - 1)" by (simp add: wsub_def)
  show "alloc_block_step fs g 1 i (bm, [], u)
      = bnd (bnd (bitmap_set bm i) (\<lambda>bm'. Inr (bm', [of_nat (i + group_base fs g)], u - 1))) (\<lambda>r. Inr (Return r))"
    if i: "i < n * 8" "i \<notin> bits_of (bm_data bm)" for i
  proof -
    have i8: "i < 8 * n" using i(1) by simp
    note num = block_number[OF base(1) i8 base(2)]
    have "bnd (wmul (of_nat g) (sb_blocks_per_group (fs_superblock fs))) (\<lambda>b. bnd (wadd (of_nat i) b) f)
        = f (of_nat (i + group_base fs g))" for f :: "u32 \<Rightarrow> 'r res"
      using num by (simp add: bnd_assoc[symmetric])
    then show ?thesis using get[OF i(1)] i(2) w
      by (cases "bitmap_set bm i") (simp_all add: alloc_block_step_def Let_def)
  qed
qed

lemma bitmap_set_data:
  assumes "bitmap_set bm i = Inr bm'"
  shows "length (bm_data bm') = length (bm_data bm)" "bm_shape bm' = bm_shape bm" "bits_of (bm_data bm') = insert i (bits_of (bm_data bm))"
proof -
  have "i < bm_bits bm" using assms bm.put_out[of bm i] by (cases "i < bm_bits bm") auto
  with bm.put_in[OF this] assms show "length (bm_data bm') = length (bm_data bm)" "bm_shape bm' = bm_shape bm"
    "bits_of (bm_data bm') = insert i (bits_of (bm_data bm))" by (auto simp: bm_ones_bits_of bm_bits_def)
qed

lemma mounted_reads: "mounted hw p fs s1 \<Longrightarrow> disk s1 = disk s \<Longrightarrow> page_fits a n \<Longrightarrow>
    \<exists>s2. read_at hw a n s1 = Inr (bytes_at (disk s p) a n, s2) \<and> mounted hw p fs s2 \<and> same_kernel s1 s2 \<and> disk s2 = disk s"
  using mounted_read[of hw p fs s1 a n] by (auto simp: reads_only_def)

text \<open>Writing the changed bitmap and descriptor back.\<close>

lemma write_back:
  assumes m: "mounted hw p fs s" and fit: "page_fits a (length bs)" and bg: "bg_index bg < 2 ^ 40" "length (bg_unused (bg_raw bg)) = 14"
  shows "\<exists>s1 s2. write_at hw a bs s = Inr s1 \<and> block_group_flush hw bg s1 = Inr s2 \<and> mounted hw p fs s2 \<and> same_kernel s s2
    \<and> disk s2 = (disk s)(p := put_bytes (desc_pos fs (bg_index bg)) (descriptor_bytes (bg_raw bg)) (put_bytes a bs (disk s p)))"
proof -
  from mounted_write[OF m fit] obtain s1 where s1: "write_at hw a bs s = Inr s1" "mounted hw p fs s1" "same_kernel s s1"
    "disk s1 = (disk s)(p := put_bytes a bs (disk s p))" by blast
  from block_group_flush_ok[OF s1(2) bg] obtain s2 where "block_group_flush hw bg s1 = Inr s2" "mounted hw p fs s2" "same_kernel s1 s2"
    "disk s2 = (disk s1)(p := put_bytes (desc_pos fs (bg_index bg)) (descriptor_bytes (bg_raw bg)) (disk s1 p))" by blast
  then show ?thesis using s1 same_kernel_trans by (intro exI[of _ s1] exI[of _ s2]) (auto intro: same_kernel_trans)
qed

text \<open>One block of a group: the first clear bit of its bitmap.\<close>

lemma bg_alloc_block_one:
  assumes m: "mounted hw p fs s" and c: "2 \<le> card (free_frames s)" and bg: "bg_index bg < 2 ^ 32" "length (bg_unused (bg_raw bg)) = 14"
    and base: "group_base fs (bg_index bg) + 8 * block_size fs \<le> 2 ^ 32" and u: "bg_unallocated_blocks (bg_raw bg) \<noteq> 0"
  defines "pos \<equiv> byte_pos fs (unat (bg_block_bitmap (bg_raw bg))) 0"
  defines "map_bits \<equiv> bytes_at (disk s p) pos (block_size fs)"
  shows "case List.find (\<lambda>i. i \<notin> bits_of map_bits) [0..<block_size fs * 8] of
      None \<Rightarrow> \<exists>s'. bg_alloc_block hw bg 1 s = Inr (None, bg, s') \<and> reads_only hw p fs s s'
    | Some i \<Rightarrow> \<exists>s' bg' bs. bg_alloc_block hw bg 1 s = Inr (Some [of_nat (i + group_base fs (bg_index bg))], bg', s')
        \<and> bg' = bg\<lparr>bg_raw := (bg_raw bg)\<lparr>bg_unallocated_blocks := bg_unallocated_blocks (bg_raw bg) - 1\<rparr>\<rparr>
        \<and> length bs = block_size fs \<and> bits_of bs = insert i (bits_of map_bits) \<and> mounted hw p fs s' \<and> same_kernel s s'
        \<and> disk s' = (disk s)(p := put_bytes (desc_pos fs (bg_index bg)) (descriptor_bytes (bg_raw bg')) (put_bytes pos bs (disk s p)))"
proof -
  let ?n = "block_size fs" and ?u = "bg_unallocated_blocks (bg_raw bg)"
  have ok: "fs_ok fs" using m by (simp add: mounted_def)
  note b = fs_ok_bounds[OF ok]
  have blk: "unat (bg_block_bitmap (bg_raw bg)) < 2 ^ 32" using unat_less_limit[of "bg_block_bitmap (bg_raw bg)"] by simp
  note fit = block_fits[OF ok blk, folded pos_def]
  have u0: "0 < unat ?u" using u by (simp add: unat_gt_0)
  from scratch_bitmap[OF m c b(6,2)] obtain bm s1 where s1: "bitmap_new ?n s = Inr (bm, s1)" "bm_size bm = ?n"
      "mounted hw p fs s1" "disk s1 = disk s"
      and dropb: "\<And>bm' t. bm_shape bm' = bm_shape bm \<Longrightarrow> mounted hw p fs t \<Longrightarrow> same_kernel s1 t \<Longrightarrow>
          \<exists>t'. bitmap_drop bm' t = Inr t' \<and> mounted hw p fs t' \<and> same_kernel s t' \<and> disk t' = disk t" by blast
  from mounted_reads[OF s1(3,4) fit(1)] obtain s2 where s2: "read_at hw pos ?n s1 = Inr (map_bits, s2)"
      "mounted hw p fs s2" "same_kernel s1 s2" "disk s2 = disk s" unfolding map_bits_def by blast
  let ?bm = "bm\<lparr>bm_data := map_bits\<rparr>"
  have shp: "bm_shape ?bm = bm_shape bm" by (simp add: bm_shape_def)
  have len: "length (bm_data ?bm) = ?n" by (simp add: map_bits_def)
  note loop = alloc_block_loop[OF len u0 base bg(1)]
  have mul: "umul ?n 8 = Inr (?n * 8)" using b(2) by (simp add: umul_def)
  show ?thesis
  proof (cases "List.find (\<lambda>i. i \<notin> bits_of map_bits) [0..<?n * 8]")
    case None
    from dropb[OF shp s2(2,3)] obtain s3 where s3: "bitmap_drop ?bm s2 = Inr s3" "mounted hw p fs s3" "same_kernel s s3" "disk s3 = disk s2" by blast
    have "bg_alloc_block hw bg 1 s = Inr (None, bg, s3)"
      using u0 s1(1) s2(1) fit(2) mul loop None s3(1)
      by (simp add: bg_alloc_block_def the_fs_mounted[OF m] pos_def[symmetric] Let_def)
    then show ?thesis using None s3 s2(4) by (auto simp: reads_only_def)
  next
    case (Some i)
    let ?bg = "bg\<lparr>bg_raw := (bg_raw bg)\<lparr>bg_unallocated_blocks := ?u - 1\<rparr>\<rparr>"
    have "i < bm_bits ?bm" using Some len by (auto simp: find_upt_Some bm_bits_def)
    from bm.put_in[OF this] obtain bm' where bm': "bitmap_set ?bm i = Inr bm'" by blast
    note dat = bitmap_set_data[OF bm']
    have fit': "page_fits pos (length (bm_data bm'))" using fit(1) dat(1) len by simp
    have bgi: "bg_index ?bg < 2 ^ 40" "length (bg_unused (bg_raw ?bg)) = 14" using bg by simp_all
    from write_back[OF s2(2) fit' bgi] obtain s3 s4 where s4: "write_at hw pos (bm_data bm') s2 = Inr s3" "block_group_flush hw ?bg s3 = Inr s4"
      "mounted hw p fs s4" "same_kernel s2 s4"
      "disk s4 = (disk s)(p := put_bytes (desc_pos fs (bg_index bg)) (descriptor_bytes (bg_raw ?bg)) (put_bytes pos (bm_data bm') (disk s p)))"
      using s2(4) by auto
    have "bm_shape bm' = bm_shape bm" using dat(2) shp by simp
    from dropb[OF this s4(3) same_kernel_trans[OF s2(3) s4(4)]] obtain s5 where
      s5: "bitmap_drop bm' s4 = Inr s5" "mounted hw p fs s5" "same_kernel s s5" "disk s5 = disk s4" by blast
    have "bg_alloc_block hw bg 1 s = Inr (Some [of_nat (i + group_base fs (bg_index bg))], ?bg, s5)"
      using u0 s1(1) s2(1) fit(2) mul loop Some bm' s4(1,2) s5(1)
      by (simp add: bg_alloc_block_def the_fs_mounted[OF m] pos_def[symmetric] Let_def)
    then show ?thesis using Some s5 s4(5) dat(1,3) len by (auto intro!: exI[of _ s5] exI[of _ "bm_data bm'"])
  qed
qed

section \<open>A sample file system\<close>

text \<open>One group of blocks of 1024 bytes at the start of the disk, with eight inodes; \<open>d\<close> is the contents of the disk.\<close>

definition sample_superblock :: superblock where
  "sample_superblock = (superblock_of [])\<lparr>sb_inode_cnt := 8, sb_block_cnt := 64, sb_unallocated_blocks := 8, sb_unallocated_inodes := 4,
     sb_blocks_per_group := 8192, sb_inodes_per_group := 8, sb_signature := EXT2_SIGNATURE\<rparr>"

definition sample_fs :: ext2_filesystem where
  "sample_fs = \<lparr>fs_superblock = sample_superblock, block_size = 1024, block_group_cnt = 1, starting_lba = 0\<rparr>"

definition sample_ext2 :: "(nat \<Rightarrow> u8) \<Rightarrow> ext2_state" where
  "sample_ext2 d = sample_machine d (ext2_state.fields (Some sample_fs) (replicate 1024 None))"

definition sample_inode :: inode where
  "sample_inode = (inode_of [])\<lparr>type_and_permissions := 0x41ed, sizel := 1024, inode_number := 2,
     direct_pointer := [20, 21, 22, 23, 24, 25, 26, 27, 28, 29, 30, 31], singly_ip := 5, doubly_ip := 6, triply_ip := 7\<rparr>"

lemma sample_fs_fields [simp]:
  "block_size sample_fs = 1024" "block_group_cnt sample_fs = 1" "starting_lba sample_fs = 0"
  "sb_inodes_per_group (fs_superblock sample_fs) = 8" "sb_blocks_per_group (fs_superblock sample_fs) = 8192"
  "sb_unallocated_blocks (fs_superblock sample_fs) = 8"
  by (simp_all add: sample_fs_def sample_superblock_def)

lemma sample_fs_ok: "fs_ok sample_fs"
  by (simp add: fs_ok_def)

lemma sample_ext2_disk: "disk (sample_ext2 d) q = d"
  by (simp add: sample_ext2_def sample_machine_def)

lemma sample_ext2_free: "free_frames (sample_ext2 d) = {8..<16}" "frame_cnt (sample_ext2 d) = 16"
  by (simp_all add: sample_ext2_def sample_machine_free)

lemma sample_ext2_mounted: "mounted prompt_hba 0 sample_fs (sample_ext2 d)"
  using sample_machine_ready[of d "ext2_state.fields (Some sample_fs) (replicate 1024 None)"] sample_fs_ok sample_ext2_free(1)[of d]
  by (simp add: mounted_def disk_ready_def sample_ext2_def) (simp add: sample_machine_def ext2_state.defs)

lemma sample_inode_wf: "inode_wf sample_inode"
  by (simp add: inode_wf_def sample_inode_def inode_of_def)

section \<open>Properties\<close>

text \<open>
  C18. Blocks of a file: \<^verbatim>\<open>Inode::get_block_address\<close> returns the address the layout of ext2 gives (direct pointers, then the
  digits of the block number through the singly, doubly and triply indirect tables) and changes nothing, for every block below the triply indirect
  ones, and for these too when the blocks have 4096 bytes.
\<close>

theorem get_block_address_correct:
  assumes "mounted hw p fs s" and "inode_wf n" and "reachable_block fs i"
  shows "\<exists>s'. get_block_address hw n i s = Inr (ref_block (disk s p) fs n i, s') \<and> disk s' = disk s \<and> same_kernel s s'"
  using get_block_address_ok[OF assms] by (auto simp: reads_only_def)

theorem get_block_address_correct_witness:
  "\<exists>s'. get_block_address prompt_hba sample_inode 13 (sample_ext2 (\<lambda>x. of_nat x)) = Inr (0x07060504, s')"
proof -
  have "ref_block (\<lambda>x. of_nat x) sample_fs sample_inode 13 = 0x07060504"
    by (simp add: ref_block_def Let_def sample_inode_def addr_path_def addr_entry_def byte_pos_def bytes_at_def upt_rec)
  moreover have "reachable_block sample_fs 13" by (simp add: reachable_block_def)
  ultimately show ?thesis
    using get_block_address_correct[OF sample_ext2_mounted[of "\<lambda>x. of_nat x"] sample_inode_wf, of 13] by (auto simp: sample_ext2_disk)
qed

text \<open>
  For smaller blocks the triply indirect walk is wrong: its last two digits are taken in base 1024 and not in base \<open>a\<close>, the number of
  addresses in a block. Whenever the last digit is not below \<open>a\<close>, the address is read from behind the end of the table.
\<close>

theorem triply_indirect_base:
  assumes "mounted hw p fs s" and "inode_wf n" and "i < 2 ^ 40"
    and "12 + block_size fs div 4 + (block_size fs div 4)\<^sup>2 \<le> i"
  shows "let a = block_size fs div 4; j = i - (12 + a + a\<^sup>2); r = j mod a\<^sup>2 mod 1024;
           b = addr_path (disk s p) fs (triply_ip n) [j div a\<^sup>2, j mod a\<^sup>2 div 1024] in
      (\<exists>s'. get_block_address hw n i s = Inr (addr_entry (disk s p) fs b r, s'))
      \<and> (a \<le> r \<longrightarrow> byte_pos fs (unat b + 1) 0 \<le> byte_pos fs (unat b) (r * 4))"
proof -
  define a where "a = block_size fs div 4"
  define j where "j = i - (12 + a + a\<^sup>2)"
  define b where "b = addr_path (disk s p) fs (triply_ip n) [j div a\<^sup>2, j mod a\<^sup>2 div 1024]"
  have "\<exists>s'. get_block_address hw n i s = Inr (addr_entry (disk s p) fs b (j mod a\<^sup>2 mod 1024), s')"
    using get_block_address_steps[OF assms(1-3)] assms(4) unfolding a_def[symmetric] b_def j_def by (auto simp: addr_path_def Let_def)
  moreover have bs: "block_size fs = a * 4" using assms(1) by (auto simp: a_def mounted_def fs_ok_def)
  have "byte_pos fs (unat b + 1) 0 \<le> byte_pos fs (unat b) (j mod a\<^sup>2 mod 1024 * 4)" if "a \<le> j mod a\<^sup>2 mod 1024"
    using that unfolding byte_pos_def bs by simp
  ultimately show ?thesis unfolding Let_def a_def[symmetric] j_def[symmetric] b_def[symmetric] by blast
qed

theorem triply_indirect_base_witness:
  "\<exists>b s'. get_block_address prompt_hba sample_inode 66104 (sample_ext2 (\<lambda>_. 0)) = Inr (addr_entry (\<lambda>_. 0) sample_fs b 300, s')
    \<and> byte_pos sample_fs (unat b + 1) 0 \<le> byte_pos sample_fs (unat b) 1200"
  using triply_indirect_base[OF sample_ext2_mounted[of "\<lambda>_. 0"] sample_inode_wf, of 66104] by (auto simp: sample_ext2_disk Let_def)

end
