(* ===== verification/Ext2_Inodes.thy ===== *)
theory Ext2_Inodes
  imports Ext2_Blocks
begin

text \<open>
  The inodes on the disk and the allocators of the whole file system: an inode number names a place in the inode table of its
  group, flushing an inode writes exactly there, and the allocators take the first clear bit of the first group that has one.
\<close>

section \<open>Places of inodes\<close>

definition inode_group :: "ext2_filesystem \<Rightarrow> u32 \<Rightarrow> nat" where
  "inode_group fs k = (unat k - 1) div unat (sb_inodes_per_group (fs_superblock fs))"

definition inode_slot :: "ext2_filesystem \<Rightarrow> u32 \<Rightarrow> nat" where
  "inode_slot fs k = (unat k - 1) mod unat (sb_inodes_per_group (fs_superblock fs))"

definition inode_pos :: "(nat \<Rightarrow> u8) \<Rightarrow> ext2_filesystem \<Rightarrow> u32 \<Rightarrow> nat" where
  "inode_pos c fs k = byte_pos fs (unat (bg_inode_table (disk_descriptor c fs (inode_group fs k)))) (inode_slot fs k * 128)"

definition disk_inode :: "(nat \<Rightarrow> u8) \<Rightarrow> ext2_filesystem \<Rightarrow> u32 \<Rightarrow> inode" where
  "disk_inode c fs k = (inode_of (bytes_at c (inode_pos c fs k) 128))\<lparr>inode_number := k\<rparr>"

lemma inode_place:
  assumes m: "mounted hw p fs s" and k: "k \<noteq> 0"
  shows "get_block_group (unat k) s = Inr (inode_group fs k)" "get_table_index (unat k) s = Inr (inode_slot fs k)"
    "inode_group fs k < 2 ^ 40" "inode_slot fs k < 2 ^ 40"
proof -
  have ok: "fs_ok fs" using m by (simp add: mounted_def)
  note b = fs_ok_bounds(5)[OF ok]
  have k1: "1 \<le> unat k" using k by (simp add: Suc_le_eq unat_gt_0)
  show "get_block_group (unat k) s = Inr (inode_group fs k)" "get_table_index (unat k) s = Inr (inode_slot fs k)"
    using k1 b by (simp_all add: get_block_group_def get_table_index_def the_fs_mounted[OF m] usub_def udiv_def umod_def
        inode_group_def inode_slot_def)
  have u: "unat k < 2 ^ 40" using unat_less_limit[of k] by simp
  show "inode_group fs k < 2 ^ 40" unfolding inode_group_def
    using div_le_dividend[of "unat k - 1" "unat (sb_inodes_per_group (fs_superblock fs))"] u by linarith
  show "inode_slot fs k < 2 ^ 40" unfolding inode_slot_def
    using mod_less_eq_dividend[of "unat k - 1" "unat (sb_inodes_per_group (fs_superblock fs))"] u by linarith
qed

lemma inode_pos_fits:
  assumes "fs_ok fs" and "inode_slot fs k < 2 ^ 40" and "t < 2 ^ 32"
  shows "page_fits (byte_pos fs t (inode_slot fs k * 128)) 128"
    "block_offset fs t (umul (inode_slot fs k) 128) = Inr (byte_pos fs t (inode_slot fs k * 128))"
proof -
  have e: "inode_slot fs k * 128 < 2 ^ 50" using assms(2) by simp
  show "page_fits (byte_pos fs t (inode_slot fs k * 128)) 128"
    using byte_pos_bound[OF assms(1,3) e] by (intro small_fits) simp_all
  have "umul (inode_slot fs k) 128 = Inr (inode_slot fs k * 128)" using e by (simp add: umul_def)
  then show "block_offset fs t (umul (inode_slot fs k) 128) = Inr (byte_pos fs t (inode_slot fs k * 128))"
    using block_offset_eq[OF assms(1,3) e] by simp
qed

lemma inode_get_ok:
  assumes m: "mounted hw p fs s" and k: "k \<noteq> 0"
  shows "\<exists>s'. inode_get hw k s = Inr (disk_inode (disk s p) fs k, s') \<and> reads_only hw p fs s s'"
proof -
  have ok: "fs_ok fs" using m by (simp add: mounted_def)
  note pl = inode_place[OF m k]
  from block_group_get_ok[OF m pl(3)] obtain s1 where
    s1: "block_group_get hw (inode_group fs k) s
        = Inr (\<lparr>bg_raw = disk_descriptor (disk s p) fs (inode_group fs k), bg_index = inode_group fs k\<rparr>, s1)" "reads_only hw p fs s s1" by blast
  let ?t = "unat (bg_inode_table (disk_descriptor (disk s p) fs (inode_group fs k)))"
  have t: "?t < 2 ^ 32" using unat_less_limit[of "bg_inode_table (disk_descriptor (disk s p) fs (inode_group fs k))"] by simp
  note fit = inode_pos_fits[OF ok pl(4) t]
  have m1: "mounted hw p fs s1" "disk s1 = disk s" using s1(2) by (simp_all add: reads_only_def)
  from mounted_read[OF m1(1) fit(1)] obtain s2 where
    s2: "read_at hw (byte_pos fs ?t (inode_slot fs k * 128)) 128 s1 = Inr (bytes_at (disk s p) (byte_pos fs ?t (inode_slot fs k * 128)) 128, s2)"
      "reads_only hw p fs s1 s2" unfolding m1(2) by blast
  have "inode_get hw k s = Inr (disk_inode (disk s p) fs k, s2)"
    using s1(1) s2(1) fit(2) pl(1) inode_place(2)[OF m1(1) k]
    by (simp add: inode_get_def get_inode_def the_fs_mounted[OF m1(1)] disk_inode_def inode_pos_def)
  then show ?thesis using reads_only_trans[OF s1(2) s2(2)] by blast
qed

lemma inode_flush_ok:
  assumes m: "mounted hw p fs s" and k: "inode_number n \<noteq> 0" and wf: "inode_wf n"
  shows "\<exists>s'. inode_flush hw n s = Inr s' \<and> mounted hw p fs s' \<and> same_kernel s s'
    \<and> disk s' = (disk s)(p := put_bytes (inode_pos (disk s p) fs (inode_number n)) (inode_bytes n) (disk s p))"
proof -
  let ?k = "inode_number n"
  have ok: "fs_ok fs" using m by (simp add: mounted_def)
  note pl = inode_place[OF m k]
  from block_group_get_ok[OF m pl(3)] obtain s1 where
    s1: "block_group_get hw (inode_group fs ?k) s
        = Inr (\<lparr>bg_raw = disk_descriptor (disk s p) fs (inode_group fs ?k), bg_index = inode_group fs ?k\<rparr>, s1)" "reads_only hw p fs s s1" by blast
  let ?t = "unat (bg_inode_table (disk_descriptor (disk s p) fs (inode_group fs ?k)))"
  have t: "?t < 2 ^ 32" using unat_less_limit[of "bg_inode_table (disk_descriptor (disk s p) fs (inode_group fs ?k))"] by simp
  note fit = inode_pos_fits[OF ok pl(4) t]
  have m1: "mounted hw p fs s1" "disk s1 = disk s" "same_kernel s s1" using s1(2) by (simp_all add: reads_only_def)
  have "page_fits (byte_pos fs ?t (inode_slot fs ?k * 128)) (length (inode_bytes n))" using fit(1) inode_length[OF wf] by simp
  from mounted_write[OF m1(1) this] obtain s2 where
    s2: "write_at hw (byte_pos fs ?t (inode_slot fs ?k * 128)) (inode_bytes n) s1 = Inr s2" "mounted hw p fs s2" "same_kernel s1 s2"
      "disk s2 = (disk s)(p := put_bytes (inode_pos (disk s p) fs ?k) (inode_bytes n) (disk s p))"
    unfolding m1(2) inode_pos_def by blast
  have "inode_flush hw n s = Inr s2"
    using s1(1) s2(1) fit(2) pl(1) inode_place(2)[OF m1(1) k]
    by (simp add: inode_flush_def the_fs_mounted[OF m] inode_pos_def)
  then show ?thesis using s2(2,4) same_kernel_trans[OF m1(3) s2(3)] by blast
qed

text \<open>The inode tables do not overlap the table of block group descriptors.\<close>

definition tables_apart :: "(nat \<Rightarrow> u8) \<Rightarrow> ext2_filesystem \<Rightarrow> u32 \<Rightarrow> bool" where
  "tables_apart c fs k \<longleftrightarrow> (let a = inode_pos c fs k; d = desc_pos fs (inode_group fs k) in a + 128 \<le> d \<or> d + 32 \<le> a)"

lemma disk_inode_put:
  assumes "tables_apart c fs (inode_number n)" and "inode_wf n"
  shows "disk_inode (put_bytes (inode_pos c fs (inode_number n)) (inode_bytes n) c) fs (inode_number n) = n"
proof -
  let ?k = "inode_number n" and ?a = "inode_pos c fs (inode_number n)"
  let ?c = "put_bytes ?a (inode_bytes n) c"
  have len: "length (inode_bytes n) = 128" by (rule inode_length[OF assms(2)])
  have "disk_descriptor ?c fs (inode_group fs ?k) = disk_descriptor c fs (inode_group fs ?k)"
    using assms(1) len by (simp add: disk_descriptor_def bytes_at_put_apart tables_apart_def Let_def)
  then have "inode_pos ?c fs ?k = ?a" by (simp add: inode_pos_def)
  moreover have "bytes_at ?c ?a 128 = inode_bytes n" using bytes_at_put[of ?a "inode_bytes n" c] len by simp
  ultimately show ?thesis by (simp add: disk_inode_def inode_codec[OF assms(2)])
qed

section \<open>Allocation over all groups\<close>

definition group_bitmap :: "(nat \<Rightarrow> u8) \<Rightarrow> ext2_filesystem \<Rightarrow> nat \<Rightarrow> u8 list" where
  "group_bitmap c fs g = bytes_at c (byte_pos fs (unat (bg_block_bitmap (disk_descriptor c fs g))) 0) (block_size fs)"

definition group_free_block :: "(nat \<Rightarrow> u8) \<Rightarrow> ext2_filesystem \<Rightarrow> nat \<Rightarrow> nat option" where
  "group_free_block c fs g =
     (if bg_unallocated_blocks (disk_descriptor c fs g) = 0 then None
      else List.find (\<lambda>i. i \<notin> bits_of (group_bitmap c fs g)) [0..<block_size fs * 8])"

text \<open>Block \<open>i\<close> of group \<open>g\<close> has been taken: its bit is set and the count of the group is one less, nothing else has changed.\<close>

definition block_taken :: "ext2_filesystem \<Rightarrow> nat \<Rightarrow> nat \<Rightarrow> (nat \<Rightarrow> u8) \<Rightarrow> (nat \<Rightarrow> u8) \<Rightarrow> bool" where
  "block_taken fs g i c c' \<longleftrightarrow>
     (let d = disk_descriptor c fs g; d' = d\<lparr>bg_unallocated_blocks := bg_unallocated_blocks d - 1\<rparr> in
      \<exists>bs. length bs = block_size fs \<and> bits_of bs = insert i (bits_of (group_bitmap c fs g))
        \<and> c' = put_bytes (desc_pos fs g) (descriptor_bytes d') (put_bytes (byte_pos fs (unat (bg_block_bitmap d)) 0) bs c))"

definition block_numbers_ok :: "ext2_filesystem \<Rightarrow> bool" where
  "block_numbers_ok fs \<longleftrightarrow> block_group_cnt fs < 2 ^ 32 \<and> (\<forall>g < block_group_cnt fs. group_base fs g + 8 * block_size fs \<le> 2 ^ 32)"

lemma group_alloc:
  assumes m: "mounted hw p fs s" and c: "2 \<le> card (free_frames s)" and g: "g < block_group_cnt fs" "block_numbers_ok fs"
  defines "bg \<equiv> \<lparr>bg_raw = disk_descriptor (disk s p) fs g, bg_index = g\<rparr>"
  shows "case group_free_block (disk s p) fs g of
      None \<Rightarrow> \<exists>bg' s'. bg_alloc_block hw bg 1 s = Inr (None, bg', s') \<and> reads_only hw p fs s s'
    | Some i \<Rightarrow> \<exists>bg' s' c'. bg_alloc_block hw bg 1 s = Inr (Some [of_nat (i + group_base fs g)], bg', s')
        \<and> mounted hw p fs s' \<and> same_kernel s s' \<and> disk s' = (disk s)(p := c') \<and> block_taken fs g i (disk s p) c'"
proof (cases "bg_unallocated_blocks (disk_descriptor (disk s p) fs g) = 0")
  case True
  then have "bg_alloc_block hw bg 1 s = Inr (None, bg, s)" by (simp add: bg_alloc_block_def bg_def)
  then show ?thesis using True reads_only_refl[OF m] by (auto simp: group_free_block_def)
next
  case False
  have g32: "g < 2 ^ 32" "group_base fs g + 8 * block_size fs \<le> 2 ^ 32" using g by (auto simp: block_numbers_ok_def)
  let ?D = "disk_descriptor (disk s p) fs g"
  have eqs: "bg_raw bg = ?D" "bg_index bg = g" by (simp_all add: bg_def)
  have one: "case List.find (\<lambda>i. i \<notin> bits_of (group_bitmap (disk s p) fs g)) [0..<block_size fs * 8] of
      None \<Rightarrow> \<exists>s'. bg_alloc_block hw bg 1 s = Inr (None, bg, s') \<and> reads_only hw p fs s s'
    | Some i \<Rightarrow> \<exists>s' bg' bs. bg_alloc_block hw bg 1 s = Inr (Some [of_nat (i + group_base fs g)], bg', s')
        \<and> bg' = bg\<lparr>bg_raw := ?D\<lparr>bg_unallocated_blocks := bg_unallocated_blocks ?D - 1\<rparr>\<rparr>
        \<and> length bs = block_size fs \<and> bits_of bs = insert i (bits_of (group_bitmap (disk s p) fs g)) \<and> mounted hw p fs s' \<and> same_kernel s s'
        \<and> disk s' = (disk s)(p := put_bytes (desc_pos fs g) (descriptor_bytes (bg_raw bg'))
            (put_bytes (byte_pos fs (unat (bg_block_bitmap (disk_descriptor (disk s p) fs g))) 0) bs (disk s p)))"
    using bg_alloc_block_one[OF m c, of bg, unfolded eqs, OF g32(1) disk_descriptor_wf g32(2) False] unfolding group_bitmap_def .
  show ?thesis
  proof (cases "List.find (\<lambda>i. i \<notin> bits_of (group_bitmap (disk s p) fs g)) [0..<block_size fs * 8]")
    case None
    then show ?thesis using one False by (auto simp: group_free_block_def)
  next
    case (Some i)
    from one Some obtain s' bg' bs where r: "bg_alloc_block hw bg 1 s = Inr (Some [of_nat (i + group_base fs g)], bg', s')"
      "bg' = bg\<lparr>bg_raw := ?D\<lparr>bg_unallocated_blocks := bg_unallocated_blocks ?D - 1\<rparr>\<rparr>"
      "length bs = block_size fs" "bits_of bs = insert i (bits_of (group_bitmap (disk s p) fs g))" "mounted hw p fs s'" "same_kernel s s'"
      "disk s' = (disk s)(p := put_bytes (desc_pos fs g) (descriptor_bytes (bg_raw bg'))
            (put_bytes (byte_pos fs (unat (bg_block_bitmap (disk_descriptor (disk s p) fs g))) 0) bs (disk s p)))" by auto
    let ?c = "disk s' p"
    have "block_taken fs g i (disk s p) ?c"
      unfolding block_taken_def Let_def using r(2,3,4,7) by (intro exI[of _ bs]) (simp add: bg_def)
    moreover have "disk s' = (disk s)(p := ?c)" using r(7) by simp
    ultimately show ?thesis using Some False r(1,5,6) by (auto simp: group_free_block_def)
  qed
qed

text \<open>
  The search of both allocators over the groups: \<open>free\<close> tells what a group has to give, \<open>alloc\<close> takes it. The first group that has something
  ends the search; the groups before it are only read.
\<close>

lemma group_search:
  assumes m: "mounted hw p fs s" and c: "2 \<le> card (free_frames s)" and n: "block_group_cnt fs \<le> 2 ^ 32"
    and alloc: "\<And>g t. g < block_group_cnt fs \<Longrightarrow> mounted hw p fs t \<Longrightarrow> 2 \<le> card (free_frames t) \<Longrightarrow>
      case free (disk t p) g of
        None \<Rightarrow> \<exists>bg' t'. alloc \<lparr>bg_raw = disk_descriptor (disk t p) fs g, bg_index = g\<rparr> t = Inr (None, bg', t') \<and> reads_only hw p fs t t'
      | Some i \<Rightarrow> \<exists>bg' t' c'. alloc \<lparr>bg_raw = disk_descriptor (disk t p) fs g, bg_index = g\<rparr> t = Inr (Some (out g i), bg', t')
          \<and> mounted hw p fs t' \<and> same_kernel t t' \<and> disk t' = (disk t)(p := c') \<and> taken g i (disk t p) c'"
    and ret: "\<And>g i t. ret (out g i) t = Inr (Return (val g i, t))"
  defines "body \<equiv> \<lambda>bg s. bnd (block_group_get hw bg s) (\<lambda>(block_group, s).
      bnd (alloc block_group s) (\<lambda>(r, block_group, s). case r of Some a \<Rightarrow> ret a s | None \<Rightarrow> Inr (Continue s)))"
  shows "case List.find (\<lambda>g. free (disk s p) g \<noteq> None) [0..<block_group_cnt fs] of
      None \<Rightarrow> \<exists>s'. for_loop 0 (block_group_cnt fs) body s = Inr (Continue s') \<and> reads_only hw p fs s s'
    | Some g \<Rightarrow> \<exists>r i s' c'. for_loop 0 (block_group_cnt fs) body s = Inr (Return r) \<and> free (disk s p) g = Some i \<and> r = (val g i, s')
        \<and> mounted hw p fs s' \<and> same_kernel s s' \<and> disk s' = (disk s)(p := c') \<and> taken g i (disk s p) c'"
proof -
  let ?hit = "\<lambda>g. free (disk s p) g \<noteq> None"
  let ?R = "\<lambda>g r. \<exists>i s' c'. free (disk s p) g = Some i \<and> r = (val g i, s')
        \<and> mounted hw p fs s' \<and> same_kernel s s' \<and> disk s' = (disk s)(p := c') \<and> taken g i (disk s p) c'"
  have step: "(\<not> ?hit g \<longrightarrow> (\<exists>t'. body g t = Inr (Continue t') \<and> reads_only hw p fs s t')) \<and> (?hit g \<longrightarrow> (\<exists>r. body g t = Inr (Return r) \<and> ?R g r))"
    if g: "g < block_group_cnt fs" and t: "reads_only hw p fs s t" for g t
  proof -
    have g40: "g < 2 ^ 40" using g n by simp
    have mt: "mounted hw p fs t" "disk t = disk s" using t by (simp_all add: reads_only_def)
    from block_group_get_ok[OF mt(1) g40] obtain t1 where
      t1: "block_group_get hw g t = Inr (\<lparr>bg_raw = disk_descriptor (disk s p) fs g, bg_index = g\<rparr>, t1)" "reads_only hw p fs t t1"
      unfolding mt(2) by blast
    have st1: "reads_only hw p fs s t1" by (rule reads_only_trans[OF t t1(2)])
    then have mt1: "mounted hw p fs t1" "disk t1 = disk s" "same_kernel s t1" by (simp_all add: reads_only_def)
    have c1: "2 \<le> card (free_frames t1)" using c mt1(3) by (simp add: same_kernel_def)
    note ga = alloc[OF g mt1(1) c1, unfolded mt1(2)]
    show ?thesis
    proof (cases "free (disk s p) g")
      case None
      with ga obtain bg' t2 where "alloc \<lparr>bg_raw = disk_descriptor (disk s p) fs g, bg_index = g\<rparr> t1 = Inr (None, bg', t2)"
        "reads_only hw p fs t1 t2" by auto
      then show ?thesis using None t1(1) reads_only_trans[OF st1] by (auto simp: body_def)
    next
      case (Some i)
      with ga obtain bg' t2 c' where t2: "alloc \<lparr>bg_raw = disk_descriptor (disk s p) fs g, bg_index = g\<rparr> t1
          = Inr (Some (out g i), bg', t2)" "mounted hw p fs t2" "same_kernel t1 t2" "disk t2 = (disk s)(p := c')"
        "taken g i (disk s p) c'" unfolding Some option.case by blast
      have "?R g (val g i, t2)" using Some t2(2,4,5) same_kernel_trans[OF mt1(3) t2(3)] by blast
      moreover have "body g t = Inr (Return (val g i, t2))" using t1(1) t2(1) ret by (simp add: body_def)
      ultimately show ?thesis using Some by blast
    qed
  qed
  have "case List.find ?hit [0..<block_group_cnt fs] of
      None \<Rightarrow> \<exists>s'. for_loop 0 (block_group_cnt fs) body s = Inr (Continue s') \<and> reads_only hw p fs s s'
    | Some g \<Rightarrow> \<exists>r. for_loop 0 (block_group_cnt fs) body s = Inr (Return r) \<and> ?R g r"
    by (rule for_loop_search_inv[where Q = "reads_only hw p fs s"]) (use step reads_only_refl[OF m] in blast)+
  then show ?thesis by (cases "List.find ?hit [0..<block_group_cnt fs]") auto
qed

lemma ext2_alloc_block_ok:
  assumes m: "mounted hw p fs s" and c: "2 \<le> card (free_frames s)" and ok: "block_numbers_ok fs"
    and u: "sb_unallocated_blocks (fs_superblock fs) \<noteq> 0"
  shows "case List.find (\<lambda>g. group_free_block (disk s p) fs g \<noteq> None) [0..<block_group_cnt fs] of
      None \<Rightarrow> \<exists>s'. ext2_alloc_block hw fs s = Inr (None, s') \<and> reads_only hw p fs s s'
    | Some g \<Rightarrow> \<exists>i s' c'. group_free_block (disk s p) fs g = Some i
        \<and> ext2_alloc_block hw fs s = Inr (Some (of_nat (i + group_base fs g)), s') \<and> mounted hw p fs s' \<and> same_kernel s s'
        \<and> disk s' = (disk s)(p := c') \<and> block_taken fs g i (disk s p) c'"
proof -
  let ?val = "\<lambda>g i. of_nat (i + group_base fs g) :: u32"
  let ?ret = "\<lambda>a s. if length a = 0 then Inl IndexOutOfBounds else Inr (Return (a ! 0, s))"
  have n: "block_group_cnt fs \<le> 2 ^ 32" using ok by (simp add: block_numbers_ok_def)
  note srch = group_search[OF m c n, where alloc = "\<lambda>bg. bg_alloc_block hw bg 1" and free = "\<lambda>c. group_free_block c fs" and ret = ?ret
      and out = "\<lambda>g i. [?val g i]" and val = ?val and taken = "block_taken fs"]
  show ?thesis using srch[OF group_alloc[OF _ _ _ ok]] u unfolding ext2_alloc_block_def
    by (cases "List.find (\<lambda>g. group_free_block (disk s p) fs g \<noteq> None) [0..<block_group_cnt fs]") auto
qed

section \<open>Properties\<close>

text \<open>
  C21. Inodes survive a round trip through the disk: after \<^verbatim>\<open>Inode::flush\<close>, \<^verbatim>\<open>Inode::get\<close> of its number returns the
  same inode, field by field; the flush changes exactly the 128 bytes of its slot of the inode table. (The slot must not overlap the
  descriptor of its group.)
\<close>

theorem inode_flush_get:
  assumes "mounted hw p fs s" and "inode_number n \<noteq> 0" and "inode_wf n" and "tables_apart (disk s p) fs (inode_number n)"
  shows "\<exists>s1 s2. inode_flush hw n s = Inr s1 \<and> inode_get hw (inode_number n) s1 = Inr (n, s2) \<and> same_kernel s s2
    \<and> (\<forall>x. x < inode_pos (disk s p) fs (inode_number n) \<or> inode_pos (disk s p) fs (inode_number n) + 128 \<le> x \<longrightarrow> disk s2 p x = disk s p x)"
proof -
  from inode_flush_ok[OF assms(1-3)] obtain s1 where s1: "inode_flush hw n s = Inr s1" "mounted hw p fs s1" "same_kernel s s1"
    "disk s1 = (disk s)(p := put_bytes (inode_pos (disk s p) fs (inode_number n)) (inode_bytes n) (disk s p))" by blast
  from inode_get_ok[OF s1(2) assms(2)] obtain s2 where
    s2: "inode_get hw (inode_number n) s1 = Inr (disk_inode (disk s1 p) fs (inode_number n), s2)" "reads_only hw p fs s1 s2" by blast
  have "disk_inode (disk s1 p) fs (inode_number n) = n" using disk_inode_put[OF assms(4,3)] s1(4) by simp
  moreover have "same_kernel s s2" using same_kernel_trans[OF s1(3)] s2(2) by (simp add: reads_only_def)
  moreover have "disk s2 = disk s1" using s2(2) by (simp add: reads_only_def)
  ultimately show ?thesis using s1(1,4) s2(1) inode_length[OF assms(3)] by (auto simp: put_bytes_def)
qed

text \<open>A disk whose first group has its inode table at block 5 and its block bitmap at block 3, with the first four bits set.\<close>

definition sample_disk :: "nat \<Rightarrow> u8" where
  "sample_disk x = (if x = 2048 then 3 else if x = 2052 then 4 else if x = 2056 then 5 else if x = 2060 then 8 else if x = 2062 then 4
     else if x = 3072 then 15 else 0)"

lemma sample_descriptor:
  "bg_inode_table (disk_descriptor sample_disk sample_fs 0) = 5" "bg_block_bitmap (disk_descriptor sample_disk sample_fs 0) = 3"
  "bg_unallocated_blocks (disk_descriptor sample_disk sample_fs 0) = 8"
  by (simp_all add: disk_descriptor_def descriptor_of_def desc_pos_def byte_pos_def le_at_def bytes_at_def upt_rec sample_disk_def)

theorem inode_flush_get_witness:
  "\<exists>s1 s2. inode_flush prompt_hba sample_inode (sample_ext2 sample_disk) = Inr s1 \<and> inode_get prompt_hba 2 s1 = Inr (sample_inode, s2)"
proof -
  have two: "inode_number sample_inode = 2" by (simp add: sample_inode_def)
  have "inode_group sample_fs 2 = 0" "inode_slot sample_fs 2 = 1"
    by (simp_all add: inode_group_def inode_slot_def)
  then have "tables_apart sample_disk sample_fs 2"
    by (simp add: tables_apart_def inode_pos_def sample_descriptor(1) Let_def desc_pos_def byte_pos_def)
  then have "tables_apart (disk (sample_ext2 sample_disk) 0) sample_fs (inode_number sample_inode)" by (simp add: sample_ext2_disk two)
  from inode_flush_get[OF sample_ext2_mounted _ sample_inode_wf this] show ?thesis by (auto simp: two)
qed

text \<open>
  Inode numbers and places correspond one to one: the group and the slot that the code computes from a number are in range and
  determine the number, and the number that \<^verbatim>\<open>BlockGroup::alloc_inode\<close> gives to slot \<open>i\<close> of group \<open>g\<close> is found again at that place;
  number 0 panics.
\<close>

theorem inode_numbers:
  assumes "mounted hw p fs s"
  shows "get_block_group 0 s = Inl Overflow \<and> get_table_index 0 s = Inl Overflow
    \<and> (\<forall>g i. i < unat (sb_inodes_per_group (fs_superblock fs)) \<longrightarrow>
         get_block_group (i + 1 + g * unat (sb_inodes_per_group (fs_superblock fs))) s = Inr g
         \<and> get_table_index (i + 1 + g * unat (sb_inodes_per_group (fs_superblock fs))) s = Inr i)
    \<and> (\<forall>k. 0 < k \<longrightarrow> (\<exists>g i. get_block_group k s = Inr g \<and> get_table_index k s = Inr i
         \<and> i < unat (sb_inodes_per_group (fs_superblock fs)) \<and> k = i + 1 + g * unat (sb_inodes_per_group (fs_superblock fs))))"
proof -
  let ?n = "unat (sb_inodes_per_group (fs_superblock fs))"
  have n: "0 < ?n" using assms fs_ok_bounds(5) by (simp add: mounted_def)
  have eq: "get_block_group k s = (if k = 0 then Inl Overflow else Inr ((k - 1) div ?n))"
      "get_table_index k s = (if k = 0 then Inl Overflow else Inr ((k - 1) mod ?n))" for k
    using n by (simp_all add: get_block_group_def get_table_index_def the_fs_mounted[OF assms] usub_def udiv_def umod_def)
  have split: "(k - 1) mod ?n + 1 + (k - 1) div ?n * ?n = k" if "0 < k" for k
    using that mod_div_mult_eq[of "k - 1" ?n] by linarith
  show ?thesis
  proof (intro conjI allI impI)
    fix k :: nat assume k: "0 < k"
    have lt: "(k - 1) mod ?n < ?n" using n by simp
    show "\<exists>g i. get_block_group k s = Inr g \<and> get_table_index k s = Inr i \<and> i < ?n \<and> k = i + 1 + g * ?n"
    proof (intro exI conjI)
      show "get_block_group k s = Inr ((k - 1) div ?n)" "get_table_index k s = Inr ((k - 1) mod ?n)" using k by (simp_all add: eq)
      show "k = (k - 1) mod ?n + 1 + (k - 1) div ?n * ?n" by (rule split[OF k, symmetric])
    qed (rule lt)
  qed (use n in \<open>simp_all add: eq\<close>)
qed

theorem inode_numbers_witness:
  "get_block_group 0 (sample_ext2 sample_disk) = Inl Overflow \<and> get_block_group 19 (sample_ext2 sample_disk) = Inr 2
   \<and> get_table_index 19 (sample_ext2 sample_disk) = Inr 2"
proof -
  have "unat (sb_inodes_per_group (fs_superblock sample_fs)) = 8" by simp
  note n = inode_numbers[OF sample_ext2_mounted[of sample_disk], unfolded this]
  show ?thesis using n[THEN conjunct1] n[THEN conjunct2, THEN conjunct2, THEN conjunct1, rule_format, of 2 2] by simp
qed

text \<open>
  C22. Block allocation: \<^verbatim>\<open>Ext2Filesystem::alloc_block\<close> takes the first clear bit of the bitmap of the first group that counts a free
  block and has one, returns the number of that block, sets exactly that bit on the disk and takes one from the count of the group; it returns
  \<^verbatim>\<open>None\<close> and changes nothing exactly when no group has one. The scratch bitmap is given back in both cases.
\<close>

theorem ext2_alloc_block_first_free:
  assumes "mounted hw p fs s" and "2 \<le> card (free_frames s)" and "block_numbers_ok fs"
    and "sb_unallocated_blocks (fs_superblock fs) \<noteq> 0"
  shows "case List.find (\<lambda>g. group_free_block (disk s p) fs g \<noteq> None) [0..<block_group_cnt fs] of
      None \<Rightarrow> \<exists>s'. ext2_alloc_block hw fs s = Inr (None, s') \<and> reads_only hw p fs s s'
    | Some g \<Rightarrow> \<exists>i s' c'. group_free_block (disk s p) fs g = Some i
        \<and> ext2_alloc_block hw fs s = Inr (Some (of_nat (i + group_base fs g)), s') \<and> mounted hw p fs s' \<and> same_kernel s s'
        \<and> disk s' = (disk s)(p := c') \<and> block_taken fs g i (disk s p) c'"
  by (rule ext2_alloc_block_ok[OF assms])

lemma sample_bitmap: "group_bitmap sample_disk sample_fs 0 = 15 # replicate 1023 0"
  by (rule nth_equalityI)
    (auto simp: group_bitmap_def sample_descriptor byte_pos_def sample_disk_def nth_Cons split: nat.splits)

lemma sample_free_block: "group_free_block sample_disk sample_fs 0 = Some 4"
proof -
  have b: "i \<in> bits_of (15 # replicate 1023 0) \<longleftrightarrow> i < 4" if "i < 5" for i
  proof -
    have "i div 8 = 0" "i mod 8 = i" using that by simp_all
    moreover have "i = 0 \<or> i = 1 \<or> i = 2 \<or> i = 3 \<or> i = 4" using that by linarith
    ultimately show ?thesis using that by (auto simp: bits_of_def)
  qed
  have "List.find (\<lambda>i. i \<notin> bits_of (15 # replicate 1023 0)) [0..<1024 * 8] = Some 4"
    unfolding find_upt_Some using b by auto
  then show ?thesis unfolding group_free_block_def sample_bitmap using sample_descriptor(3) by simp
qed

theorem ext2_alloc_block_first_free_witness:
  "\<exists>s' c'. ext2_alloc_block prompt_hba sample_fs (sample_ext2 sample_disk) = Inr (Some 4, s') \<and> disk s' 0 = c'
    \<and> block_taken sample_fs 0 4 sample_disk c'"
proof -
  have ok: "block_numbers_ok sample_fs" by (simp add: block_numbers_ok_def group_base_def)
  have u: "sb_unallocated_blocks (fs_superblock sample_fs) \<noteq> 0" by simp
  have "List.find (\<lambda>g. group_free_block sample_disk sample_fs g \<noteq> None) [0..<block_group_cnt sample_fs] = Some 0"
    by (simp add: sample_free_block)
  moreover have "group_base sample_fs 0 = 0" by (simp add: group_base_def)
  ultimately show ?thesis
    using ext2_alloc_block_first_free[OF sample_ext2_mounted[of sample_disk] _ ok u] sample_free_block by (auto simp: sample_ext2_disk sample_ext2_free)
qed

end
