(* ===== verification/Ext2_Files.thy ===== *)
theory Ext2_Files
  imports Ext2_Inodes
begin

text \<open>
  Reading files and searching directories: what \<^verbatim>\<open>Inode::read\<close> leaves in the caller's buffer, and the directory entry that
  \<^verbatim>\<open>DirectoryEntry::search\<close> finds.
\<close>

section \<open>Reading a file\<close>

text \<open>The bytes of block \<open>i\<close> of a file, from the start.\<close>

definition file_block :: "(nat \<Rightarrow> u8) \<Rightarrow> ext2_filesystem \<Rightarrow> inode \<Rightarrow> nat \<Rightarrow> nat \<Rightarrow> u8 list" where
  "file_block c fs n i cnt = bytes_at c (byte_pos fs (unat (ref_block c fs n i)) 0) cnt"

text \<open>The disk, the allocator and the memory in use outside the first \<open>m\<close> bytes of the buffer are as before.\<close>

definition reading :: "'z disk_hw \<Rightarrow> nat \<Rightarrow> ext2_filesystem \<Rightarrow> u64 \<Rightarrow> nat \<Rightarrow> 'z ext2_state_scheme \<Rightarrow> 'z ext2_state_scheme \<Rightarrow> bool" where
  "reading hw p fs buffer m s s' \<longleftrightarrow> mounted hw p fs s' \<and> disk s' = disk s \<and> free_frames s' = free_frames s \<and> frame_cnt s' = frame_cnt s
     \<and> ahci_devices s' = ahci_devices s \<and> kernel_vmm s' = kernel_vmm s \<and> ahci_state.more s' = ahci_state.more s
     \<and> (\<forall>x. unat x div 4096 \<notin> free_frames s \<and> m \<le> unat (x - direct buffer) \<longrightarrow> mem s' x = mem s x)"

text \<open>The same, but the disk may have been written.\<close>

definition working :: "'z disk_hw \<Rightarrow> nat \<Rightarrow> ext2_filesystem \<Rightarrow> u64 \<Rightarrow> nat \<Rightarrow> 'z ext2_state_scheme \<Rightarrow> 'z ext2_state_scheme \<Rightarrow> bool" where
  "working hw p fs buffer m s s' \<longleftrightarrow> mounted hw p fs s' \<and> free_frames s' = free_frames s \<and> frame_cnt s' = frame_cnt s
     \<and> ahci_devices s' = ahci_devices s \<and> kernel_vmm s' = kernel_vmm s \<and> ahci_state.more s' = ahci_state.more s
     \<and> (\<forall>x. unat x div 4096 \<notin> free_frames s \<and> m \<le> unat (x - direct buffer) \<longrightarrow> mem s' x = mem s x)"

lemma reading_working: "reading hw p fs buffer m s s' \<longleftrightarrow> working hw p fs buffer m s s' \<and> disk s' = disk s"
  by (auto simp: reading_def working_def)

lemma reading_refl: "mounted hw p fs s \<Longrightarrow> reading hw p fs buffer m s s"
  by (simp add: reading_def)

lemma reading_trans:
  "reading hw p fs buffer m s t \<Longrightarrow> reading hw p fs buffer m' t u \<Longrightarrow> m' \<le> m \<Longrightarrow> reading hw p fs buffer m s u"
  by (simp add: reading_def)

lemma reads_only_reading: "reads_only hw p fs s t \<Longrightarrow> reading hw p fs buffer m s t"
  by (simp add: reads_only_def reading_def same_kernel_def)

lemma mounted_cong:
  assumes "mounted hw p fs s" and "device_ready hw 0 p s'" "free_frames s' = free_frames s" "ahci_state.more s' = ahci_state.more s"
  shows "mounted hw p fs s'"
proof -
  have "ext2_fs s' = ext2_fs s" using assms(4) by (cases s, cases s') simp
  then show ?thesis using assms by (simp add: mounted_def disk_ready_def)
qed

lemma read_block_ok:
  assumes m: "mounted hw p fs s" and b: "b < 2 ^ 32" and c: "0 < count" "count \<le> block_size fs"
  shows "\<exists>bc s'. ahci_read hw 0 (of_nat (byte_pos fs b 0)) count buffer s = Inr (Inr bc, s') \<and> reading hw p fs buffer count s s'
    \<and> load_bytes (mem s') (direct buffer) count = bytes_at (disk s p) (byte_pos fs b 0) count"
proof -
  have ok: "fs_ok fs" and dr: "disk_ready hw p s" using m by (simp_all add: mounted_def)
  have "page_fits (byte_pos fs b 0) count" using block_fits(1)[OF ok b] c by (simp add: page_fits_def)
  note fit = page_fits_transfer[OF this]
  have "device_ready hw 0 p s" using dr by (simp add: disk_ready_def)
  from read_ok[OF this fit(1) disk_ready_room[OF dr fit(4,3)], of buffer] obtain s' where
    s': "ahci_read hw 0 (of_nat (byte_pos fs b 0)) count buffer s = Inr (Inr (sectors_of (of_nat (byte_pos fs b 0)) count * 512), s')"
      "load_bytes (mem s') (direct buffer) count = disk_bytes p (byte_pos fs b 0) count s" "disk s' = disk s" "free_frames s' = free_frames s"
      "frame_cnt s' = frame_cnt s" "device_ready hw 0 p s'" "ahci_devices s' = ahci_devices s" "kernel_vmm s' = kernel_vmm s"
      "ahci_state.more s' = ahci_state.more s"
      "\<forall>x. unat x div 4096 \<notin> free_frames s \<and> count \<le> unat (x - direct buffer) \<longrightarrow> mem s' x = mem s x" unfolding fit(2) by blast
  have "mounted hw p fs s'" by (rule mounted_cong[OF m s'(6,4,9)])
  then show ?thesis using s' by (auto simp: reading_def disk_bytes_at)
qed

text \<open>One round of the loop, for a read from the start of the file.\<close>

lemma read_round:
  assumes m: "mounted hw p fs s" and wf: "inode_wf n" and k: "reachable_block fs k"
    and c: "round_count fs bytes done = Inr count" "0 < count" "count \<le> block_size fs" and lt: "done < bytes"
  shows "\<exists>s'. inode_read_loop hw fs n 0 bytes buffer done k s = inode_read_loop hw fs n 0 bytes buffer (done + count) (k + 1) s'
    \<and> reading hw p fs buffer count s s' \<and> load_bytes (mem s') (direct buffer) count = file_block (disk s p) fs n k count"
proof -
  have ok: "fs_ok fs" using m by (simp add: mounted_def)
  from get_block_address_ok[OF m wf k] obtain s1 where
    s1: "get_block_address hw n k s = Inr (ref_block (disk s p) fs n k, s1)" "reads_only hw p fs s s1" by blast
  have m1: "mounted hw p fs s1" "disk s1 = disk s" using s1(2) by (simp_all add: reads_only_def)
  let ?b = "unat (ref_block (disk s p) fs n k)"
  have b: "?b < 2 ^ 32" using unat_less_limit[of "ref_block (disk s p) fs n k"] by simp
  from read_block_ok[OF m1(1) b c(2,3), of buffer] obtain bc s2 where
    s2: "ahci_read hw 0 (of_nat (byte_pos fs ?b 0)) count buffer s1 = Inr (Inr bc, s2)" "reading hw p fs buffer count s1 s2"
      "load_bytes (mem s2) (direct buffer) count = file_block (disk s p) fs n k count" unfolding m1(2) file_block_def by blast
  have "udiv 0 (block_size fs) = Inr 0" "uadd 0 k = Inr k" using fs_ok_bounds(6)[OF ok] k
    by (simp_all add: udiv_def uadd_def reachable_block_def)
  then have "inode_read_loop hw fs n 0 bytes buffer done k s = inode_read_loop hw fs n 0 bytes buffer (done + count) (k + 1) s2"
    using lt s1(1) c(1) block_fits(2)[OF ok b] s2(1) by (subst inode_read_loop.simps) simp
  then show ?thesis using s2(3) reading_trans[OF reads_only_reading[OF s1(2)] s2(2)] by blast
qed

lemma reachable_mono: "reachable_block fs k \<Longrightarrow> j \<le> k \<Longrightarrow> reachable_block fs j"
  by (auto simp: reachable_block_def)

lemma read_one_block:
  assumes m: "mounted hw p fs s" and wf: "inode_wf n" and b: "0 < bytes" "bytes \<le> block_size fs"
  shows "\<exists>s'. inode_read hw n 0 bytes buffer s = Inr (Inr bytes, s') \<and> reading hw p fs buffer bytes s s'
    \<and> load_bytes (mem s') (direct buffer) bytes = file_block (disk s p) fs n 0 bytes"
proof -
  have ok: "fs_ok fs" using m by (simp add: mounted_def)
  have "round_count fs bytes 0 = Inr bytes"
    using b fs_ok_bounds(2,6)[OF ok] by (auto simp: round_count_def uadd_def umod_def)
  moreover have "reachable_block fs 0" by (simp add: reachable_block_def)
  ultimately obtain s' where s': "inode_read_loop hw fs n 0 bytes buffer 0 0 s = inode_read_loop hw fs n 0 bytes buffer (0 + bytes) (0 + 1) s'"
    "reading hw p fs buffer bytes s s'" "load_bytes (mem s') (direct buffer) bytes = file_block (disk s p) fs n 0 bytes"
    using read_round[OF m wf _ _ b b(1), of 0] by blast
  have "inode_read hw n 0 bytes buffer s = Inr (Inr bytes, s')"
    using s'(1) by (simp add: inode_read_def the_fs_mounted[OF m] inode_read_loop.simps[of _ _ _ _ _ _ bytes])
  then show ?thesis using s'(2,3) by blast
qed

lemma round_count_whole:
  assumes "fs_ok fs" and "j < 2 ^ 40" and "j < K"
  shows "round_count fs (K * block_size fs) (j * block_size fs) = Inr (block_size fs)"
proof -
  have "j * block_size fs \<le> 2 ^ 40 * 4096" using assms(2) fs_ok_bounds(2)[OF assms(1)] by (intro mult_mono) simp_all
  then have "uadd (j * block_size fs) (block_size fs) = Inr (Suc j * block_size fs)"
    using fs_ok_bounds(2)[OF assms(1)] by (simp add: uadd_def)
  moreover have "Suc j * block_size fs \<le> K * block_size fs" using assms(3) by (intro mult_le_mono1) simp
  ultimately show ?thesis by (simp add: round_count_def)
qed

text \<open>Several whole blocks: every round fills the same bytes of the buffer.\<close>

lemma read_whole_blocks:
  assumes "mounted hw p fs s" and wf: "inode_wf n" and "reachable_block fs (j + k)"
  shows "\<exists>s'. inode_read_loop hw fs n 0 ((j + Suc k) * block_size fs) buffer (j * block_size fs) j s = Inr (Inr ((j + Suc k) * block_size fs), s')
    \<and> reading hw p fs buffer (block_size fs) s s'
    \<and> load_bytes (mem s') (direct buffer) (block_size fs) = file_block (disk s p) fs n (j + k) (block_size fs)"
  using assms(1,3)
proof (induction k arbitrary: j s)
  case (0 j s)
  have ok: "fs_ok fs" using "0.prems"(1) by (simp add: mounted_def)
  have j: "j < 2 ^ 40" using "0.prems"(2) by (simp add: reachable_block_def)
  have "round_count fs ((j + 1) * block_size fs) (j * block_size fs) = Inr (block_size fs)"
    by (rule round_count_whole[OF ok j]) simp
  with read_round[OF "0.prems"(1) wf "0.prems"(2)[simplified], of "(j + 1) * block_size fs" "j * block_size fs" "block_size fs" buffer]
    fs_ok_bounds(6)[OF ok]
  obtain s' where s': "inode_read_loop hw fs n 0 ((j + 1) * block_size fs) buffer (j * block_size fs) j s
      = inode_read_loop hw fs n 0 ((j + 1) * block_size fs) buffer (j * block_size fs + block_size fs) (j + 1) s'"
    "reading hw p fs buffer (block_size fs) s s'"
    "load_bytes (mem s') (direct buffer) (block_size fs) = file_block (disk s p) fs n j (block_size fs)" by auto
  have e: "(j + 1) * block_size fs = j * block_size fs + block_size fs" by simp
  have "inode_read_loop hw fs n 0 ((j + 1) * block_size fs) buffer (j * block_size fs + block_size fs) (j + 1) s'
      = Inr (Inr ((j + 1) * block_size fs), s')" unfolding e by (subst inode_read_loop.simps) simp
  then show ?case using s' by auto
next
  case (Suc k j s)
  let ?B = "(j + Suc (Suc k)) * block_size fs"
  have ok: "fs_ok fs" using Suc.prems(1) by (simp add: mounted_def)
  have r: "reachable_block fs j" "reachable_block fs (Suc j + k)" using Suc.prems(2) reachable_mono by auto
  have j: "j < 2 ^ 40" using r(1) by (simp add: reachable_block_def)
  have "round_count fs ?B (j * block_size fs) = Inr (block_size fs)"
    by (rule round_count_whole[OF ok j]) simp
  moreover have "j * block_size fs < ?B" using fs_ok_bounds(6)[OF ok] by (intro mult_less_mono1) simp_all
  ultimately obtain s1 where s1: "inode_read_loop hw fs n 0 ?B buffer (j * block_size fs) j s
      = inode_read_loop hw fs n 0 ?B buffer (Suc j * block_size fs) (Suc j) s1" "reading hw p fs buffer (block_size fs) s s1"
    using read_round[OF Suc.prems(1) wf r(1), of ?B "j * block_size fs" "block_size fs" buffer] fs_ok_bounds(6)[OF ok] by (auto simp: add.commute)
  have m1: "mounted hw p fs s1" "disk s1 = disk s" using s1(2) by (simp_all add: reading_def)
  have B: "?B = (Suc j + Suc k) * block_size fs" by simp
  from Suc.IH[OF m1(1) r(2)] obtain s2 where
    "inode_read_loop hw fs n 0 ?B buffer (Suc j * block_size fs) (Suc j) s1 = Inr (Inr ?B, s2)" "reading hw p fs buffer (block_size fs) s1 s2"
    "load_bytes (mem s2) (direct buffer) (block_size fs) = file_block (disk s p) fs n (Suc j + k) (block_size fs)"
    unfolding m1(2) B by blast
  then show ?case using s1 reading_trans by (metis add_Suc_shift order_refl)
qed

section \<open>Searching a directory\<close>

lemma scratch_box:
  assumes m: "mounted hw p fs s" and c: "2 \<le> card (free_frames s)" and n: "0 < n" "n \<le> 4096"
  shows "\<exists>f tmp s1. pmm_box_new n s = Inr (tmp, s1) \<and> box_data tmp = kptr f \<and> f < 2 ^ 35 \<and> mounted hw p fs s1 \<and> disk s1 = disk s \<and> f \<notin> free_frames s1
    \<and> (\<forall>t k. k \<le> 4096 \<and> working hw p fs (kptr f) k s1 t \<longrightarrow>
          (\<exists>t'. pmm_box_drop tmp t = Inr t' \<and> mounted hw p fs t' \<and> same_kernel s t' \<and> disk t' = disk t))"
proof -
  have wf: "pmm_wf s" and dr: "disk_ready hw p s" using m by (simp_all add: mounted_def disk_ready_def device_ready_def)
  have n60: "n < 2 ^ 60" using n by simp
  from box_new_total[OF wf disk_ready_room[OF dr n] n60] obtain tmp s1 where box: "pmm_box_new n s = Inr (tmp, s1)" by blast
  from box_new_effect[OF wf box n60] one_page[OF n] obtain f where f: "box_data tmp = kptr f" "page_cnt tmp = 1" "f + 1 \<le> frame_cnt s"
      "f + 1 \<le> 2 ^ 35" "f \<in> free_frames s" "free_frames s1 = free_frames s - {f}" "frame_cnt s1 = frame_cnt s" "pmm_wf s1"
      "mem s1 = fill_bytes (mem s) (of_nat f * PAGE_SIZE) 0 4096" "pmm_state.more s1 = pmm_state.more s" by auto
  have f35: "f < 2 ^ 35" using f(4) by simp
  note m1 = mounted_alloc_page[OF m c f(8,6,10)]
  note same = ahci_more_fields[OF f(10)]
  have "\<exists>t'. pmm_box_drop tmp t = Inr t' \<and> mounted hw p fs t' \<and> same_kernel s t' \<and> disk t' = disk t"
    if k: "k \<le> 4096" and t: "working hw p fs (kptr f) k s1 t" for t k
  proof -
    have tm: "mounted hw p fs t" using t by (simp add: working_def)
    then have twf: "pmm_wf t" "device_ready hw 0 p t" by (simp_all add: mounted_def disk_ready_def device_ready_def)
    have "f + page_cnt tmp \<le> frame_cnt t" using t f(2,3,7) by (simp add: working_def)
    from drop_box[OF twf(1) f(1) this f35] f(2) obtain t' where t': "pmm_box_drop tmp t = Inr t'" "free_frames t' = insert f (free_frames t)"
      "pmm_wf t'" "frame_cnt t' = frame_cnt t" "mem t' = mem t" "pmm_state.more t' = pmm_state.more t" by auto
    note same' = ahci_more_fields[OF t'(6)]
    have ff: "free_frames t' = free_frames s" using t'(2) t f(5,6) by (auto simp: working_def)
    have "mem t' x = mem s x" if x: "unat x div 4096 \<notin> free_frames s" for x
    proof -
      have "4096 \<le> unat (x - direct (kptr f))" using outside_frames[OF f(4), of x] x f(5) direct_kptr[OF f35] by auto
      then have "mem t x = mem s1 x" using t x f(6) k by (auto simp: working_def)
      moreover have "mem s1 x = mem s x" unfolding f(9) using x f(5) by (intro fill_page_apart[OF f35]) auto
      ultimately show ?thesis using t'(5) by simp
    qed
    then have "same_kernel s t'" using ff t'(4) t same same' f(7) by (simp add: same_kernel_def working_def)
    moreover have "device_ready hw 0 p t'" using twf(2) t'(3) same' port_ready_more[OF t'(6)] by (simp add: device_ready_def)
    ultimately show ?thesis using t'(1) t same same' ff m mounted_cong[OF m, of t'] by (auto simp: working_def)
  qed
  moreover have "f \<notin> free_frames s1" using f(6) by simp
  ultimately show ?thesis using box f(1) f35 m1 by blast
qed

text \<open>
  A directory as a list of entries: each has a size that covers its eight bytes of fields and its name, and the entries fill the
  directory from byte \<open>i\<close> to the end.
\<close>

inductive dir_entries :: "u8 list \<Rightarrow> nat \<Rightarrow> (u32 \<times> u8 list) list \<Rightarrow> bool" for bs where
  dir_end: "dir_entries bs (length bs) []"
| dir_entry: "\<lbrakk>8 + unat (bs ! (i + 6)) \<le> unat (le_at (i + 4) 2 bs :: u16); i + unat (le_at (i + 4) 2 bs :: u16) \<le> length bs;
    dir_entries bs (i + unat (le_at (i + 4) 2 bs :: u16)) es\<rbrakk> \<Longrightarrow>
    dir_entries bs i ((le_at i 4 bs, take (unat (bs ! (i + 6))) (drop (i + 8) bs)) # es)"

inductive_cases dir_entries_NilE: "dir_entries bs i []"

definition find_entry :: "string \<Rightarrow> (u32 \<times> u8 list) list \<Rightarrow> u32 option" where
  "find_entry name es = map_option fst (List.find (\<lambda>(k, nm). k \<noteq> 0 \<and> nm = as_bytes name) es)"

lemma load_part:
  assumes "load_bytes m a n = bs" and "i + k \<le> n"
  shows "load_bytes m (a + of_nat i) k = take k (drop i bs)"
  using assms by (intro nth_equalityI) (auto simp: add.assoc)

lemma entry_at_bytes:
  assumes buf: "load_bytes m (direct (kptr f)) n = bs" and f: "f < 2 ^ 35" and n: "n \<le> 4096" and i: "i + 8 \<le> n"
  shows "entry_at m (kptr f + of_nat i) = \<lparr>de_inode = le_at i 4 bs, entry_size = le_at (i + 4) 2 bs, name_length = bs ! (i + 6),
      ti_or_length = bs ! (i + 7)\<rparr>"
    and "i + 8 + k \<le> n \<Longrightarrow> entry_name_at m (kptr f + of_nat i) k = take k (drop (i + 8) bs)"
proof -
  have d: "direct (kptr f + of_nat i + of_nat j) = direct (kptr f) + of_nat (i + j)" if "i + j < 4096" for j
    using direct_kptr_plus[OF f that] direct_kptr[OF f] by (simp add: add.assoc)
  have d0: "direct (kptr f + of_nat i) = direct (kptr f) + of_nat i" using d[of 0] i n by simp
  have d4: "direct (kptr f + of_nat i + 4) = direct (kptr f) + of_nat (i + 4)" using d[of 4] i n by simp
  have d6: "direct (kptr f + of_nat i + 6) = direct (kptr f) + of_nat (i + 6)" using d[of 6] i n by simp
  have d7: "direct (kptr f + of_nat i + 7) = direct (kptr f) + of_nat (i + 7)" using d[of 7] i n by simp
  have at: "m (direct (kptr f) + of_nat j) = bs ! j" if "j < n" for j using buf that by (auto simp: load_bytes_def)
  show "entry_at m (kptr f + of_nat i) = \<lparr>de_inode = le_at i 4 bs, entry_size = le_at (i + 4) 2 bs, name_length = bs ! (i + 6),
      ti_or_length = bs ! (i + 7)\<rparr>"
    unfolding entry_at_def d0 d4 d6 d7 using load_part[OF buf, of i 4] load_part[OF buf, of "i + 4" 2] i
    by (simp add: le_at_def at del: of_nat_add)
  assume k: "i + 8 + k \<le> n"
  show "entry_name_at m (kptr f + of_nat i) k = take k (drop (i + 8) bs)"
  proof (cases "k = 0")
    case False
    then have "direct (kptr f + of_nat i + 8) = direct (kptr f) + of_nat (i + 8)" using d[of 8] k n by simp
    then show ?thesis unfolding entry_name_at_def using load_part[OF buf, of "i + 8" k] k by simp
  qed (simp add: entry_name_at_def load_bytes_def)
qed

lemma length_as_bytes [simp]: "length (as_bytes name) = length name"
  by (simp add: as_bytes_def)

lemma ucast_of_nat_u32: "i < 2 ^ 32 \<Longrightarrow> ucast (of_nat i :: u32) = (of_nat i :: u64)"
  by (rule word_unat_eq_iff[THEN iffD2]) (simp add: unsigned_ucast_eq unat_of_nat take_bit_nat_eq_self)

lemma of_nat_unat_u16: "of_nat (unat e) = (ucast e :: u32)" for e :: u16
proof (rule word_unat_eq_iff[THEN iffD2])
  have e: "unat e < 2 ^ 16" using unat_less_limit[of e] by simp
  then show "unat (of_nat (unat e) :: u32) = unat (ucast e :: u32)"
    by (simp add: unsigned_ucast_eq take_bit_nat_eq_self)
qed

lemma search_loop_finds:
  assumes es: "dir_entries bs i es" and buf: "load_bytes m (direct (kptr f)) n = bs" and f: "f < 2 ^ 35" and n: "n \<le> 4096"
  shows "search_loop m (kptr f) (of_nat n) name (of_nat i) = Some (Inr (find_entry name es))"
  using es
proof induction
  case dir_end
  have "length bs = n" using buf by (metis length_load_bytes)
  then show ?case by (subst search_loop.simps) (simp add: find_entry_def)
next
  case (dir_entry i es)
  let ?e = "le_at (i + 4) 2 bs :: u16" and ?nl = "unat (bs ! (i + 6))"
  have len: "length bs = n" using buf by (metis length_load_bytes)
  have i: "i + 8 \<le> n" "i + 8 + ?nl \<le> n" "i < n" using dir_entry.hyps(1,2) len by linarith+
  note en = entry_at_bytes[OF buf f n i(1)]
  have lt: "(of_nat i :: u32) < of_nat n" using i(3) n by (simp add: word_less_nat_alt)
  have ui: "unat (of_nat i :: u32) = i" "i < 2 ^ 32" using i n by simp_all
  have uc: "(ucast (of_nat i :: u32) :: u64) = of_nat i" by (rule ucast_of_nat_u32[OF ui(2)])
  have nxt: "of_nat i + (ucast ?e :: u32) = of_nat (i + unat ?e)"
    by (simp add: of_nat_unat_u16)
  have sum: "unat (of_nat i :: u32) + unat ?e < 2 ^ 32" using dir_entry.hyps(2) len n ui by simp
  have "length (take ?nl (drop (i + 8) bs)) = ?nl" using i(2) len by simp
  then have nlen: "?nl \<noteq> length name \<longrightarrow> take ?nl (drop (i + 8) bs) \<noteq> as_bytes name" by (metis length_as_bytes)
  have step: "search_loop m (kptr f) (of_nat n) name (of_nat i) =
      (if le_at i 4 bs \<noteq> (0 :: u32) \<and> take ?nl (drop (i + 8) bs) = as_bytes name then Some (Inr (Some (le_at i 4 bs)))
       else search_loop m (kptr f) (of_nat n) name (of_nat (i + unat ?e)))"
    unfolding search_loop.simps[of m "kptr f" "of_nat n" name "of_nat i"] uc Let_def en(1)
    using lt sum nlen unfolding directory_entry.simps en(2)[OF i(2)] nxt
    by (cases "?nl = length name") (simp_all del: of_nat_add)
  show ?case unfolding step dir_entry.IH by (simp add: find_entry_def)
qed

text \<open>A directory whose entries lie in one block.\<close>

definition dir_ok :: "(nat \<Rightarrow> u8) \<Rightarrow> ext2_filesystem \<Rightarrow> inode \<Rightarrow> (u32 \<times> u8 list) list \<Rightarrow> bool" where
  "dir_ok c fs n es \<longleftrightarrow> is_directory n \<and> inode_wf n \<and> 0 < unat (sizel n) \<and> unat (sizel n) \<le> block_size fs
     \<and> dir_entries (file_block c fs n 0 (unat (sizel n))) 0 es"

lemma search_ok:
  assumes m: "mounted hw p fs s" and c: "2 \<le> card (free_frames s)" and d: "dir_ok (disk s p) fs n es"
  shows "\<exists>s'. search hw n name s = Inr (find_entry name es, s') \<and> reads_only hw p fs s s'"
proof -
  let ?z = "unat (sizel n)"
  have ok: "fs_ok fs" using m by (simp add: mounted_def)
  have z: "0 < ?z" "?z \<le> block_size fs" "?z \<le> 4096" using d fs_ok_bounds(2)[OF ok] by (auto simp: dir_ok_def)
  from scratch_box[OF m c z(1,3)] obtain f tmp s1 where s1: "pmm_box_new ?z s = Inr (tmp, s1)" "box_data tmp = kptr f" "f < 2 ^ 35"
      "mounted hw p fs s1" "disk s1 = disk s"
      and dropb: "\<And>t k. k \<le> 4096 \<Longrightarrow> working hw p fs (kptr f) k s1 t \<Longrightarrow>
        \<exists>t'. pmm_box_drop tmp t = Inr t' \<and> mounted hw p fs t' \<and> same_kernel s t' \<and> disk t' = disk t" by blast
  have wf: "inode_wf n" using d by (simp add: dir_ok_def)
  from read_one_block[OF s1(4) wf z(1,2), of "kptr f"] obtain s2 where s2: "inode_read hw n 0 ?z (kptr f) s1 = Inr (Inr ?z, s2)"
      "reading hw p fs (kptr f) ?z s1 s2" "load_bytes (mem s2) (direct (kptr f)) ?z = file_block (disk s p) fs n 0 ?z"
    unfolding s1(5) by blast
  have "dir_entries (file_block (disk s p) fs n 0 ?z) 0 es" using d by (simp add: dir_ok_def)
  from search_loop_finds[OF this s2(3) s1(3) z(3), of name]
  have "search_loop (mem s2) (kptr f) (sizel n) name 0 = Some (Inr (find_entry name es))" by simp
  moreover from s2(2) s1(5) have "working hw p fs (kptr f) ?z s1 s2" "disk s2 = disk s" by (simp_all add: reading_working)
  with dropb[OF z(3)] obtain s3 where s3: "pmm_box_drop tmp s2 = Inr s3" "reads_only hw p fs s s3"
    unfolding reads_only_def by metis
  ultimately have "search hw n name s = Inr (find_entry name es, s3)"
    using d s1(1,2) s2(1) by (simp add: search_def dir_ok_def unwrap_ok_def)
  then show ?thesis using s3(2) by blast
qed

text \<open>An entry of size 0 that is not the one searched for stops the walk for ever.\<close>

lemma search_loop_stuck:
  assumes e: "entry_size (entry_at m (b + ucast i)) = 0" and i: "i < sz"
    and no: "de_inode (entry_at m (b + ucast i)) = 0 \<or> unat (name_length (entry_at m (b + ucast i))) \<noteq> length name"
  shows "search_loop m b sz name i = None"
proof (rule ccontr)
  assume "search_loop m b sz name i \<noteq> None"
  then obtain y where y: "search_loop m b sz name i = Some y" by blast
  have "\<not> (m = m \<and> b = b \<and> sz = sz \<and> name = name \<and> i = i)"
  proof (rule search_loop.raw_induct[OF _ y, where P = "\<lambda>m' b' sz' name' i' _. \<not> (m' = m \<and> b' = b \<and> sz' = sz \<and> name' = name \<and> i' = i)"],
      rule notI, elim conjE)
    fix sl m' b' sz' name' i' y'
    assume IH: "\<And>m' b' sz' name' i' y. sl m' b' sz' name' i' = Some y \<Longrightarrow> \<not> (m' = m \<and> b' = b \<and> sz' = sz \<and> name' = name \<and> i' = i)"
      and eqs: "m' = m" "b' = b" "sz' = sz" "name' = name" "i' = i"
      and body: "(if i' < sz' then let p = b' + ucast i'; curr_entry = entry_at m' p in
          if unat i' + unat (entry_size curr_entry) < 2 ^ 32
          then let i = i' + ucast (entry_size curr_entry) in
               if de_inode curr_entry = 0 \<or> unat (name_length curr_entry) \<noteq> length name' then sl m' b' sz' name' i
               else if entry_name_at m' p (unat (name_length curr_entry)) = as_bytes name' then Some (Inr (Some (de_inode curr_entry)))
               else sl m' b' sz' name' i
          else Some (Inl Overflow) else Some (Inr None)) = Some y'"
    have "unat i < 2 ^ 32" using unat_less_limit[of i] by simp
    then have "sl m b sz name i = Some y'" using body e i no unfolding eqs by (auto simp: Let_def)
    then show False using IH by blast
  qed
  then show False by simp
qed

section \<open>Paths\<close>

text \<open>The inode at the end of a path, through directories of one block.\<close>

inductive path_to :: "(nat \<Rightarrow> u8) \<Rightarrow> ext2_filesystem \<Rightarrow> inode \<Rightarrow> string list \<Rightarrow> inode \<Rightarrow> bool" for c fs where
  path_last: "\<lbrakk>w \<noteq> []; dir_ok c fs d es; find_entry w es = Some k\<rbrakk> \<Longrightarrow> path_to c fs d [w] (disk_inode c fs k)"
| path_step: "\<lbrakk>w \<noteq> []; dir_ok c fs d es; find_entry w es = Some k; is_directory (disk_inode c fs k);
    path_to c fs (disk_inode c fs k) ws n\<rbrakk> \<Longrightarrow> path_to c fs d (w # ws) n"
| path_skip: "path_to c fs d ws n \<Longrightarrow> path_to c fs d ([] # ws) n"

inductive_cases path_NilE: "path_to c fs d [] n"

lemma path_nonempty: "path_to c fs d ws n \<Longrightarrow> ws \<noteq> []"
  by (auto elim: path_NilE)

lemma find_entry_nonzero: "find_entry w es = Some k \<Longrightarrow> k \<noteq> 0"
  by (auto simp: find_entry_def find_Some_iff)

text \<open>The next free slot of the table of open files.\<close>

definition free_slot :: "'z ext2_state_scheme \<Rightarrow> nat option" where
  "free_slot s = List.find (\<lambda>i. inode_table s ! i = None) [0..<length (inode_table s)]"

definition opened ::
  "'z disk_hw \<Rightarrow> nat \<Rightarrow> ext2_filesystem \<Rightarrow> nat \<Rightarrow> inode \<Rightarrow> 'z ext2_state_scheme \<Rightarrow> 'z ext2_state_scheme \<Rightarrow> bool" where
  "opened hw p fs i n s s' \<longleftrightarrow> (\<exists>t. reads_only hw p fs s t \<and> s' = t\<lparr>inode_table := (inode_table s)[i := Some n]\<rparr>)"

lemma path_inode: "path_to c fs d ws n \<Longrightarrow> \<exists>k. n = disk_inode c fs k"
  by (induction rule: path_to.induct) auto

lemma new_fd_ok:
  assumes "reads_only hw p fs s t" and "free_slot s = Some i"
  shows "\<exists>s'. new_fd n flags t = Inr (Some (file_description_new i flags EXT2_FS_REF), s') \<and> opened hw p fs i n s s'"
proof -
  have t: "mounted hw p fs t" "same_kernel s t" "disk t = disk s" "inode_table t = inode_table s"
    using assms(1) same_kernel_ext2(2) by (auto simp: reads_only_def)
  have "the_fs (t\<lparr>inode_table := X\<rparr>) = Inr fs" for X using t(1) by (simp add: the_fs_def mounted_def unwrap_def)
  then show ?thesis using assms t(4) by (auto simp: new_fd_def free_slot_def opened_def Let_def)
qed

text \<open>One fragment of a path: the search and the inode it leads to.\<close>

lemma lookup_fragment:
  assumes r: "reads_only hw p fs s t" and c: "2 \<le> card (free_frames s)" and d: "dir_ok (disk s p) fs d es" "find_entry w es = Some k"
  shows "\<exists>t1 t2. search hw d w t = Inr (Some k, t1) \<and> inode_get hw k t1 = Inr (disk_inode (disk s p) fs k, t2) \<and> reads_only hw p fs s t2"
proof -
  have t: "mounted hw p fs t" "disk t = disk s" "2 \<le> card (free_frames t)" using r c by (auto simp: reads_only_def same_kernel_def)
  from search_ok[OF t(1,3), of d es w] d t(2) obtain t1 where t1: "search hw d w t = Inr (Some k, t1)" "reads_only hw p fs t t1" by auto
  have r1: "reads_only hw p fs s t1" by (rule reads_only_trans[OF r t1(2)])
  then have m1: "mounted hw p fs t1" "disk t1 = disk s" by (simp_all add: reads_only_def)
  from inode_get_ok[OF m1(1) find_entry_nonzero[OF d(2)]] obtain t2 where
    "inode_get hw k t1 = Inr (disk_inode (disk s p) fs k, t2)" "reads_only hw p fs t1 t2" unfolding m1(2) by blast
  then show ?thesis using t1(1) reads_only_trans[OF r1] by blast
qed

lemma open_loop_resolves:
  assumes path: "path_to (disk s p) fs d ws n" and c: "2 \<le> card (free_frames s)" and slot: "free_slot s = Some i"
    and r: "reads_only hw p fs s t"
  shows "\<exists>s'. open_loop fl hw fs flags d ws t = Inr (Some (file_description_new i flags EXT2_FS_REF), s') \<and> opened hw p fs i n s s'"
  using path r
proof (induction arbitrary: t)
  case (path_skip d ws n)
  then show ?case by simp
next
  case (path_last w d es k)
  from lookup_fragment[OF path_last.prems c path_last.hyps(2,3)] obtain t1 t2 where
    t: "search hw d w t = Inr (Some k, t1)" "inode_get hw k t1 = Inr (disk_inode (disk s p) fs k, t2)" "reads_only hw p fs s t2" by blast
  from new_fd_ok[OF t(3) slot] show ?case using path_last.hyps(1) t(1,2) by simp
next
  case (path_step w d es k ws n)
  from lookup_fragment[OF path_step.prems c path_step.hyps(2,3)] obtain t1 t2 where
    t: "search hw d w t = Inr (Some k, t1)" "inode_get hw k t1 = Inr (disk_inode (disk s p) fs k, t2)" "reads_only hw p fs s t2" by blast
  from path_step.IH[OF t(3)] show ?case using path_step.hyps(1,4) path_nonempty[OF path_step.hyps(5)] t(1,2) by simp
qed

lemma ext2_open_ok:
  assumes "mounted hw p fs s" and "2 \<le> card (free_frames s)" and "free_slot s = Some i"
    and "path_to (disk s p) fs (disk_inode (disk s p) fs ROOT_DIR_INODE) (split_at (CHR ''/'') path) n"
  shows "\<exists>s'. ext2_open fl hw fs path flags mode s = Inr (Some (file_description_new i flags EXT2_FS_REF), s') \<and> opened hw p fs i n s s'"
proof -
  have "ROOT_DIR_INODE \<noteq> 0" by (simp add: ROOT_DIR_INODE_def)
  from inode_get_ok[OF assms(1) this] obtain s1 where
    s1: "inode_get hw ROOT_DIR_INODE s = Inr (disk_inode (disk s p) fs ROOT_DIR_INODE, s1)" "reads_only hw p fs s s1" by blast
  from open_loop_resolves[OF assms(4,2,3) s1(2), of fl flags] show ?thesis using s1(1) by (simp add: ext2_open_def)
qed

section \<open>A sample directory\<close>

text \<open>Inode 2 is a directory in block 20 with the one entry \<^verbatim>\<open>a\<close>, which is inode 3; the inode table is in block 5.\<close>

definition sample_tree :: "nat \<Rightarrow> u8" where
  "sample_tree x = (if x = 2056 then 5 else if x = 5248 then 0xed else if x = 5249 then 0x41 else if x = 5253 then 4 else if x = 5288 then 20
     else if x = 20480 then 3 else if x = 20485 then 4 else if x = 20486 then 1 else if x = 20487 then 1 else if x = 20488 then 97 else 0)"

lemma le_at_bytes_at: "k + n \<le> m \<Longrightarrow> le_at k n (bytes_at c a m) = of_le (bytes_at c (a + k) n)"
  by (simp add: le_at_def take_drop_bytes_at)

lemma sample_tree_pos: "inode_pos sample_tree sample_fs 2 = 5248"
  by (simp add: inode_pos_def inode_group_def inode_slot_def byte_pos_def disk_descriptor_def descriptor_of_def desc_pos_def
      le_at_bytes_at) (simp add: bytes_at_def upt_rec sample_tree_def)

lemma sample_root:
  "is_directory (disk_inode sample_tree sample_fs 2)" "sizel (disk_inode sample_tree sample_fs 2) = 1024"
  "direct_pointer (disk_inode sample_tree sample_fs 2) ! 0 = 20"
  by (simp_all add: is_directory_def disk_inode_def sample_tree_pos inode_of_def le_at_bytes_at FileType_DIRECTORY_def)
    (simp_all add: bytes_at_def upt_rec sample_tree_def)

lemma disk_inode_wf: "inode_wf (disk_inode c fs k)"
  by (simp add: inode_wf_def disk_inode_def inode_of_def)

lemma sample_dir_ok: "dir_ok sample_tree sample_fs (disk_inode sample_tree sample_fs 2) [(3, [97])]"
proof -
  let ?b = "bytes_at sample_tree 20480 1024"
  have e: "le_at 4 2 ?b = (1024 :: u16)" "le_at 0 4 ?b = (3 :: u32)" "?b ! 6 = 1" "take 1 (drop 8 ?b) = [97]"
    by (simp_all add: le_at_bytes_at take_drop_bytes_at) (simp_all add: bytes_at_def upt_rec sample_tree_def)
  have "dir_entries ?b 1024 []" using dir_end[of ?b] by simp
  then have "dir_entries ?b 0 [(3, [97])]" using dir_entry[of ?b 0 "[]"] e by simp
  then show ?thesis using sample_root disk_inode_wf
    by (simp add: dir_ok_def file_block_def ref_block_def byte_pos_def)
qed

section \<open>Properties\<close>

text \<open>
  Reading the first bytes of a file: \<^verbatim>\<open>Inode::read\<close> from offset 0 of at most one block ends, returns the number of bytes asked for,
  leaves exactly the first bytes of the file's first block in the buffer, and changes neither the disk nor the memory in use behind them.
\<close>

theorem inode_read_first_block:
  assumes "mounted hw p fs s" and "inode_wf n" and "0 < bytes" "bytes \<le> block_size fs"
  shows "\<exists>s'. inode_read hw n 0 bytes buffer s = Inr (Inr bytes, s')
    \<and> load_bytes (mem s') (direct buffer) bytes = file_block (disk s p) fs n 0 bytes
    \<and> disk s' = disk s \<and> free_frames s' = free_frames s
    \<and> (\<forall>x. unat x div 4096 \<notin> free_frames s \<and> bytes \<le> unat (x - direct buffer) \<longrightarrow> mem s' x = mem s x)"
  using read_one_block[OF assms, of buffer] by (auto simp: reading_def)

theorem inode_read_first_block_witness:
  "\<exists>s'. inode_read prompt_hba sample_inode 0 3 0xffff800000003000 (sample_ext2 (\<lambda>x. of_nat (x div 1024))) = Inr (Inr 3, s')
    \<and> load_bytes (mem s') 0x3000 3 = [20, 20, 20]"
proof -
  have "direct 0xffff800000003000 = 0x3000" by (simp add: direct_def PHYS_BASE_def)
  moreover have "file_block (\<lambda>x. of_nat (x div 1024)) sample_fs sample_inode 0 3 = [20, 20, 20]"
    by (simp add: file_block_def ref_block_def byte_pos_def bytes_at_def upt_rec sample_inode_def)
  ultimately show ?thesis
    using inode_read_first_block[OF sample_ext2_mounted[of "\<lambda>x. of_nat (x div 1024)"] sample_inode_wf, of 3 "0xffff800000003000"]
    by (auto simp: sample_ext2_disk)
qed

text \<open>
  C33. Longer reads lose data: the loop of \<^verbatim>\<open>Inode::read\<close> does not advance the buffer, so that a read of \<open>k + 1\<close> whole blocks ends and
  reports all their bytes as read, but leaves only the last block, at the start of the buffer; nothing behind the first block of
  the buffer is written.
\<close>

theorem inode_read_overlays:
  assumes "mounted hw p fs s" and "inode_wf n" and "reachable_block fs k"
  shows "\<exists>s'. inode_read hw n 0 (Suc k * block_size fs) buffer s = Inr (Inr (Suc k * block_size fs), s')
    \<and> load_bytes (mem s') (direct buffer) (block_size fs) = file_block (disk s p) fs n k (block_size fs)
    \<and> (\<forall>x. unat x div 4096 \<notin> free_frames s \<and> block_size fs \<le> unat (x - direct buffer) \<longrightarrow> mem s' x = mem s x)"
  using read_whole_blocks[OF assms(1,2), of 0 k buffer] assms(3) by (auto simp: reading_def inode_read_def the_fs_mounted[OF assms(1)])

theorem inode_read_overlays_witness:
  "\<exists>s'. inode_read prompt_hba sample_inode 0 2048 0xffff800000003000 (sample_ext2 (\<lambda>x. of_nat (x div 1024))) = Inr (Inr 2048, s')
    \<and> mem s' 0x3000 = 21"
proof -
  have r: "reachable_block sample_fs 1" by (simp add: reachable_block_def)
  have d: "direct 0xffff800000003000 = 0x3000" by (simp add: direct_def PHYS_BASE_def)
  obtain s' where s': "inode_read prompt_hba sample_inode 0 2048 0xffff800000003000 (sample_ext2 (\<lambda>x. of_nat (x div 1024))) = Inr (Inr 2048, s')"
    "load_bytes (mem s') 0x3000 1024 = file_block (\<lambda>x. of_nat (x div 1024)) sample_fs sample_inode 1 1024"
    using inode_read_overlays[OF sample_ext2_mounted[of "\<lambda>x. of_nat (x div 1024)"] sample_inode_wf r, of "0xffff800000003000"]
    by (auto simp: sample_ext2_disk d)
  have "mem s' 0x3000 = load_bytes (mem s') 0x3000 1024 ! 0" by simp
  also have "\<dots> = 21" unfolding s'(2) by (simp add: file_block_def ref_block_def byte_pos_def sample_inode_def)
  finally show ?thesis using s'(1) by blast
qed

text \<open>
  C23. Directory search: in a directory whose entries fill one block, \<^verbatim>\<open>DirectoryEntry::search\<close> ends and returns the inode of the first entry in
  use with the given name, or \<^verbatim>\<open>None\<close> when there is none; it gives its buffer back and changes nothing.
\<close>

theorem search_finds:
  assumes "mounted hw p fs s" and "2 \<le> card (free_frames s)" and "dir_ok (disk s p) fs n es"
  shows "\<exists>s'. search hw n name s = Inr (find_entry name es, s') \<and> disk s' = disk s \<and> same_kernel s s'"
  using search_ok[OF assms] by (auto simp: reads_only_def)

theorem search_finds_witness:
  "\<exists>s' s''. search prompt_hba (disk_inode sample_tree sample_fs 2) ''a'' (sample_ext2 sample_tree) = Inr (Some 3, s')
    \<and> search prompt_hba (disk_inode sample_tree sample_fs 2) ''b'' (sample_ext2 sample_tree) = Inr (None, s'')"
proof -
  have c: "2 \<le> card (free_frames (sample_ext2 sample_tree))" by (simp add: sample_ext2_free)
  have d: "dir_ok (disk (sample_ext2 sample_tree) 0) sample_fs (disk_inode sample_tree sample_fs 2) [(3, [97])]"
    using sample_dir_ok by (simp add: sample_ext2_disk)
  have "find_entry ''a'' [(3, [97])] = Some 3" "find_entry ''b'' [(3, [97])] = None"
    by (simp_all add: find_entry_def as_bytes_def)
  then show ?thesis using search_finds[OF sample_ext2_mounted c d, of "''a''"] search_finds[OF sample_ext2_mounted c d, of "''b''"] by auto
qed

text \<open>
  C34. A damaged directory hangs the kernel: when the first entry of a directory block has size 0 and is not the one that is searched for,
  \<^verbatim>\<open>DirectoryEntry::search\<close> never returns.
\<close>

theorem search_hangs:
  assumes m: "mounted hw p fs s" and c: "2 \<le> card (free_frames s)" and d: "is_directory n" "inode_wf n" "8 \<le> unat (sizel n)"
    "unat (sizel n) \<le> block_size fs"
    and e: "le_at 4 2 (file_block (disk s p) fs n 0 (unat (sizel n))) = (0 :: u16)"
    "unat (file_block (disk s p) fs n 0 (unat (sizel n)) ! 6) \<noteq> length name"
  shows "search hw n name s = Inl Hangs"
proof -
  let ?z = "unat (sizel n)"
  have ok: "fs_ok fs" using m by (simp add: mounted_def)
  have z: "0 < ?z" "?z \<le> 4096" using d(3,4) fs_ok_bounds(2)[OF ok] by linarith+
  from scratch_box[OF m c z] obtain f tmp s1 where s1: "pmm_box_new ?z s = Inr (tmp, s1)" "box_data tmp = kptr f" "f < 2 ^ 35"
      "mounted hw p fs s1" "disk s1 = disk s" by blast
  from read_one_block[OF s1(4) d(2) z(1) d(4), of "kptr f"] obtain s2 where s2: "inode_read hw n 0 ?z (kptr f) s1 = Inr (Inr ?z, s2)"
      "load_bytes (mem s2) (direct (kptr f)) ?z = file_block (disk s p) fs n 0 ?z" unfolding s1(5) by blast
  have "entry_at (mem s2) (kptr f + of_nat 0) = \<lparr>de_inode = le_at 0 4 (file_block (disk s p) fs n 0 ?z), entry_size = 0,
      name_length = file_block (disk s p) fs n 0 ?z ! 6, ti_or_length = file_block (disk s p) fs n 0 ?z ! 7\<rparr>"
    using entry_at_bytes(1)[OF s2(2) s1(3) z(2), of 0] d(3) e(1) by simp
  moreover have "0 < sizel n" using z(1) by (simp add: word_less_nat_alt)
  ultimately have "search_loop (mem s2) (kptr f) (sizel n) name 0 = None" using e(2) by (intro search_loop_stuck) simp_all
  then show ?thesis using d(1) s1(1,2) s2(1) by (simp add: search_def unwrap_ok_def)
qed

theorem search_hangs_witness:
  "search prompt_hba sample_inode ''a'' (sample_ext2 (\<lambda>_. 0)) = Inl Hangs"
proof (rule search_hangs[OF sample_ext2_mounted])
  show "2 \<le> card (free_frames (sample_ext2 (\<lambda>_. 0)))" by (simp add: sample_ext2_free)
  show "is_directory sample_inode" "8 \<le> unat (sizel sample_inode)" "unat (sizel sample_inode) \<le> block_size sample_fs"
    by (simp_all add: is_directory_def sample_inode_def FileType_DIRECTORY_def)
  have s: "unat (sizel sample_inode) = 1024" by (simp add: sample_inode_def)
  show "le_at 4 2 (file_block (disk (sample_ext2 (\<lambda>_. 0)) 0) sample_fs sample_inode 0 (unat (sizel sample_inode))) = (0 :: u16)"
    unfolding s file_block_def sample_ext2_disk by (simp add: le_at_bytes_at) (simp add: bytes_at_def upt_rec)
  show "unat (file_block (disk (sample_ext2 (\<lambda>_. 0)) 0) sample_fs sample_inode 0 (unat (sizel sample_inode)) ! 6) \<noteq> length ''a''"
    unfolding s file_block_def sample_ext2_disk by simp
qed (rule sample_inode_wf)

text \<open>
  Opening an existing file: when the fragments of the path lead from the root directory through directories to an inode,
  \<^verbatim>\<open>open\<close> returns a descriptor for the first free slot of the table of open files and puts exactly that inode there;
  nothing else changes, on the disk or in the kernel (empty fragments, as between two slashes, are skipped).
\<close>

theorem ext2_open_resolves:
  assumes "mounted hw p fs s" and "2 \<le> card (free_frames s)" and "free_slot s = Some i"
    and "path_to (disk s p) fs (disk_inode (disk s p) fs ROOT_DIR_INODE) (split_at (CHR ''/'') path) n"
  shows "\<exists>s'. ext2_open fl hw fs path flags mode s = Inr (Some (file_description_new i flags EXT2_FS_REF), s') \<and> opened hw p fs i n s s'"
  by (rule ext2_open_ok[OF assms])

theorem ext2_open_resolves_witness:
  "\<exists>s'. ext2_open bitflags_ref prompt_hba sample_fs ''/a'' O_RDONLY 0 (sample_ext2 sample_tree)
      = Inr (Some (file_description_new 0 O_RDONLY EXT2_FS_REF), s') \<and> inode_table s' ! 0 = Some (disk_inode sample_tree sample_fs 3)"
proof -
  have t: "inode_table (sample_ext2 sample_tree) = replicate 1024 None"
    by (simp add: sample_ext2_def sample_machine_def ext2_state.defs)
  have slot: "free_slot (sample_ext2 sample_tree) = Some 0" unfolding free_slot_def t find_upt_Some by simp
  have c: "2 \<le> card (free_frames (sample_ext2 sample_tree))" by (simp add: sample_ext2_free)
  have "find_entry ''a'' [(3, [97])] = Some 3" by (simp add: find_entry_def as_bytes_def)
  then have "path_to sample_tree sample_fs (disk_inode sample_tree sample_fs 2) [''a''] (disk_inode sample_tree sample_fs 3)"
    by (intro path_last[OF _ sample_dir_ok]) simp_all
  then have "path_to sample_tree sample_fs (disk_inode sample_tree sample_fs 2) ([] # [''a'']) (disk_inode sample_tree sample_fs 3)"
    by (rule path_skip)
  then have "path_to (disk (sample_ext2 sample_tree) 0) sample_fs (disk_inode (disk (sample_ext2 sample_tree) 0) sample_fs ROOT_DIR_INODE)
      (split_at (CHR ''/'') ''/a'') (disk_inode sample_tree sample_fs 3)" by (simp add: sample_ext2_disk ROOT_DIR_INODE_def)
  from ext2_open_resolves[OF sample_ext2_mounted c slot this, of bitflags_ref O_RDONLY 0] show ?thesis by (auto simp: opened_def t)
qed

end
