(* ===== verification/Partitions.thy ===== *)
theory Partitions
  imports Ext2
begin

text \<open>
  \<^verbatim>\<open>fs/partitions.rs\<close>: the partition table of the first disk. The header is a packed little-endian structure of 92 bytes, an
  entry one of 128 bytes, read from the buffer in memory.
\<close>

record gpt_header =
  gh_signature :: "u8 list"
  gh_revision :: u32
  gh_hdr_size :: u32
  gh_checksum :: u32
  gh_reserved :: u32
  gh_hdr_lba :: u64
  gh_alt_hdr_lba :: u64
  gh_first_usable :: u64
  gh_last_usable :: u64
  gh_disk_guid :: "u8 list"
  gh_start_lba :: u64
  gh_partition_entries :: u32
  gh_entry_size :: u32
  gh_pea_checksum :: u32

definition gpt_header_of :: "u8 list \<Rightarrow> gpt_header" where
  "gpt_header_of bs =
     \<lparr>gh_signature = take 8 bs, gh_revision = le_at 8 4 bs, gh_hdr_size = le_at 12 4 bs, gh_checksum = le_at 16 4 bs,
      gh_reserved = le_at 20 4 bs, gh_hdr_lba = le_at 24 8 bs, gh_alt_hdr_lba = le_at 32 8 bs, gh_first_usable = le_at 40 8 bs,
      gh_last_usable = le_at 48 8 bs, gh_disk_guid = take 16 (drop 56 bs), gh_start_lba = le_at 72 8 bs,
      gh_partition_entries = le_at 80 4 bs, gh_entry_size = le_at 84 4 bs, gh_pea_checksum = le_at 88 4 bs\<rparr>"

record gpt_partition_entry =
  gp_pt_guid :: "u64 list"
  gp_unique_guid :: "u64 list"
  gp_start_lba :: u64
  gp_end_lba :: u64
  gp_attributes :: u64
  gp_name :: "u8 list"

definition gpt_entry_of :: "u8 list \<Rightarrow> gpt_partition_entry" where
  "gpt_entry_of bs =
     \<lparr>gp_pt_guid = [le_at 0 8 bs, le_at 8 8 bs], gp_unique_guid = [le_at 16 8 bs, le_at 24 8 bs], gp_start_lba = le_at 32 8 bs,
      gp_end_lba = le_at 40 8 bs, gp_attributes = le_at 48 8 bs, gp_name = take 72 (drop 56 bs)\<rparr>"

definition scan_mbr :: "'z ext2_state_scheme \<Rightarrow> (unit rust_result \<times> 'z ext2_state_scheme) res" where
  "scan_mbr s = Inl (Panicked ''not yet implemented'')"

text \<open>\<^verbatim>\<open>signature.iter().zip(b"EFI PART".iter()).all(|(a, b)| a != b)\<close>.\<close>

definition not_gpt :: "gpt_header \<Rightarrow> bool" where
  "not_gpt h = list_all (\<lambda>(a, b). a \<noteq> b) (zip (gh_signature h) (as_bytes ''EFI PART''))"

definition scan_entries :: "'z disk_hw \<Rightarrow> u64 \<Rightarrow> u32 \<Rightarrow> 'z ext2_state_scheme \<Rightarrow> 'z ext2_state_scheme res" where
  "scan_entries hw ptr entries =
     for_each 0 (unat entries) (\<lambda>i s.
       let entry = gpt_entry_of (load_bytes (mem s) (direct (ptr + of_nat (i * 128))) 128) in
       if gp_pt_guid entry ! 0 = 0 then Inr s
       else bnd (try_and_init hw (gp_start_lba entry) s) (\<lambda>(_, s). Inr s))"

definition scan :: "'z disk_hw \<Rightarrow> 'z ext2_state_scheme \<Rightarrow> (unit rust_result \<times> 'z ext2_state_scheme) res" where
  "scan hw s =
     bnd (ahci_fetch hw 0 512 92 s) (\<lambda>(r, s).
     case r of
       Inl e \<Rightarrow> Inr (Inl e, s)
     | Inr (bc, data) \<Rightarrow>
         let gpt_header = gpt_header_of data in
         if not_gpt gpt_header then scan_mbr s
         else
           bnd (umul (unat (gh_partition_entries gpt_header)) 128) (\<lambda>bytes.
           bnd (pmm_box_new bytes s) (\<lambda>(gpt_entries, s).
           bnd (wmul (gh_start_lba gpt_header) 512) (\<lambda>offset.
           bnd (ahci_read hw 0 offset bytes (box_data gpt_entries) s) (\<lambda>(r, s).
           case r of
             Inl e \<Rightarrow> bnd (pmm_box_drop gpt_entries s) (\<lambda>s. Inr (Inl e, s))
           | Inr _ \<Rightarrow>
               bnd (scan_entries hw (box_data gpt_entries) (gh_partition_entries gpt_header) s) (\<lambda>s.
               bnd (pmm_box_drop gpt_entries s) (\<lambda>s. Inr (Inr (), s))))))))"

end
