(* ===== verification/Video.thy ===== *)
theory Video
  imports Phys_Memory
begin

text \<open>
  \<^verbatim>\<open>video/mod.rs\<close> and \<^verbatim>\<open>video/fonts/mod.rs\<close>: text on the frame buffer. The frame buffer is a map from addresses to
  32-bit pixels; the bytes of the font file are an argument, and so is what the boot loader reports of the screen. A character is its
  Unicode number.
\<close>

section \<open>Fonts\<close>

record psf_header =
  ps_magic :: u32
  ps_version :: u32
  ps_hdr_size :: u32
  ps_flags :: u32
  ps_glyph_count :: u32
  ps_glyph_size :: u32
  ps_height :: u32
  ps_width :: u32

definition psf_header_of :: "u8 list \<Rightarrow> psf_header" where
  "psf_header_of bs =
     \<lparr>ps_magic = le_at 0 4 bs, ps_version = le_at 4 4 bs, ps_hdr_size = le_at 8 4 bs, ps_flags = le_at 12 4 bs,
      ps_glyph_count = le_at 16 4 bs, ps_glyph_size = le_at 20 4 bs, ps_height = le_at 24 4 bs, ps_width = le_at 28 4 bs\<rparr>"

definition PSF_MAGIC :: u32 where "PSF_MAGIC = 0x864ab572"

record font =
  fo_bitmap :: "u8 list"
  fo_height :: u32
  fo_width :: u32

definition font_new :: "u8 list \<Rightarrow> font res" where
  "font_new bytes =
     (let header = psf_header_of bytes in
      if ps_magic header \<noteq> PSF_MAGIC then Inl (Panicked ''assertion failed: header.magic == PSF_MAGIC'')
      else if unat (ps_hdr_size header) > length bytes then Inl IndexOutOfBounds
      else Inr \<lparr>fo_bitmap = drop (unat (ps_hdr_size header)) bytes, fo_height = ps_height header, fo_width = ps_width header\<rparr>)"

section \<open>The screen\<close>

record framebuffer_tag =
  framebuffer_addr :: u64
  framebuffer_width :: u16
  framebuffer_height :: u16
  framebuffer_pitch :: u16

record video =
  cursor_x :: usize
  cursor_y :: usize
  fb_addr :: u64
  vi_height :: u16
  vi_width :: u16
  pitch :: u16
  vi_font :: font

type_synonym frame = "u64 \<Rightarrow> u32"

definition video_new :: "u8 list \<Rightarrow> framebuffer_tag \<Rightarrow> video res" where
  "video_new bytes fb_tag =
     bnd (font_new bytes) (\<lambda>f.
       Inr \<lparr>cursor_x = 10, cursor_y = 10, fb_addr = framebuffer_addr fb_tag, vi_height = framebuffer_height fb_tag,
            vi_width = framebuffer_width fb_tag, pitch = framebuffer_pitch fb_tag, vi_font = f\<rparr>)"

text \<open>One turn of the two loops of \<^verbatim>\<open>putc\<close>; a shift by 8 or more would panic.\<close>

definition putc_pixel :: "video \<Rightarrow> u32 \<Rightarrow> u32 \<Rightarrow> nat \<Rightarrow> nat \<Rightarrow> frame \<Rightarrow> frame res" where
  "putc_pixel v index color col row fr =
     bnd (wadd index (of_nat col)) (\<lambda>i.
     if unat i \<ge> length (fo_bitmap (vi_font v)) then Inl IndexOutOfBounds
     else bnd (wsub 7 (of_nat row)) (\<lambda>shift :: u32.
     if unat shift \<ge> 8 then Inl Overflow
     else if drop_bit (unat shift) (fo_bitmap (vi_font v) ! unat i) AND 1 = 1 then
       bnd (uadd (cursor_x v) row) (\<lambda>x.
       bnd (uadd (cursor_y v) col) (\<lambda>y.
       bnd (umul y (unat (pitch v))) (\<lambda>line.
       bnd (uadd x (line div 4)) (\<lambda>offset.
         Inr (fr(fb_addr v + of_nat (4 * offset) := color))))))
     else Inr fr))"

definition putc :: "u32 \<Rightarrow> u32 \<Rightarrow> video \<times> frame \<Rightarrow> (video \<times> frame) res" where
  "putc character color = (\<lambda>(v, fr).
     if character = 10 then
       bnd (uadd (cursor_y v) (unat (fo_height (vi_font v)) + 2)) (\<lambda>y. Inr (v\<lparr>cursor_y := y, cursor_x := 10\<rparr>, fr))
     else
       bnd (wmul character (fo_height (vi_font v))) (\<lambda>index.
       bnd (for_each 0 (unat (fo_height (vi_font v))) (\<lambda>col.
              for_each 0 (unat (fo_width (vi_font v))) (putc_pixel v index color col)) fr) (\<lambda>fr.
       let char_width = unat (fo_width (vi_font v)) + 2 in
       bnd (uadd (cursor_x v) char_width) (\<lambda>x.
       let v = v\<lparr>cursor_x := x\<rparr> in
       bnd (uadd x char_width) (\<lambda>x'.
       if x' \<ge> unat (vi_width v) then
         bnd (uadd (cursor_y v) (unat (fo_height (vi_font v)) + 2)) (\<lambda>y. Inr (v\<lparr>cursor_x := 10, cursor_y := y\<rparr>, fr))
       else Inr (v, fr))))))"

fun video_print :: "u32 list \<Rightarrow> video \<times> frame \<Rightarrow> (video \<times> frame) res" where
  "video_print [] s = Inr s"
| "video_print (c # msg) s = bnd (putc c 0xffffff s) (video_print msg)"

section \<open>What is drawn\<close>

text \<open>Whether the glyph of a character has a pixel at a place, and the address of that pixel on the screen.\<close>

definition glyph_pixel :: "font \<Rightarrow> u32 \<Rightarrow> nat \<Rightarrow> nat \<Rightarrow> bool" where
  "glyph_pixel f c col row = bit (fo_bitmap f ! (unat c * unat (fo_height f) + col)) (7 - row)"

definition pixel_offset :: "video \<Rightarrow> nat \<Rightarrow> nat \<Rightarrow> nat" where
  "pixel_offset v col row = cursor_x v + row + (cursor_y v + col) * unat (pitch v) div 4"

definition pixel_address :: "video \<Rightarrow> nat \<Rightarrow> nat \<Rightarrow> u64" where
  "pixel_address v col row = fb_addr v + of_nat (4 * pixel_offset v col row)"

definition glyph_addresses :: "video \<Rightarrow> u32 \<Rightarrow> u64 set" where
  "glyph_addresses v c = {pixel_address v col row | col row.
     col < unat (fo_height (vi_font v)) \<and> row < unat (fo_width (vi_font v)) \<and> glyph_pixel (vi_font v) c col row}"

text \<open>A font of at most 8 columns with a glyph for the character, and a cursor far from the end of the numbers.\<close>

definition can_draw :: "video \<Rightarrow> u32 \<Rightarrow> bool" where
  "can_draw v c \<longleftrightarrow> unat (fo_width (vi_font v)) \<le> 8
     \<and> (unat c + 1) * unat (fo_height (vi_font v)) \<le> length (fo_bitmap (vi_font v))
     \<and> (unat c + 1) * unat (fo_height (vi_font v)) < 2 ^ 32 \<and> cursor_x v < 2 ^ 32 \<and> cursor_y v < 2 ^ 40"

definition advance :: "video \<Rightarrow> video" where
  "advance v = (let w = unat (fo_width (vi_font v)) + 2 in
     if cursor_x v + 2 * w \<ge> unat (vi_width v)
     then v\<lparr>cursor_x := 10, cursor_y := cursor_y v + (unat (fo_height (vi_font v)) + 2)\<rparr>
     else v\<lparr>cursor_x := cursor_x v + w\<rparr>)"

lemma putc_pixel_ok:
  assumes d: "can_draw v c" and col: "col < unat (fo_height (vi_font v))" and row: "row < unat (fo_width (vi_font v))"
  shows "putc_pixel v (c * fo_height (vi_font v)) color col row fr
    = Inr (if glyph_pixel (vi_font v) c col row then fr(pixel_address v col row := color) else fr)"
proof -
  let ?f = "vi_font v" and ?h = "unat (fo_height (vi_font v))"
  have b: "unat c * ?h + col < (unat c + 1) * ?h" using col by simp
  have cl: "unat c * ?h < 2 ^ 32" "unat c * ?h + col < 2 ^ 32" "col < 2 ^ 32" using d b col by (simp_all add: can_draw_def)
  then have idx: "unat (c * fo_height ?f) = unat c * ?h" by (simp add: unat_word_ariths)
  then have add: "wadd (c * fo_height ?f) (of_nat col) = Inr (c * fo_height ?f + of_nat col)"
    "unat (c * fo_height ?f + of_nat col) = unat c * ?h + col"
    using cl by (simp_all add: wadd_def unat_word_ariths)
  have len: "unat c * ?h + col < length (fo_bitmap ?f)" using d b by (simp add: can_draw_def)
  have r8: "row < 8" using d row by (simp add: can_draw_def)
  then have sub: "wsub 7 (of_nat row :: u32) = Inr (7 - of_nat row)" "unat (7 - of_nat row :: u32) = 7 - row"
    by (simp_all add: wsub_def word_le_nat_alt unat_sub)
  have bit: "drop_bit (7 - row) (fo_bitmap ?f ! (unat c * ?h + col)) AND 1 = 1 \<longleftrightarrow> glyph_pixel ?f c col row"
    by (simp only: glyph_pixel_def bit_iff_odd_drop_bit and_one_eq odd_iff_mod_2_eq_one)
  have "unat (pitch v) < 2 ^ 16" using unat_less_limit[of "pitch v"] by simp
  moreover have "cursor_y v + col < 2 ^ 41" using d cl(3) by (simp add: can_draw_def)
  ultimately have p: "(cursor_y v + col) * unat (pitch v) < 2 ^ 41 * 2 ^ 16" by (intro mult_strict_mono) simp_all
  moreover have "(cursor_y v + col) * unat (pitch v) div 4 \<le> (cursor_y v + col) * unat (pitch v)" by simp
  moreover have "cursor_x v + row < 2 ^ 33" using d r8 by (simp add: can_draw_def)
  ultimately have small: "(cursor_y v + col) * unat (pitch v) < usize_limit" "cursor_x v + row < usize_limit" "cursor_y v + col < usize_limit"
      "cursor_x v + row + (cursor_y v + col) * unat (pitch v) div 4 < usize_limit"
    using \<open>cursor_y v + col < 2 ^ 41\<close> by (simp_all add: order.strict_trans2)
  show ?thesis
    unfolding putc_pixel_def add(1) sub(1) bnd_Inr add(2) sub(2) bit
    using len small by (simp add: uadd_def umul_def pixel_address_def pixel_offset_def)
qed

text \<open>The frame with the pixels at some places of the glyph painted.\<close>

definition painted :: "video \<Rightarrow> u32 \<Rightarrow> u32 \<Rightarrow> (nat \<times> nat) set \<Rightarrow> frame \<Rightarrow> frame" where
  "painted v c color D fr = (\<lambda>p. if \<exists>(col, row) \<in> D. glyph_pixel (vi_font v) c col row \<and> p = pixel_address v col row
     then color else fr p)"

lemma painted_empty: "painted v c color {} fr = fr"
  by (simp add: painted_def)

lemma painted_insert:
  "painted v c color (insert (col, row) D) fr =
    (if glyph_pixel (vi_font v) c col row then (painted v c color D fr)(pixel_address v col row := color) else painted v c color D fr)"
  by (rule ext) (auto simp: painted_def)

lemma draw_glyph:
  assumes d: "can_draw v c"
  shows "for_each 0 (unat (fo_height (vi_font v))) (\<lambda>col.
      for_each 0 (unat (fo_width (vi_font v))) (putc_pixel v (c * fo_height (vi_font v)) color col)) fr
    = Inr (\<lambda>p. if p \<in> glyph_addresses v c then color else fr p)"
proof -
  let ?h = "unat (fo_height (vi_font v))" and ?w = "unat (fo_width (vi_font v))"
  have row: "\<exists>fr''. for_each 0 ?w (putc_pixel v (c * fo_height (vi_font v)) color col) fr' = Inr fr''
      \<and> fr'' = painted v c color ({..<Suc col} \<times> {..<?w}) fr"
    if "col < ?h" "fr' = painted v c color ({..<col} \<times> {..<?w}) fr" for col fr'
  proof -
    have "\<exists>fr''. for_each 0 ?w (putc_pixel v (c * fo_height (vi_font v)) color col) fr' = Inr fr''
        \<and> fr'' = painted v c color ({..<col} \<times> {..<?w} \<union> {col} \<times> {..<?w}) fr"
    proof (rule for_each_inv[where P = "\<lambda>row fr'. fr' = painted v c color ({..<col} \<times> {..<?w} \<union> {col} \<times> {..<row}) fr"])
      fix row fr'
      assume r: "row < ?w" and fr': "fr' = painted v c color ({..<col} \<times> {..<?w} \<union> {col} \<times> {..<row}) fr"
      have "{..<col} \<times> {..<?w} \<union> {col} \<times> {..<Suc row} = insert (col, row) ({..<col} \<times> {..<?w} \<union> {col} \<times> {..<row})" by auto
      then show "\<exists>fr''. putc_pixel v (c * fo_height (vi_font v)) color col row fr' = Inr fr''
          \<and> fr'' = painted v c color ({..<col} \<times> {..<?w} \<union> {col} \<times> {..<Suc row}) fr"
        by (simp add: putc_pixel_ok[OF d that(1) r] painted_insert fr')
    qed (use that in simp_all)
    moreover have "{..<col} \<times> {..<?w} \<union> {col} \<times> {..<?w} = {..<Suc col} \<times> {..<?w}" by auto
    ultimately show ?thesis by simp
  qed
  have "\<exists>fr''. for_each 0 ?h (\<lambda>col. for_each 0 ?w (putc_pixel v (c * fo_height (vi_font v)) color col)) fr = Inr fr''
      \<and> fr'' = painted v c color ({..<?h} \<times> {..<?w}) fr"
    by (rule for_each_inv[where P = "\<lambda>col fr'. fr' = painted v c color ({..<col} \<times> {..<?w}) fr"]) (use row in \<open>simp_all add: painted_empty\<close>)
  moreover have "painted v c color ({..<?h} \<times> {..<?w}) fr = (\<lambda>p. if p \<in> glyph_addresses v c then color else fr p)"
    by (rule ext) (auto simp: painted_def glyph_addresses_def)
  ultimately show ?thesis by simp
qed

lemma putc_ok:
  assumes d: "can_draw v c" and "c \<noteq> 10"
  shows "putc c color (v, fr) = Inr (advance v, \<lambda>p. if p \<in> glyph_addresses v c then color else fr p)"
proof -
  let ?h = "unat (fo_height (vi_font v))" and ?w = "unat (fo_width (vi_font v))"
  have "unat c * ?h < 2 ^ 32" using d by (auto simp: can_draw_def)
  then have mul: "wmul c (fo_height (vi_font v)) = Inr (c * fo_height (vi_font v))" by (simp add: wmul_def)
  have "?h < 2 ^ 32" using unat_less_limit[of "fo_height (vi_font v)"] by simp
  then have small: "cursor_x v + (?w + 2) < usize_limit" "cursor_x v + (?w + 2) + (?w + 2) < usize_limit" "cursor_y v + (?h + 2) < usize_limit"
    using d by (simp_all add: can_draw_def)
  show ?thesis using assms(2) small
    by (simp add: putc_def mul draw_glyph[OF d] uadd_def advance_def Let_def)
qed

text \<open>A font with glyphs for the characters below 128.\<close>

definition font_covers :: "font \<Rightarrow> bool" where
  "font_covers f \<longleftrightarrow> unat (fo_width f) \<le> 8 \<and> unat (fo_height f) \<le> 2 ^ 20 \<and> 128 * unat (fo_height f) \<le> length (fo_bitmap f)"

lemma putc_total:
  assumes f: "font_covers (vi_font v)" and c: "unat c < 128" and x: "cursor_x v < 2 ^ 17" and y: "cursor_y v < 2 ^ 39"
  shows "\<exists>v' fr'. putc c color (v, fr) = Inr (v', fr') \<and> vi_font v' = vi_font v \<and> cursor_x v' < 2 ^ 17 \<and> cursor_y v' \<le> cursor_y v + (2 ^ 20 + 2)"
proof (cases "c = 10")
  case True
  then show ?thesis using f y by (simp add: putc_def uadd_def font_covers_def)
next
  case False
  have w: "unat (fo_width (vi_font v)) \<le> 8" "128 * unat (fo_height (vi_font v)) < 2 ^ 32"
    "128 * unat (fo_height (vi_font v)) \<le> length (fo_bitmap (vi_font v))" using f by (simp_all add: font_covers_def)
  have le: "(unat c + 1) * unat (fo_height (vi_font v)) \<le> 128 * unat (fo_height (vi_font v))" using c by (intro mult_le_mono1) simp
  have xy: "cursor_x v < 2 ^ 32" "cursor_y v < 2 ^ 40" using x y by simp_all
  have "can_draw v c" unfolding can_draw_def using w(1) le_trans[OF le w(3)] le_less_trans[OF le w(2)] xy by blast
  moreover have "unat (vi_width v) < 2 ^ 16" using unat_less_limit[of "vi_width v"] by simp
  ultimately show ?thesis using putc_ok[OF _ False, of v color fr] f by (auto simp: advance_def Let_def font_covers_def)
qed

lemma video_print_total:
  assumes "font_covers (vi_font v)" and "\<forall>c\<in>set msg. unat c < 128" and "cursor_x v < 2 ^ 17" and "cursor_y v + length msg * (2 ^ 20 + 2) < 2 ^ 39"
  shows "\<exists>v' fr'. video_print msg (v, fr) = Inr (v', fr') \<and> vi_font v' = vi_font v \<and> cursor_x v' < 2 ^ 17
    \<and> cursor_y v' \<le> cursor_y v + length msg * (2 ^ 20 + 2)"
  using assms
proof (induction msg arbitrary: v fr)
  case (Cons c msg)
  have "unat c < 128" "cursor_y v < 2 ^ 39" using Cons.prems(2,4) by simp_all
  from putc_total[OF Cons.prems(1) this(1) Cons.prems(3) this(2)] obtain v1 fr1 where
    v1: "putc c 0xffffff (v, fr) = Inr (v1, fr1)" "vi_font v1 = vi_font v" "cursor_x v1 < 2 ^ 17" "cursor_y v1 \<le> cursor_y v + (2 ^ 20 + 2)" by blast
  have y: "cursor_y v1 + length msg * (2 ^ 20 + 2) < 2 ^ 39" using v1(4) Cons.prems(4) by simp
  have f: "font_covers (vi_font v1)" using Cons.prems(1) v1(2) by simp
  from Cons.IH[OF f _ v1(3) y, of fr1] Cons.prems(2) v1 show ?case by fastforce
qed simp

text \<open>
  C38. \<^verbatim>\<open>putc\<close> draws a character: with a font of at most 8 columns that has a glyph for it, exactly the pixels the glyph sets change,
  to the colour, at the places right of and below the cursor, and the cursor moves on, to the next line where the next character would not fit.
  A character behind the last glyph panics.
\<close>

theorem putc_draws:
  assumes "c \<noteq> 10"
  shows "(can_draw v c \<longrightarrow> putc c color (v, fr) = Inr (advance v, \<lambda>p. if p \<in> glyph_addresses v c then color else fr p))
    \<and> (length (fo_bitmap (vi_font v)) \<le> unat c * unat (fo_height (vi_font v)) \<and> unat c * unat (fo_height (vi_font v)) < 2 ^ 32
        \<and> 0 < unat (fo_height (vi_font v)) \<and> 0 < unat (fo_width (vi_font v)) \<longrightarrow> putc c color (v, fr) = Inl IndexOutOfBounds)"
proof (intro conjI impI, goal_cases)
  case 1
  then show ?case using putc_ok assms by blast
next
  case 2
  let ?f = "vi_font v"
  have "wmul c (fo_height ?f) = Inr (c * fo_height ?f)" "unat (c * fo_height ?f) = unat c * unat (fo_height ?f)"
    using 2 by (simp_all add: wmul_def unat_word_ariths)
  moreover from this have "putc_pixel v (c * fo_height ?f) color 0 0 fr = Inl IndexOutOfBounds"
    using 2 by (simp add: putc_pixel_def wadd_def)
  ultimately show ?case using assms 2 by (simp add: putc_def for_each_step)
qed

text \<open>A screen of 640 by 480 pixels and a font of 128 glyphs of one full row of 8 pixels.\<close>

definition sample_video :: video where
  "sample_video = \<lparr>cursor_x = 10, cursor_y = 10, fb_addr = 0xfd000000, vi_height = 480, vi_width = 640, pitch = 2560,
     vi_font = \<lparr>fo_bitmap = replicate 128 0xff, fo_height = 1, fo_width = 8\<rparr>\<rparr>"

theorem putc_draws_witness:
  "(\<exists>fr. putc 65 0xffffff (sample_video, \<lambda>_. 0) = Inr (sample_video\<lparr>cursor_x := 20\<rparr>, fr) \<and> fr 0xfd006428 = 0xffffff)
   \<and> putc 200 0xffffff (sample_video, \<lambda>_. 0) = Inl IndexOutOfBounds"
proof -
  have d: "can_draw sample_video 65" by (simp add: can_draw_def sample_video_def)
  have "pixel_address sample_video 0 0 = 0xfd006428" by (simp add: pixel_address_def pixel_offset_def sample_video_def)
  moreover have "glyph_pixel (vi_font sample_video) 65 0 0" by (simp add: glyph_pixel_def sample_video_def)
  ultimately have g: "0xfd006428 \<in> glyph_addresses sample_video 65"
    unfolding glyph_addresses_def by (intro CollectI exI[of _ 0]) (simp add: sample_video_def)
  have a: "advance sample_video = sample_video\<lparr>cursor_x := 20\<rparr>" by (simp add: advance_def sample_video_def)
  show ?thesis
    using putc_draws[of 65 sample_video "0xffffff" "\<lambda>_. 0"] putc_draws[of 200 sample_video "0xffffff" "\<lambda>_. 0"] d g a
    by (simp add: sample_video_def)
qed

text \<open>The cursor after some line ends.\<close>

definition lines_down :: "nat \<Rightarrow> video \<Rightarrow> video" where
  "lines_down k v = v\<lparr>cursor_y := cursor_y v + k * (unat (fo_height (vi_font v)) + 2), cursor_x := 10\<rparr>"

lemma print_lines:
  assumes "cursor_y (lines_down (Suc k) v) < 2 ^ 64"
  shows "video_print (replicate (Suc k) 10 @ msg) (v, fr) = video_print msg (lines_down (Suc k) v, fr)"
  using assms
proof (induction k arbitrary: v)
  case 0
  then show ?case by (simp add: lines_down_def putc_def uadd_def)
next
  case (Suc k)
  let ?v = "lines_down 1 v"
  have c: "cursor_y (lines_down (Suc k) ?v) = cursor_y (lines_down (Suc (Suc k)) v)" "lines_down (Suc k) ?v = lines_down (Suc (Suc k)) v"
    by (simp_all add: lines_down_def algebra_simps)
  have "cursor_y v + (unat (fo_height (vi_font v)) + 2) < 2 ^ 64" using Suc.prems by (simp add: lines_down_def)
  then have "putc 10 0xffffff (v, fr) = Inr (?v, fr)" by (simp add: putc_def uadd_def lines_down_def)
  then show ?case using Suc.IH[of ?v] Suc.prems c by simp
qed

lemma glyph_below:
  assumes d: "can_draw v c" and p: "p \<in> glyph_addresses v c" and y: "h \<le> cursor_y v" and "4 dvd unat (pitch v)"
  shows "h * unat (pitch v) \<le> unat (p - fb_addr v)"
proof -
  from p obtain col row where cr: "p = pixel_address v col row" "col < unat (fo_height (vi_font v))" "row < unat (fo_width (vi_font v))"
    by (auto simp: glyph_addresses_def)
  obtain q where q: "unat (pitch v) = 4 * q" using assms(4) by blast
  then have "q < 2 ^ 14" using unat_less_limit[of "pitch v"] by simp
  moreover have "cursor_y v + col < 2 ^ 41"
    using d cr(2) unat_less_limit[of "fo_height (vi_font v)"] by (simp add: can_draw_def)
  ultimately have "(cursor_y v + col) * q < 2 ^ 41 * 2 ^ 14" by (intro mult_strict_mono) simp_all
  moreover have o: "pixel_offset v col row = cursor_x v + row + (cursor_y v + col) * q" by (simp add: pixel_offset_def q)
  ultimately have "4 * pixel_offset v col row < 2 ^ 64" using d cr(3) by (simp add: can_draw_def)
  then have "unat (p - fb_addr v) = 4 * pixel_offset v col row"
    unfolding cr(1) pixel_address_def add_diff_cancel_left' by (intro unat_of_nat_small) simp
  moreover have "h * q \<le> (cursor_y v + col) * q" using y by (intro mult_right_mono) simp_all
  then have "4 * (h * q) \<le> 4 * pixel_offset v col row" by (simp add: o trans_le_add2)
  ultimately show ?thesis by (simp add: q mult.left_commute)
qed

text \<open>
  C39. The text is never scrolled: after enough line ends the cursor is below the screen, and the next character is written to memory behind
  the frame buffer, whose size is \<^verbatim>\<open>height * pitch\<close> bytes.
\<close>

theorem print_leaves_screen:
  assumes "can_draw (lines_down (Suc k) v) c" and "c \<noteq> 10" and "unat (vi_height v) \<le> cursor_y (lines_down (Suc k) v)" and "4 dvd unat (pitch v)"
  shows "\<exists>v' fr'. video_print (replicate (Suc k) 10 @ [c]) (v, fr) = Inr (v', fr')
    \<and> fr' = (\<lambda>p. if p \<in> glyph_addresses (lines_down (Suc k) v) c then 0xffffff else fr p)
    \<and> (\<forall>p \<in> glyph_addresses (lines_down (Suc k) v) c. unat (vi_height v) * unat (pitch v) \<le> unat (p - fb_addr v))"
proof -
  let ?v = "lines_down (Suc k) v"
  have "cursor_y ?v < 2 ^ 64" using assms(1) by (simp add: can_draw_def)
  then have "video_print (replicate (Suc k) 10 @ [c]) (v, fr) = video_print [c] (?v, fr)" by (rule print_lines)
  moreover have "pitch ?v = pitch v" "fb_addr ?v = fb_addr v" by (simp_all add: lines_down_def)
  ultimately show ?thesis using putc_ok[OF assms(1,2)] glyph_below[OF assms(1) _ assms(3)] assms(4) by simp
qed

theorem print_leaves_screen_witness:
  "\<exists>v' fr'. video_print (replicate 160 10 @ [65]) (sample_video, \<lambda>_. 0) = Inr (v', fr')
     \<and> (\<exists>p. fr' p \<noteq> 0 \<and> 480 * 2560 \<le> unat (p - 0xfd000000))"
proof -
  have s: "Suc 159 = 160" by simp
  let ?v = "lines_down 160 sample_video"
  have d: "can_draw (lines_down (Suc 159) sample_video) 65" unfolding s by (simp add: lines_down_def can_draw_def sample_video_def)
  have g: "pixel_address ?v 0 0 \<in> glyph_addresses ?v 65"
    unfolding glyph_addresses_def by (intro CollectI exI[of _ 0]) (simp add: lines_down_def sample_video_def glyph_pixel_def)
  have v: "unat (vi_height sample_video) = 480" "unat (pitch sample_video) = 2560" "fb_addr sample_video = 0xfd000000"
    by (simp_all add: sample_video_def)
  have y: "unat (vi_height sample_video) \<le> cursor_y (lines_down (Suc 159) sample_video)"
    unfolding s v(1) by (simp add: lines_down_def sample_video_def)
  from print_leaves_screen[OF d _ y, of "\<lambda>_. 0"] g show ?thesis unfolding s v by (auto intro!: exI[of _ "pixel_address ?v 0 0"])
qed

end
