(* ===== verification/Boot.thy ===== *)
theory Boot
  imports Pmm_Init Slab_Heap Vmm_Tables Process Apic Ext2_Files Partitions Video
begin

text \<open>
  \<^verbatim>\<open>main.rs\<close>: the kernel starts its components one after the other, mounts the ext2 file system and reads a file. The state of the
  whole kernel is one record; a component whose functions are on a smaller state runs on a view of it, and its result is put back. The
  boot loader's tags, the addresses of statics, handlers and heap objects that the code takes, and the processor's identification are the
  record \<open>boot_env\<close>. Output on the serial port is left out here (the theory \<open>Serial\<close> has it).
\<close>

section \<open>The state of the kernel\<close>

record kernel = ext2_state +
  k_caches :: u64
  k_cache_at :: "u64 \<rightharpoonup> cache"
  k_slab_at :: "u64 \<rightharpoonup> slab"
  k_pid_bitmap :: "bitmap option"
  k_tid_bitmap :: "bitmap option"
  k_mounts :: "mount_point list"
  k_gdt :: gdt_state
  k_idt :: idt_state
  k_cr4 :: u64
  k_acpi :: acpi_state
  k_hpet :: "u64 option"
  k_timers :: apic_hw
  k_apic :: apic_state

record boot_env =
  tag_framebuffer :: "framebuffer_tag option"
  tag_memory_map :: "memmap_entry list option"
  tag_rsdp :: "u64 option"
  font_file :: "u8 list"
  gdt_address :: u64
  idt_address :: u64
  int3_handler :: u64
  invalid_opcode_handler :: u64
  tss_address :: u64
  slab_header_size :: usize
  boot_cpuid :: "u32 \<Rightarrow> u32 \<Rightarrow> cpuid_regs"

definition slab_view :: "kernel \<Rightarrow> slab_state" where
  "slab_view k = \<lparr>mem = mem k, page_allocator = page_allocator k, caches = k_caches k, cache_at = k_cache_at k, slab_at = k_slab_at k\<rparr>"

definition put_slab :: "slab_state \<Rightarrow> kernel \<Rightarrow> kernel" where
  "put_slab s k = k\<lparr>mem := mem s, page_allocator := page_allocator s,
     k_caches := caches s, k_cache_at := cache_at s, k_slab_at := slab_at s\<rparr>"

definition proc_view :: "kernel \<Rightarrow> proc_state" where
  "proc_view k = \<lparr>mem = mem k, page_allocator = page_allocator k, pid_bitmap = k_pid_bitmap k, tid_bitmap = k_tid_bitmap k\<rparr>"

definition put_proc :: "proc_state \<Rightarrow> kernel \<Rightarrow> kernel" where
  "put_proc s k = k\<lparr>mem := mem s, page_allocator := page_allocator s, k_pid_bitmap := pid_bitmap s, k_tid_bitmap := tid_bitmap s\<rparr>"

text \<open>The mount table beside the rest of the kernel, which the file systems change.\<close>

definition vfs_view :: "kernel \<Rightarrow> kernel vfs_state_scheme" where
  "vfs_view k = \<lparr>mount_points = k_mounts k, \<dots> = k\<rparr>"

definition put_vfs :: "kernel vfs_state_scheme \<Rightarrow> kernel" where
  "put_vfs s = (vfs_state.more s)\<lparr>k_mounts := mount_points s\<rparr>"

definition beside :: "(kernel \<Rightarrow> ('r \<times> kernel) res) \<Rightarrow> kernel vfs_state_scheme \<Rightarrow> ('r \<times> kernel vfs_state_scheme) res" where
  "beside f s = bnd (f (vfs_state.more s)) (\<lambda>(r, k). Inr (r, s\<lparr>vfs_state.more := k\<rparr>))"

text \<open>The one file system a reference can denote.\<close>

definition the_ops :: "bitflags_api \<Rightarrow> (nat \<Rightarrow> kernel \<Rightarrow> kernel) \<Rightarrow> ext2_filesystem \<Rightarrow> fs_ref \<Rightarrow> kernel vfs_state_scheme filesystem" where
  "the_ops fl hw fs r = (let ops = ext2_ops fl hw fs in
     \<lparr>fs_open = \<lambda>path flags mode. beside (fs_open ops path flags mode), fs_mkdir = \<lambda>path mode. beside (fs_mkdir ops path mode),
      fs_read = \<lambda>i b c off. beside (fs_read ops i b c off), fs_write = \<lambda>i b c off. beside (fs_write ops i b c off)\<rparr>)"

section \<open>Starting the kernel\<close>

text \<open>\<^verbatim>\<open>pmm::init\<close>, \<^verbatim>\<open>slab::init\<close>, the descriptor tables, \<^verbatim>\<open>vmm::init\<close>, \<^verbatim>\<open>cpu::start\<close>.\<close>

definition start_memory :: "boot_env \<Rightarrow> memmap_entry list \<Rightarrow> kernel \<Rightarrow> (tss \<times> kernel) res" where
  "start_memory env mmap_tag k =
     bnd (pmm_init mmap_tag k) (\<lambda>(_, k).
     bnd (slab_init (slab_header_size env) (slab_view k)) (\<lambda>s.
     let k = put_slab s k;
         k = k\<lparr>k_gdt := gdt_init (gdt_address env) (k_gdt k)\<rparr> in
     bnd (idt_init (int3_handler env) (invalid_opcode_handler env) (idt_address env) (k_idt k)) (\<lambda>i.
     let k = k\<lparr>k_idt := i\<rparr> in
     bnd (vmm_init k) (\<lambda>k.
     bnd (cpu_start (boot_cpuid env) (tss_address env) (k_cr4 k, k_gdt k) k) (\<lambda>(t, (cr4, g), k).
       Inr (t, k\<lparr>k_cr4 := cr4, k_gdt := g\<rparr>))))))"

text \<open>\<^verbatim>\<open>acpi::init\<close>, \<^verbatim>\<open>hpet::init\<close>, \<^verbatim>\<open>apic::init\<close>, \<^verbatim>\<open>pci::enumerate_devices\<close>.\<close>

definition start_devices :: "bitflags_api \<Rightarrow> u64 \<Rightarrow> kernel \<Rightarrow> kernel res" where
  "start_devices fl rsdp k =
     (let k = k\<lparr>k_acpi := acpi_init rsdp (k_acpi k)\<rparr> in
      bnd (hpet_init fl (k_acpi k) (k_timers k) k) (\<lambda>(a, d, k).
      let k = k\<lparr>k_hpet := Some a, k_timers := d\<rparr> in
      bnd (apic_init (k_timers k) (k_apic k)) (\<lambda>(d, a).
        enumerate_devices fl (k\<lparr>k_timers := d, k_apic := a\<rparr>))))"

text \<open>\<^verbatim>\<open>vfs::mount(ext2::get(), "/")\<close> and \<^verbatim>\<open>vfs::open(path, ..).unwrap()\<close>; \<^verbatim>\<open>vfs::read(fd.fs, fd.file_index, ..)\<close>.\<close>

definition mount_and_open ::
  "bitflags_api \<Rightarrow> (nat \<Rightarrow> kernel \<Rightarrow> kernel) \<Rightarrow> string \<Rightarrow> kernel \<Rightarrow> (file_description \<times> kernel) res" where
  "mount_and_open fl hw path k =
     bnd (ext2_get k) (\<lambda>fs.
     let k = put_vfs (snd (mount EXT2_FS_REF ''/'' (vfs_view k))) in
     bnd (vfs_open (the_ops fl hw fs) path 0 0 (vfs_view k)) (\<lambda>(r, s).
     bnd (unwrap r) (\<lambda>fd. Inr (fd, put_vfs s))))"

definition read_opened ::
  "bitflags_api \<Rightarrow> (nat \<Rightarrow> kernel \<Rightarrow> kernel) \<Rightarrow> file_description \<Rightarrow> u64 \<Rightarrow> usize \<Rightarrow> kernel \<Rightarrow> (usize \<times> kernel) res" where
  "read_opened fl hw fd buffer cnt k =
     bnd (the_fs k) (\<lambda>fs.
     bnd (vfs_read (the_ops fl hw fs) (fd_fs fd) (fd_file_index fd) buffer cnt (fd_offset fd) (vfs_view k)) (\<lambda>(n, s). Inr (n, put_vfs s)))"

text \<open>\<^verbatim>\<open>Vec::with_capacity(50)\<close> on the kernel heap.\<close>

definition new_content :: "boot_env \<Rightarrow> kernel \<Rightarrow> (u64 \<times> kernel) res" where
  "new_content env k = (case heap_alloc (slab_header_size env) 50 (slab_view k) of
     None \<Rightarrow> Inl Hangs | Some r \<Rightarrow> bnd r (\<lambda>(p, s). Inr (p, put_slab s k)))"

text \<open>\<^verbatim>\<open>core::str::from_utf8\<close> accepts these byte sequences.\<close>

definition continues :: "u8 \<Rightarrow> bool" where
  "continues b \<longleftrightarrow> 0x80 \<le> b \<and> b \<le> 0xbf"

fun is_utf8 :: "u8 list \<Rightarrow> bool" where
  "is_utf8 [] = True"
| "is_utf8 (a # bs) =
     (if a < 0x80 then is_utf8 bs
      else if 0xc2 \<le> a \<and> a \<le> 0xdf then (case bs of b # bs \<Rightarrow> continues b \<and> is_utf8 bs | _ \<Rightarrow> False)
      else if 0xe0 \<le> a \<and> a \<le> 0xef then (case bs of b # c # bs \<Rightarrow>
             continues b \<and> continues c \<and> (a = 0xe0 \<longrightarrow> 0xa0 \<le> b) \<and> (a = 0xed \<longrightarrow> b \<le> 0x9f) \<and> is_utf8 bs | _ \<Rightarrow> False)
      else if 0xf0 \<le> a \<and> a \<le> 0xf4 then (case bs of b # c # d # bs \<Rightarrow>
             continues b \<and> continues c \<and> continues d \<and> (a = 0xf0 \<longrightarrow> 0x90 \<le> b) \<and> (a = 0xf4 \<longrightarrow> b \<le> 0x8f) \<and> is_utf8 bs | _ \<Rightarrow> False)
      else False)"

text \<open>\<^verbatim>\<open>_start\<close>: the screen and the kernel when the machine is halted.\<close>

definition kernel_start ::
  "bitflags_api \<Rightarrow> (nat \<Rightarrow> kernel \<Rightarrow> kernel) \<Rightarrow> boot_env \<Rightarrow> frame \<Rightarrow> kernel \<Rightarrow> ((video \<times> frame) \<times> u8 list \<times> file_description process \<times> kernel) res" where
  "kernel_start fl hw env fr k =
     bnd (unwrap (tag_framebuffer env)) (\<lambda>framebuffer_tag.
     bnd (unwrap (tag_memory_map env)) (\<lambda>mmap_tag.
     bnd (unwrap (tag_rsdp env)) (\<lambda>rsdp_tag.
     bnd (video_new (font_file env) framebuffer_tag) (\<lambda>video.
     bnd (video_print (map of_char (''Hello, world, from Rust!'' @ [CHR 0x0a])) (video, fr)) (\<lambda>scr.
     bnd (video_print (map of_char ''Is everything fine?'') scr) (\<lambda>scr.
     bnd (start_memory env mmap_tag k) (\<lambda>(t, k).
     bnd (start_devices fl rsdp_tag k) (\<lambda>k.
     bnd (scan hw k) (\<lambda>(_, k).
     bnd (mount_and_open fl hw ''/home/limine.cfg'' k) (\<lambda>(fd, k).
     bnd (new_content env k) (\<lambda>(content, k).
     bnd (read_opened fl hw fd content 50 k) (\<lambda>(_, k).
     let bytes = load_bytes (mem k) (direct content) 50 in
     if \<not> is_utf8 bytes then Inl (Panicked ''called `Result::unwrap()` on an `Err` value'')
     else
       bnd (init_bitmaps (proc_view k)) (\<lambda>s.
       let k = put_proc s k in
         Inr (scr, bytes, process_new ''crap'' 0 None, k))))))))))))))"

section \<open>The memory after the start\<close>

lemma slab_view_frames [simp]: "free_frames (slab_view k) = free_frames k" "pmm_wf (slab_view k) = pmm_wf k"
  by (simp_all add: slab_view_def free_frames_def pmm_wf_def)

lemma put_slab_frames [simp]: "free_frames (put_slab s k) = free_frames s" "pmm_wf (put_slab s k) = pmm_wf s"
  by (simp_all add: put_slab_def free_frames_def pmm_wf_def)

lemma slab_view_put [simp]: "slab_view (put_slab s k) = s"
  by (simp add: slab_view_def put_slab_def)

lemma kernel_fields:
  fixes k k' :: kernel
  assumes "pmm_state.more k' = pmm_state.more k"
  shows "k_caches k' = k_caches k" "k_cache_at k' = k_cache_at k" "k_slab_at k' = k_slab_at k" "k_idt k' = k_idt k" "k_mounts k' = k_mounts k"
  using assms by (cases k, cases k', simp)+

lemma kernel_vmm_fields:
  fixes k k' :: kernel
  assumes "vmm_state.more k' = vmm_state.more k"
  shows "k_caches k' = k_caches k" "k_cache_at k' = k_cache_at k" "k_slab_at k' = k_slab_at k"
  using assms by (cases k, cases k', simp)+

text \<open>The heap stays sound while other components take frames.\<close>

lemma heap_ok_shrink:
  assumes "heap_ok s ks" and "pmm_wf s'" and "free_frames s' \<subseteq> free_frames s"
    and "caches s' = caches s" "cache_at s' = cache_at s" "slab_at s' = slab_at s"
  shows "heap_ok s' ks"
  using assms unfolding heap_ok_def heap_frames_def by fastforce

lemma cpu_start_region:
  assumes wf: "pmm_wf s" and fr: "free_frames s = {a..<b}" and "0 < a" "a + 6 \<le> b"
  shows "\<exists>t s'. cpu_start cpuid addr (cr4, g) s = Inr (t, (init_features cpuid cr4, load_tss addr g), s')
    \<and> rsp0 t = kptr a \<and> ist1 t = kptr (a + 2) \<and> ist2 t = kptr (a + 4)
    \<and> free_frames s' = {a + 6..<b} \<and> pmm_wf s' \<and> pmm_state.more s' = pmm_state.more s"
proof -
  obtain s1 where s1: "pmm_calloc 2 s = Inr (Some (frame_addr a), s1)" "free_frames s1 = {a + 2..<b}" "pmm_wf s1"
      "pmm_state.more s1 = pmm_state.more s"
    using calloc_region[OF wf fr, of 2] assms(3,4) by auto
  obtain s2 where s2: "pmm_calloc 2 s1 = Inr (Some (frame_addr (a + 2)), s2)" "free_frames s2 = {a + 4..<b}" "pmm_wf s2"
      "pmm_state.more s2 = pmm_state.more s1"
    using calloc_region[OF s1(3,2), of 2] assms(4) by (auto simp: add.assoc simp del: add_2_eq_Suc')
  obtain s3 where s3: "pmm_calloc 2 s2 = Inr (Some (frame_addr (a + 4)), s3)" "free_frames s3 = {a + 6..<b}" "pmm_wf s3"
      "pmm_state.more s3 = pmm_state.more s2"
    using calloc_region[OF s2(3,2), of 2] assms(4) by (auto simp: add.assoc simp del: add_2_eq_Suc')
  show ?thesis using s1 s2 s3 by (simp add: cpu_start_def Let_def kptr_def)
qed

lemma idt_init_total:
  assumes "7 \<le> length (idt i)"
  shows "\<exists>i'. idt_init h3 h6 addr i = Inr i'"
  using assms by (simp add: idt_init_def register_isr_def Let_def)

lemma vmm_init_frames:
  "\<exists>s'. vmm_init s = Inr s' \<and> kernel_vmm s' = Some \<lparr>pagemap = PhysAddr (cr3 s), ranges = []\<rparr> \<and> free_frames s' = free_frames s
    \<and> pmm_wf s' = pmm_wf s \<and> vmm_state.more s' = vmm_state.more s"
  by (simp add: vmm_init_def vmm_new_def free_frames_def pmm_wf_def)

lemma start_memory_ok:
  fixes k :: kernel
  assumes "memmap_ok m" and "bitmap_home m = Some e" and "\<Union> (entry_frames ` set (init_rest m)) = {a..<b}" and "0 < a" "a + 547 \<le> b"
    and "k_caches k = 0" "k_cache_at k = Map.empty" "k_slab_at k = Map.empty" and "length (idt (k_idt k)) = 256"
    and "0 < slab_header_size env" "slab_header_size env \<le> 2048"
  shows "\<exists>t k' ks. start_memory env m k = Inr (t, k') \<and> heap_ok (slab_view k') ks
    \<and> map object_size ks = [8, 16, 32, 64, 128, 256, 512, 1024, 2048, 4096]
    \<and> kernel_vmm k' = Some \<lparr>pagemap = PhysAddr (cr3 k), ranges = []\<rparr>
    \<and> rsp0 t = kptr (a + 541) \<and> ist1 t = kptr (a + 543) \<and> ist2 t = kptr (a + 545)
    \<and> pmm_wf k' \<and> free_frames k' = {a + 547..<b} \<and> (\<forall>c \<in> set ks. cache_fresh (k_slab_at k') c)"
proof -
  from pmm_init_cases[OF assms(1), of k] assms(2,3) obtain k1 where k1: "pmm_init m k = Inr (init_rest m, k1)" "pmm_wf k1"
      "free_frames k1 = {a..<b}" "pmm_state.more k1 = pmm_state.more k" by auto
  have same: "k_caches k1 = k_caches k" "k_cache_at k1 = k_cache_at k" "k_slab_at k1 = k_slab_at k" "k_idt k1 = k_idt k" "cr3 k1 = cr3 k"
    using kernel_fields[OF k1(4)] vmm_more_fields(2)[OF k1(4)] by simp_all
  have "caches (slab_view k1) = 0" "cache_at (slab_view k1) = Map.empty" "slab_at (slab_view k1) = Map.empty"
    using assms(6-8) same by (simp_all add: slab_view_def)
  from slab_init_region[of "slab_view k1" a b "slab_header_size env", OF _ this] k1(2,3) assms(4,5,10,11) obtain s ks where
    s: "slab_init (slab_header_size env) (slab_view k1) = Inr s" "heap_ok s ks"
      "map object_size ks = [8, 16, 32, 64, 128, 256, 512, 1024, 2048, 4096]" "free_frames s = {a + 541..<b}" "\<forall>c \<in> set ks. cache_fresh (slab_at s) c" by auto
  let ?k = "put_slab s k1"
  have k2: "idt (k_idt ?k) = idt (k_idt k)" "cr3 ?k = cr3 k" using same by (simp_all add: put_slab_def)
  from idt_init_total[of "k_idt ?k" "int3_handler env" "invalid_opcode_handler env" "idt_address env"] k2(1) assms(9)
  obtain i where i: "idt_init (int3_handler env) (invalid_opcode_handler env) (idt_address env) (k_idt ?k) = Inr i" by auto
  let ?k3 = "?k\<lparr>k_gdt := gdt_init (gdt_address env) (k_gdt ?k), k_idt := i\<rparr>"
  have k3: "pmm_wf ?k3" "free_frames ?k3 = {a + 541..<b}" "cr3 ?k3 = cr3 k" "slab_view ?k3 = s"
    using s(2,4) k2(2) slab_view_put[of s k1] by (simp_all add: heap_ok_def pmm_wf_def free_frames_def put_slab_def slab_view_def)
  from vmm_init_frames[of ?k3] k3 obtain k4 where k4: "vmm_init ?k3 = Inr k4" "pmm_wf k4" "free_frames k4 = {a + 541..<b}"
      "kernel_vmm k4 = Some \<lparr>pagemap = PhysAddr (cr3 k), ranges = []\<rparr>" "vmm_state.more k4 = vmm_state.more ?k3" by auto
  have f: "0 < a + 541" "a + 541 + 6 \<le> b" using assms(4,5) by simp_all
  have sums: "a + 541 + 2 = a + 543" "a + 541 + 4 = a + 545" "a + 541 + 6 = a + 547" by simp_all
  from cpu_start_region[OF k4(2,3) f, of "boot_cpuid env" "tss_address env" "k_cr4 k4" "k_gdt k4", unfolded sums] obtain t k5 where
    k5: "cpu_start (boot_cpuid env) (tss_address env) (k_cr4 k4, k_gdt k4) k4
        = Inr (t, (init_features (boot_cpuid env) (k_cr4 k4), load_tss (tss_address env) (k_gdt k4)), k5)"
      "rsp0 t = kptr (a + 541)" "ist1 t = kptr (a + 543)" "ist2 t = kptr (a + 545)" "free_frames k5 = {a + 547..<b}" "pmm_wf k5"
      "pmm_state.more k5 = pmm_state.more k4" by blast
  let ?k' = "k5\<lparr>k_cr4 := init_features (boot_cpuid env) (k_cr4 k4), k_gdt := load_tss (tss_address env) (k_gdt k4)\<rparr>"
  have run: "start_memory env m k = Inr (t, ?k')"
    using k1(1) s(1) i k4(1) k5(1) by (simp add: start_memory_def Let_def put_slab_def)
  have h: "k_caches k5 = caches s" "k_cache_at k5 = cache_at s" "k_slab_at k5 = slab_at s" "kernel_vmm k5 = kernel_vmm k4"
    using kernel_fields(1-3)[OF k5(7)] kernel_vmm_fields[OF k4(5)] vmm_more_fields(1)[OF k5(7)] by (simp_all add: put_slab_def)
  have "heap_ok (slab_view ?k') ks"
    by (rule heap_ok_shrink[OF s(2)]) (use k5(5,6) s(4) h in \<open>auto simp: slab_view_def free_frames_def pmm_wf_def\<close>)
  moreover have "pmm_wf ?k'" "free_frames ?k' = {a + 547..<b}" using k5(5,6) by (simp_all add: pmm_wf_def free_frames_def)
  moreover have "\<forall>c \<in> set ks. cache_fresh (k_slab_at ?k') c" using s(5) h(3) by simp
  ultimately show ?thesis using run s(3) k4(4) h(4) k5(2-4) by (intro exI[of _ t] exI[of _ ?k'] exI[of _ ks] conjI) simp_all
qed


text \<open>A machine before the start, and a memory map with 768 usable pages.\<close>

definition cold_kernel :: "(nat \<Rightarrow> u8) \<Rightarrow> ext2_filesystem option \<Rightarrow> kernel" where
  "cold_kernel d f = ext2_state.extend (sample_machine d (ext2_state.fields f (replicate 1024 None)))
     (kernel.fields 0 Map.empty Map.empty None None []
       \<lparr>the_gdt = gdt_boot, gdt_desc_limit = 55, gdt_desc_offset = 0, gdtr = None, data_segs = 0, code_seg = 0, task_reg = 0\<rparr> idt_boot 0 acpi_boot None
       \<lparr>general_capabilities = 0, hm_unused0 = 0, general_config = 0, hm_unused1 = 0, hm_interrupt_status = 0, hm_unused2 = [], main_counter_value = 0,
         lapic_cell = \<lambda>_. 0\<rparr>
       \<lparr>LAPIC = None, msr_halves = \<lambda>_. (0xfee00900, 0), interrupts_on = False, port_writes = []\<rparr>)"

lemma cold_kernel_fields [simp]:
  "k_caches (cold_kernel d f) = 0" "k_cache_at (cold_kernel d f) = Map.empty" "k_slab_at (cold_kernel d f) = Map.empty"
  "k_mounts (cold_kernel d f) = []" "k_idt (cold_kernel d f) = idt_boot" "cr3 (cold_kernel d f) = 0" "ext2_fs (cold_kernel d f) = f"
  "inode_table (cold_kernel d f) = replicate 1024 None" "disk (cold_kernel d f) = (\<lambda>_. d)"
  by (simp_all add: cold_kernel_def ext2_state.defs kernel.defs sample_machine_def)

definition sample_memory_map :: "memmap_entry list" where
  "sample_memory_map = [\<lparr>base = 0x1000, length_field = 0x300000, entry_type = Usable\<rparr>]"

definition sample_env :: boot_env where
  "sample_env = \<lparr>tag_framebuffer = None, tag_memory_map = Some sample_memory_map, tag_rsdp = None, font_file = [], gdt_address = 0, idt_address = 0,
     int3_handler = 0, invalid_opcode_handler = 0, tss_address = 0x5000, slab_header_size = 80,
     boot_cpuid = \<lambda>a c. \<lparr>eax = 0, ebx = 0, ecx = 0, edx = 0\<rparr>\<rparr>"

lemma sample_memory_map_facts:
  "memmap_ok sample_memory_map" "bitmap_home sample_memory_map = Some \<lparr>base = 0x1000, length_field = 0x300000, entry_type = Usable\<rparr>"
  "\<Union> (entry_frames ` set (init_rest sample_memory_map)) = {1..<768}"
proof -
  show "memmap_ok sample_memory_map" by (simp add: sample_memory_map_def memmap_ok_def)
  have k: "bitmap_bytes sample_memory_map = 97"
    by (simp add: bitmap_bytes_def sample_memory_map_def memmap_top_Cons ceil_div_def)
  show "bitmap_home sample_memory_map = Some \<lparr>base = 0x1000, length_field = 0x300000, entry_type = Usable\<rparr>"
    unfolding bitmap_home_def k by (simp add: sample_memory_map_def holds_bitmap_def)
  show "\<Union> (entry_frames ` set (init_rest sample_memory_map)) = {1..<768}"
    unfolding init_rest_def k by (simp add: sample_memory_map_def holds_bitmap_def shrink_def entry_frames_def)
qed


section \<open>Reading a file\<close>

lemma vfs_views [simp]:
  "vfs_state.more (vfs_view k) = k" "mount_points (vfs_view k) = k_mounts k" "put_vfs (vfs_view k) = k"
  "put_vfs (vfs_view k\<lparr>vfs_state.more := k'\<rparr>) = k'\<lparr>k_mounts := k_mounts k\<rparr>"
  by (simp_all add: vfs_view_def put_vfs_def)

lemma mounted_mounts [simp]:
  "mounted hw p fs (k\<lparr>k_mounts := x\<rparr>) = mounted hw p fs k"
  by (simp add: mounted_def disk_ready_def device_ready_def port_ready_def free_frames_def pmm_wf_def)

lemma mount_root:
  assumes "k_mounts k = []"
  shows "put_vfs (snd (mount EXT2_FS_REF ''/'' (vfs_view k))) = k\<lparr>k_mounts := [\<lparr>mp_name = ''/'', mp_fs = Some EXT2_FS_REF\<rparr>]\<rparr>"
  using assms by (simp add: mount_def first_char_is_def mount_point_new_def put_vfs_def vfs_view_def)

lemma open_on_root:
  assumes "k_mounts k = [\<lparr>mp_name = ''/'', mp_fs = Some r\<rparr>]" and "char_boundary (CHR ''/'' # rest) 1"
  shows "vfs_open ops (CHR ''/'' # rest) flags mode (vfs_view k) = fs_open (ops r) rest flags mode (vfs_view k)"
  using assms by (simp add: vfs_open_def get_mount_point_def first_char_is_def str_starts_with_def unwrap_def str_from_def)

lemma fragments_free_slot: "free_slot (k\<lparr>k_mounts := x\<rparr>) = free_slot k" "free_frames (k\<lparr>k_mounts := x\<rparr>) = free_frames k"
  for k :: kernel
  by (simp_all add: free_slot_def free_frames_def)

definition root_mounts :: "mount_point list" where
  "root_mounts = [\<lparr>mp_name = ''/'', mp_fs = Some EXT2_FS_REF\<rparr>]"

lemma mount_and_open_ok:
  assumes m: "mounted hw p fs k" and "k_mounts k = []" and "char_boundary (CHR ''/'' # rest) 1"
    and "path_to (disk k p) fs (disk_inode (disk k p) fs ROOT_DIR_INODE) (split_at (CHR ''/'') rest) n"
    and "2 \<le> card (free_frames k)" and "free_slot k = Some i"
  shows "\<exists>t. mount_and_open fl hw (CHR ''/'' # rest) k
        = Inr (file_description_new i 0 EXT2_FS_REF, t\<lparr>inode_table := (inode_table k)[i := Some n], k_mounts := root_mounts\<rparr>)
    \<and> reads_only hw p fs (k\<lparr>k_mounts := root_mounts\<rparr>) t"
proof -
  let ?k = "k\<lparr>k_mounts := root_mounts\<rparr>"
  let ?fd = "file_description_new i 0 EXT2_FS_REF"
  have m': "mounted hw p fs ?k" "2 \<le> card (free_frames ?k)" "free_slot ?k = Some i" using assms(1,5,6) by (simp_all add: fragments_free_slot)
  have path: "path_to (disk ?k p) fs (disk_inode (disk ?k p) fs ROOT_DIR_INODE) (split_at (CHR ''/'') rest) n" using assms(4) by simp
  from ext2_open_ok[OF m' path, of fl 0 0] obtain t where
    t: "ext2_open fl hw fs rest 0 0 ?k = Inr (Some ?fd, t\<lparr>inode_table := (inode_table k)[i := Some n]\<rparr>)" "reads_only hw p fs ?k t" by (auto simp: opened_def)
  have "ext2_get k = Inr fs" using the_fs_mounted[OF m] by (simp add: ext2_get_def)
  moreover have "vfs_open (the_ops fl hw fs) (CHR ''/'' # rest) 0 0 (vfs_view ?k)
      = Inr (Some ?fd, vfs_view ?k\<lparr>vfs_state.more := t\<lparr>inode_table := (inode_table k)[i := Some n]\<rparr>\<rparr>)"
    using open_on_root[of ?k EXT2_FS_REF rest] assms(3) t(1) by (simp add: the_ops_def ext2_ops_def Let_def beside_def root_mounts_def)
  ultimately have "mount_and_open fl hw (CHR ''/'' # rest) k = Inr (?fd, t\<lparr>inode_table := (inode_table k)[i := Some n], k_mounts := root_mounts\<rparr>)"
    using mount_root[OF assms(2)] by (simp add: mount_and_open_def unwrap_def Let_def root_mounts_def)
  then show ?thesis using t(2) by blast
qed

lemma mounted_table [simp]: "mounted hw p fs (t\<lparr>inode_table := x\<rparr>) = mounted hw p fs t"
  by (simp add: mounted_def disk_ready_def device_ready_def port_ready_def free_frames_def pmm_wf_def)

lemma read_opened_ok:
  assumes "mounted hw p fs k" and "i < length (inode_table k)" "inode_table k ! i = Some n" and "inode_wf n" and "0 < cnt" "cnt \<le> block_size fs"
  shows "\<exists>t. read_opened fl hw (file_description_new i 0 EXT2_FS_REF) buffer cnt k = Inr (cnt, t\<lparr>k_mounts := k_mounts k\<rparr>) \<and> reading hw p fs buffer cnt k t
    \<and> load_bytes (mem t) (direct buffer) cnt = file_block (disk k p) fs n 0 cnt"
proof -
  from read_one_block[OF assms(1,4-6), of buffer] obtain t where t: "inode_read hw n 0 cnt buffer k = Inr (Inr cnt, t)"
    "reading hw p fs buffer cnt k t" "load_bytes (mem t) (direct buffer) cnt = file_block (disk k p) fs n 0 cnt" by blast
  have "ext2_read hw i buffer cnt 0 k = Inr (cnt, t)" using assms(2,3) t(1) by (simp add: ext2_read_def unwrap_ok_def)
  then have "read_opened fl hw (file_description_new i 0 EXT2_FS_REF) buffer cnt k = Inr (cnt, t\<lparr>k_mounts := k_mounts k\<rparr>)"
    by (simp add: read_opened_def the_fs_mounted[OF assms(1)] vfs_read_def the_ops_def ext2_ops_def Let_def beside_def file_description_new_def)
  then show ?thesis using t(2,3) by blast
qed

lemma slot_length: "free_slot k = Some i \<Longrightarrow> i < length (inode_table k)"
  by (auto simp: free_slot_def find_upt_Some)

lemma path_inode_wf: "path_to c fs d ws n \<Longrightarrow> inode_wf n"
  by (metis path_inode disk_inode_wf)

text \<open>
  C5. The kernel reads its first file: with the ext2 file system found on the disk, an empty mount table and a path that leads to an inode,
  mounting at the root and opening the path end without a panic and return a descriptor at offset 0; and reading at most
  one block through that descriptor, from any later state in which the disk and the table of open files are the same, puts the first bytes of
  exactly that file into the buffer. Neither step changes the disk.
\<close>

theorem mount_open_read:
  assumes "mounted hw p fs k" and "k_mounts k = []" and "char_boundary (CHR ''/'' # rest) 1"
    and "path_to (disk k p) fs (disk_inode (disk k p) fs ROOT_DIR_INODE) (split_at (CHR ''/'') rest) n"
    and "2 \<le> card (free_frames k)" and "free_slot k = Some i" and "0 < cnt" "cnt \<le> block_size fs"
  shows "\<exists>fd k1. mount_and_open fl hw (CHR ''/'' # rest) k = Inr (fd, k1) \<and> mounted hw p fs k1 \<and> disk k1 = disk k \<and> fd_offset fd = 0
    \<and> (\<forall>buffer k2. mounted hw p fs k2 \<and> disk k2 = disk k \<and> inode_table k2 = inode_table k1 \<longrightarrow>
        (\<exists>k3. read_opened fl hw fd buffer cnt k2 = Inr (cnt, k3) \<and> disk k3 = disk k
           \<and> load_bytes (mem k3) (direct buffer) cnt = file_block (disk k p) fs n 0 cnt))"
proof -
  let ?fd = "file_description_new i 0 EXT2_FS_REF"
  from mount_and_open_ok[OF assms(1-6), of fl] obtain t where
    t: "mount_and_open fl hw (CHR ''/'' # rest) k = Inr (?fd, t\<lparr>inode_table := (inode_table k)[i := Some n], k_mounts := root_mounts\<rparr>)"
      "reads_only hw p fs (k\<lparr>k_mounts := root_mounts\<rparr>) t" by blast
  let ?k1 = "t\<lparr>inode_table := (inode_table k)[i := Some n], k_mounts := root_mounts\<rparr>"
  have "\<exists>k3. read_opened fl hw ?fd buffer cnt k2 = Inr (cnt, k3) \<and> disk k3 = disk k
      \<and> load_bytes (mem k3) (direct buffer) cnt = file_block (disk k p) fs n 0 cnt"
    if k2: "mounted hw p fs k2" "disk k2 = disk k" "inode_table k2 = inode_table ?k1" for buffer k2
  proof -
    have "i < length (inode_table k2)" "inode_table k2 ! i = Some n" using k2(3) slot_length[OF assms(6)] by simp_all
    from read_opened_ok[OF k2(1) this path_inode_wf[OF assms(4)] assms(7,8), of fl buffer] k2(2) show ?thesis by (auto simp: reading_def)
  qed
  moreover have "mounted hw p fs ?k1" "disk ?k1 = disk k" using t(2) by (simp_all add: reads_only_def)
  ultimately show ?thesis using t(1) by (intro exI[of _ ?fd] exI[of _ ?k1] conjI) (auto simp: file_description_new_def)
qed

lemma cold_kernel_mounted: "mounted prompt_hba 0 sample_fs (cold_kernel d (Some sample_fs))"
proof -
  have same: "mem (cold_kernel d f) = mem (sample_ext2 d)" "page_allocator (cold_kernel d f) = page_allocator (sample_ext2 d)"
    "ports (cold_kernel d f) = ports (sample_ext2 d)" "headers (cold_kernel d f) = headers (sample_ext2 d)"
    "ahci_devices (cold_kernel d f) = ahci_devices (sample_ext2 d)" for f
    by (simp_all add: cold_kernel_def sample_ext2_def ext2_state.defs kernel.defs sample_machine_def)
  then show ?thesis using sample_ext2_mounted[of d] prompt_hba_serves
    by (simp add: mounted_def disk_ready_def device_ready_def port_ready_def free_frames_def pmm_wf_def)
qed

theorem mount_open_read_witness:
  "\<exists>fd k1 k3. mount_and_open bitflags_ref prompt_hba ''/a'' (cold_kernel sample_tree (Some sample_fs)) = Inr (fd, k1)
     \<and> read_opened bitflags_ref prompt_hba fd 0x4000 50 k1 = Inr (50, k3)
     \<and> load_bytes (mem k3) (direct 0x4000) 50 = file_block sample_tree sample_fs (disk_inode sample_tree sample_fs 3) 0 50"
proof -
  let ?k = "cold_kernel sample_tree (Some sample_fs)"
  have slot: "free_slot ?k = Some 0" unfolding free_slot_def cold_kernel_fields find_upt_Some by simp
  have "free_frames ?k = {8..<16}"
    by (simp add: cold_kernel_def free_frames_def ext2_state.defs kernel.defs sample_machine_def upper_ones)
  then have c: "2 \<le> card (free_frames ?k)" by simp
  have "find_entry ''a'' [(3, [97])] = Some 3" by (simp add: find_entry_def as_bytes_def)
  then have "path_to sample_tree sample_fs (disk_inode sample_tree sample_fs 2) [''a''] (disk_inode sample_tree sample_fs 3)"
    by (intro path_last[OF _ sample_dir_ok]) simp_all
  then have path: "path_to (disk ?k 0) sample_fs (disk_inode (disk ?k 0) sample_fs ROOT_DIR_INODE) (split_at (CHR ''/'') ''a'')
      (disk_inode sample_tree sample_fs 3)" by (simp add: ROOT_DIR_INODE_def)
  have b: "char_boundary ''/a'' 1" by (simp add: char_boundary_def)
  from mount_open_read[OF cold_kernel_mounted cold_kernel_fields(4) b path c slot, of 50 bitflags_ref] obtain fd k1 where
    k1: "mount_and_open bitflags_ref prompt_hba ''/a'' ?k = Inr (fd, k1)" "mounted prompt_hba 0 sample_fs k1" "disk k1 = disk ?k"
      "\<forall>buffer k2. mounted prompt_hba 0 sample_fs k2 \<and> disk k2 = disk ?k \<and> inode_table k2 = inode_table k1 \<longrightarrow>
        (\<exists>k3. read_opened bitflags_ref prompt_hba fd buffer 50 k2 = Inr (50, k3) \<and> disk k3 = disk ?k
           \<and> load_bytes (mem k3) (direct buffer) 50 = file_block (disk ?k 0) sample_fs (disk_inode sample_tree sample_fs 3) 0 50)" by auto
  from k1(4)[rule_format, of k1 "0x4000"] k1(1-3) show ?thesis by auto
qed

end
