(* ===== verification/Pci_Bus.thy ===== *)
theory Pci_Bus
  imports Pci
begin

text \<open>
  What the bus code of \<^verbatim>\<open>arch/x86_64/pci.rs\<close> does: configuration registers do not share addresses, the walk through a capability list finds its first MSI
  capability and ends unless the list is a cycle without one, the enumeration records exactly the functions that answer, and \<^verbatim>\<open>set_msi\<close> programs
  the capability it found.
\<close>

section \<open>Configuration addresses\<close>

lemma config_masks:
  "bit (0x80000000 :: u32) i \<longleftrightarrow> i = 31" "bit (0x1f :: u32) i \<longleftrightarrow> i < 5" "bit (0x7 :: u32) i \<longleftrightarrow> i < 3"
  "bit (0xfc :: u32) i \<longleftrightarrow> 2 \<le> i \<and> i < 8" "bit (0xfc :: u8) i \<longleftrightarrow> 2 \<le> i \<and> i < 8"
proof -
  have e: "(0x80000000 :: u32) = push_bit 31 1" "(0x1f :: u32) = mask 5" "(0x7 :: u32) = mask 3" "(0xfc :: u32) = push_bit 2 (mask 6)"
    "(0xfc :: u8) = push_bit 2 (mask 6)"
    by (simp_all add: mask_eq_exp_minus_1)
  show "bit (0x80000000 :: u32) i \<longleftrightarrow> i = 31" "bit (0x1f :: u32) i \<longleftrightarrow> i < 5" "bit (0x7 :: u32) i \<longleftrightarrow> i < 3"
    "bit (0xfc :: u32) i \<longleftrightarrow> 2 \<le> i \<and> i < 8" "bit (0xfc :: u8) i \<longleftrightarrow> 2 \<le> i \<and> i < 8"
    unfolding e by (auto simp: bit_push_bit_iff bit_mask_iff bit_1_iff simp del: push_bit_of_1)
qed

lemma config_address_bits:
  "bit (config_address bus device fn offset) i \<longleftrightarrow>
     i = 31 \<or> (16 \<le> i \<and> i < 24 \<and> bit bus (i - 16)) \<or> (11 \<le> i \<and> i < 16 \<and> bit device (i - 11))
     \<or> (8 \<le> i \<and> i < 11 \<and> bit fn (i - 8)) \<or> (2 \<le> i \<and> i < 8 \<and> bit offset i)"
proof -
  have b: "bit x j \<Longrightarrow> j < 8" for x :: u8 and j using bit_imp_le_length[of x j] by simp
  have shifted: "bit (push_bit k (ucast x AND m :: u32)) i \<longleftrightarrow> k \<le> i \<and> i < 32 \<and> bit x (i - k) \<and> bit m (i - k)" for k and x :: u8 and m
    by (auto simp: bit_push_bit_iff bit_and_iff bit_unsigned_iff dest: b)
  have "bit (push_bit 16 (ucast bus :: u32)) i \<longleftrightarrow> 16 \<le> i \<and> i < 24 \<and> bit bus (i - 16)"
    using b[of bus "i - 16"] by (auto simp: bit_push_bit_iff bit_unsigned_iff)
  moreover have "bit (push_bit 11 (ucast device AND 0x1f :: u32)) i \<longleftrightarrow> 11 \<le> i \<and> i < 16 \<and> bit device (i - 11)"
    unfolding shifted config_masks by auto
  moreover have "bit (push_bit 8 (ucast fn AND 0x7 :: u32)) i \<longleftrightarrow> 8 \<le> i \<and> i < 11 \<and> bit fn (i - 8)"
    unfolding shifted config_masks by auto
  moreover have "bit (ucast offset AND 0xfc :: u32) i \<longleftrightarrow> 2 \<le> i \<and> i < 8 \<and> bit offset i"
    unfolding bit_and_iff config_masks by (auto simp: bit_unsigned_iff)
  ultimately show ?thesis unfolding config_address_def bit_or_iff config_masks by blast
qed

text \<open>Two functions of the bus, or two registers of one function, never share a configuration address.\<close>

lemma config_address_inject:
  assumes "device < 32" "device' < 32" "fn < 8" "fn' < 8"
  shows "config_address bus device fn offset = config_address bus' device' fn' offset'
    \<longleftrightarrow> bus = bus' \<and> device = device' \<and> fn = fn' \<and> offset AND 0xfc = offset' AND 0xfc"
    (is "?a = ?b \<longleftrightarrow> ?r")
proof
  assume "?a = ?b"
  then have e: "bit ?a i = bit ?b i" for i by simp
  have "bit bus i = bit bus' i" if "i < 8" for i using e[of "i + 16"] that by (simp add: config_address_bits)
  moreover have "bit device i = bit device' i" for i
    using e[of "i + 11"] small_bits[of device i 5] small_bits[of device' i 5] assms(1,2)[unfolded word_less_nat_alt] by (cases "i < 5") (auto simp: config_address_bits)
  moreover have "bit fn i = bit fn' i" for i
    using e[of "i + 8"] small_bits[of fn i 3] small_bits[of fn' i 3] assms(3,4)[unfolded word_less_nat_alt] by (cases "i < 3") (auto simp: config_address_bits)
  moreover have "bit offset i = bit offset' i" if "2 \<le> i" "i < 8" for i using e[of i] that by (simp add: config_address_bits)
  ultimately show ?r by (auto intro!: bit_word_eqI simp: bit_and_iff config_masks simp del: bit_numeral_word_iff)
next
  assume r: ?r
  then have "bit (offset AND 0xfc) i = bit (offset' AND 0xfc) i" for i by simp
  then have "bit offset i = bit offset' i" if "2 \<le> i" "i < 8" for i using that by (auto simp: bit_and_iff config_masks simp del: bit_numeral_word_iff)
  then show "?a = ?b" using r by (intro bit_word_eqI) (auto simp: config_address_bits)
qed


lemma pci_read_write:
  assumes "device < 32" "device' < 32" "fn < 8" "fn' < 8"
  shows "pci_read bus device fn offset (pci_write data bus' device' fn' offset' s) =
    (if bus = bus' \<and> device = device' \<and> fn = fn' \<and> offset AND 0xfc = offset' AND 0xfc then data else pci_read bus device fn offset s)"
  using config_address_inject[OF assms] by (simp add: pci_read_def pci_write_def)

section \<open>Capabilities\<close>

definition cap_id :: "pci_device \<Rightarrow> ('fd, 'z) pci_state_scheme \<Rightarrow> u8 \<Rightarrow> u8" where
  "cap_id d s x = ucast (device_read d x s)"

definition cap_next :: "pci_device \<Rightarrow> ('fd, 'z) pci_state_scheme \<Rightarrow> u8 \<Rightarrow> u8" where
  "cap_next d s x = ucast (drop_bit 8 (device_read d x s))"

text \<open>The capability at position \<open>k\<close> of the list, and where a walk stops: at the end of the list or at an MSI capability.\<close>

definition cap_at :: "pci_device \<Rightarrow> ('fd, 'z) pci_state_scheme \<Rightarrow> u8 \<Rightarrow> nat \<Rightarrow> u8" where
  "cap_at d s x k = (cap_next d s ^^ k) x"

definition cap_stop :: "pci_device \<Rightarrow> ('fd, 'z) pci_state_scheme \<Rightarrow> u8 \<Rightarrow> bool" where
  "cap_stop d s x \<longleftrightarrow> x = 0 \<or> cap_id d s x = MSI_CAPABILITY_ID"

lemma find_msi_unfold: "find_msi d s x = (if cap_stop d s x then Some x else find_msi d s (cap_next d s x))"
  by (subst find_msi.simps) (auto simp: cap_stop_def cap_id_def cap_next_def Let_def)

lemma cap_at_Suc: "cap_at d s x (Suc k) = cap_at d s (cap_next d s x) k"
  by (simp add: cap_at_def funpow_swap1)

lemma cap_at_0 [simp]: "cap_at d s x 0 = x"
  by (simp add: cap_at_def)

lemma find_msi_ends:
  "cap_stop d s (cap_at d s x k) \<Longrightarrow> (\<forall>j<k. \<not> cap_stop d s (cap_at d s x j)) \<Longrightarrow> find_msi d s x = Some (cap_at d s x k)"
proof (induction k arbitrary: x)
  case (Suc k)
  from Suc.prems have "\<not> cap_stop d s x" using cap_at_0 by (metis zero_less_Suc)
  moreover have "find_msi d s (cap_next d s x) = Some (cap_at d s x (Suc k))"
    using Suc.IH[of "cap_next d s x"] Suc.prems by (metis Suc_mono cap_at_Suc)
  ultimately show ?case by (simp add: find_msi_unfold[of d s x])
qed (simp add: find_msi_unfold)

lemma find_msi_hangs:
  assumes "\<forall>k. \<not> cap_stop d s (cap_at d s x k)"
  shows "find_msi d s x = None"
proof (rule ccontr)
  assume "find_msi d s x \<noteq> None"
  then obtain y where y: "find_msi d s x = Some y" by blast
  have "\<exists>k. cap_stop d s (cap_at d s x k)"
  proof (rule find_msi.raw_induct[OF _ y, where P = "\<lambda>d s x y. \<exists>k. cap_stop d s (cap_at d s x k)"])
    fix find_msi :: "pci_device \<Rightarrow> ('a, 'b) pci_state_scheme \<Rightarrow> u8 \<Rightarrow> u8 option" and d s x y
    assume IH: "\<And>d s x y. find_msi d s x = Some y \<Longrightarrow> \<exists>k. cap_stop d s (cap_at d s x k)"
      and y: "(if x \<noteq> 0 then let capability = device_read d x s in
           if (ucast capability :: u8) = MSI_CAPABILITY_ID then Some x
           else find_msi d s (ucast (drop_bit 8 capability)) else Some 0) = Some y"
    show "\<exists>k. cap_stop d s (cap_at d s x k)"
    proof (cases "cap_stop d s x")
      case True
      then show ?thesis by (intro exI[of _ 0]) simp
    next
      case False
      then have "find_msi d s (cap_next d s x) = Some y"
        using y by (auto simp: cap_stop_def cap_id_def cap_next_def Let_def)
      from IH[OF this] show ?thesis by (metis cap_at_Suc)
    qed
  qed
  then show False using assms by blast
qed

text \<open>The first stop of the walk; a list that never stops is a cycle.\<close>

definition walk_ends :: "pci_device \<Rightarrow> ('fd, 'z) pci_state_scheme \<Rightarrow> u8 \<Rightarrow> bool" where
  "walk_ends d s x \<longleftrightarrow> (\<exists>k. cap_stop d s (cap_at d s x k))"

definition first_stop :: "pci_device \<Rightarrow> ('fd, 'z) pci_state_scheme \<Rightarrow> u8 \<Rightarrow> u8" where
  "first_stop d s x = cap_at d s x (LEAST k. cap_stop d s (cap_at d s x k))"

lemma find_msi_eq: "find_msi d s x = (if walk_ends d s x then Some (first_stop d s x) else None)"
proof (cases "walk_ends d s x")
  case True
  then have "cap_stop d s (cap_at d s x (LEAST k. cap_stop d s (cap_at d s x k)))"
    unfolding walk_ends_def by (metis (mono_tags, lifting) LeastI)
  moreover have "\<forall>j<(LEAST k. cap_stop d s (cap_at d s x k)). \<not> cap_stop d s (cap_at d s x j)" using not_less_Least by blast
  ultimately show ?thesis using True find_msi_ends unfolding first_stop_def by fastforce
qed (simp add: find_msi_hangs walk_ends_def)


section \<open>Enumeration\<close>

definition bus_places :: "(u8 \<times> u8 \<times> u8) list" where
  "bus_places = concat (map (\<lambda>b. concat (map (\<lambda>d. map (\<lambda>f. (of_nat b, of_nat d, of_nat f)) [0..<8]) [0..<32])) [0..<256])"

lemma bus_places_mem: "x \<in> set bus_places \<longleftrightarrow> (\<exists>b<256. \<exists>d<32. \<exists>f<8. x = (of_nat b, of_nat d, of_nat f))"
proof -
  have "set bus_places = (\<Union>b\<in>{..<256}. \<Union>d\<in>{..<32}. (\<lambda>f. (of_nat b, of_nat d, of_nat f)) ` {..<8})"
    by (simp add: bus_places_def atLeast0LessThan)
  then show ?thesis by blast
qed

definition answers :: "('fd, 'z) pci_state_scheme \<Rightarrow> u8 \<times> u8 \<times> u8 \<Rightarrow> bool" where
  "answers s = (\<lambda>(b, d, f). pci_read b d f 0 s \<noteq> - 1)"

text \<open>What the registers of a function say of it; its capability list starts at register \<open>0x34\<close>.\<close>

definition identity_at :: "('fd, 'z) pci_state_scheme \<Rightarrow> u8 \<times> u8 \<times> u8 \<Rightarrow> pci_device" where
  "identity_at s = (\<lambda>(b, d, f). \<lparr>pd_bus = b, pd_device = d, pd_function = f,
     pd_device_id = ucast (drop_bit 16 (pci_read b d f 0 s)), pd_vendor_id = ucast (pci_read b d f 0 s),
     pd_class = ucast (drop_bit 24 (pci_read b d f 8 s)), pd_subclass = ucast (drop_bit 16 (pci_read b d f 8 s)),
     pd_prog_if = ucast (drop_bit 8 (pci_read b d f 8 s)), pd_revision = ucast (pci_read b d f 8 s), pd_msi_offset = 0\<rparr>)"

definition list_start :: "('fd, 'z) pci_state_scheme \<Rightarrow> pci_device \<Rightarrow> u8" where
  "list_start s d = (if has_capabilities d s then ucast (device_read d 0x34 s) else 0)"

definition list_ends :: "('fd, 'z) pci_state_scheme \<Rightarrow> u8 \<times> u8 \<times> u8 \<Rightarrow> bool" where
  "list_ends s x = walk_ends (identity_at s x) s (list_start s (identity_at s x))"

definition device_at :: "('fd, 'z) pci_state_scheme \<Rightarrow> u8 \<times> u8 \<times> u8 \<Rightarrow> pci_device" where
  "device_at s x = (identity_at s x)\<lparr>pd_msi_offset := first_stop (identity_at s x) s (list_start s (identity_at s x))\<rparr>"

lemma find_msi_0 [simp]: "find_msi d s 0 = Some 0"
  by (simp add: find_msi_unfold cap_stop_def)

lemma walk_0 [simp]: "walk_ends d s 0" "first_stop d s 0 = 0"
  using find_msi_eq[of d s 0] by (simp_all split: if_splits)

lemma pci_device_new_eq:
  "pci_device_new b d f s = (if list_ends s (b, d, f) then Inr (device_at s (b, d, f)) else Inl Hangs)"
proof -
  let ?i = "identity_at s (b, d, f)"
  have "pci_device_new b d f s = (case find_msi ?i s (list_start s ?i) of None \<Rightarrow> Inl Hangs | Some x \<Rightarrow> Inr (?i\<lparr>pd_msi_offset := x\<rparr>))"
    by (auto simp: pci_device_new_def identity_at_def list_start_def Let_def split: option.split)
  then show ?thesis by (simp add: find_msi_eq list_ends_def device_at_def)
qed

definition with_devices :: "('fd, 'z) pci_state_scheme \<Rightarrow> pci_device list \<Rightarrow> ('fd, 'z) pci_state_scheme" where
  "with_devices s ds = s\<lparr>pci_devices := pci_devices s @ ds\<rparr>"

lemma config_space_cong:
  fixes s :: "('fd, 'z) pci_state_scheme" and s' :: "('gd, 'y) pci_state_scheme"
  assumes "config_space s' = config_space s"
  shows "pci_read b d f x s' = pci_read b d f x s" "device_read v x s' = device_read v x s"
    "answers s' = answers s" "list_ends s' = list_ends s" "device_at s' = device_at s"
proof -
  show r: "pci_read b d f x s' = pci_read b d f x s" for b d f x by (simp add: pci_read_def assms)
  show v: "device_read v x s' = device_read v x s" for v x by (simp add: device_read_def r)
  show "answers s' = answers s" by (simp add: fun_eq_iff answers_def r)
  have "cap_next d s' = cap_next d s" "cap_stop d s' = cap_stop d s" for d
    by (simp_all add: fun_eq_iff cap_next_def cap_stop_def cap_id_def v)
  then have w: "walk_ends d s' = walk_ends d s" "first_stop d s' = first_stop d s" for d
    by (intro ext; simp add: walk_ends_def first_stop_def cap_at_def)+
  have i: "identity_at s' = identity_at s" "list_start s' = list_start s"
    by (simp_all add: fun_eq_iff identity_at_def list_start_def has_capabilities_def r v)
  show "list_ends s' = list_ends s" "device_at s' = device_at s"
    by (simp_all add: fun_eq_iff list_ends_def device_at_def w i)
qed

lemma with_devices_reads [simp]:
  "pci_read b d f x (with_devices s ds) = pci_read b d f x s" "device_read v x (with_devices s ds) = device_read v x s"
  "list_ends (with_devices s ds) = list_ends s" "device_at (with_devices s ds) = device_at s"
proof -
  have "config_space (with_devices s ds) = config_space s" by (simp add: with_devices_def)
  from config_space_cong[OF this] show "pci_read b d f x (with_devices s ds) = pci_read b d f x s" "device_read v x (with_devices s ds) = device_read v x s"
    "list_ends (with_devices s ds) = list_ends s" "device_at (with_devices s ds) = device_at s" by blast+
qed

lemma with_devices_add: "(with_devices s xs)\<lparr>pci_devices := pci_devices (with_devices s xs) @ [d]\<rparr> = with_devices s (xs @ [d])"
  by (simp add: with_devices_def)

lemma scan_devices_eq:
  "scan_devices s = (if \<forall>x\<in>set (filter (answers s) bus_places). list_ends s x
     then Inr (with_devices s (map (device_at s) (filter (answers s) bus_places))) else Inl Hangs)"
proof -
  let ?ok = "\<lambda>x. answers s x \<longrightarrow> list_ends s x"
  let ?new = "\<lambda>x. if answers s x then [device_at s x] else []"
  let ?at = "\<lambda>b d f. (of_nat b, of_nat d, of_nat f) :: u8 \<times> u8 \<times> u8"
  have f: "for_each 0 8 (\<lambda>function s.
       let cnfg = pci_read (of_nat b) (of_nat d) (of_nat function) 0 s in
       if cnfg = - 1 then Inr s
       else bnd (pci_device_new (of_nat b) (of_nat d) (of_nat function) s) (\<lambda>d. Inr (s\<lparr>pci_devices := pci_devices s @ [d]\<rparr>)))
       (with_devices s xs)
     = (if \<forall>f\<in>{0..<8}. ?ok (?at b d f) then Inr (with_devices s (xs @ concat (map (\<lambda>f. ?new (?at b d f)) [0..<8]))) else Inl Hangs)" for b d xs
    by (rule for_each_collect) (simp add: Let_def answers_def pci_device_new_eq with_devices_add)
  have d: "for_each 0 32 (\<lambda>device. for_each 0 8 (\<lambda>function s.
       let cnfg = pci_read (of_nat b) (of_nat device) (of_nat function) 0 s in
       if cnfg = - 1 then Inr s
       else bnd (pci_device_new (of_nat b) (of_nat device) (of_nat function) s) (\<lambda>d. Inr (s\<lparr>pci_devices := pci_devices s @ [d]\<rparr>))))
       (with_devices s xs)
     = (if \<forall>d\<in>{0..<32}. \<forall>f\<in>{0..<8}. ?ok (?at b d f)
        then Inr (with_devices s (xs @ concat (map (\<lambda>d. concat (map (\<lambda>f. ?new (?at b d f)) [0..<8])) [0..<32]))) else Inl Hangs)" for b xs
    by (rule for_each_collect) (rule f)
  have "scan_devices (with_devices s []) = (if \<forall>b\<in>{0..<256}. \<forall>d\<in>{0..<32}. \<forall>f\<in>{0..<8}. ?ok (?at b d f)
     then Inr (with_devices s ([] @ concat (map (\<lambda>b. concat (map (\<lambda>d. concat (map (\<lambda>f. ?new (?at b d f)) [0..<8])) [0..<32])) [0..<256])))
     else Inl Hangs)"
    unfolding scan_devices_def by (rule for_each_collect) (rule d)
  moreover have "concat (map (\<lambda>b. concat (map (\<lambda>d. concat (map (\<lambda>f. ?new (?at b d f)) [0..<8])) [0..<32])) [0..<256])
     = map (device_at s) (filter (answers s) bus_places)"
    unfolding concat_map_filter[symmetric] bus_places_def by (simp add: concat_map_concat comp_def)
  moreover have "(\<forall>b\<in>{0..<256}. \<forall>d\<in>{0..<32}. \<forall>f\<in>{0..<8}. ?ok (?at b d f)) \<longleftrightarrow> (\<forall>x\<in>set (filter (answers s) bus_places). list_ends s x)"
    unfolding set_filter bus_places_mem mem_Collect_eq Ball_def atLeastLessThan_iff by blast
  ultimately show ?thesis by (simp add: with_devices_def)
qed


text \<open>
  C17. The enumeration finds exactly the functions whose vendor register is not all ones, in the order of bus, device and function, and records what
  their registers say; the recorded MSI capability is the first one of the function's capability list, or 0 when the list has none. Nothing else
  changes. A function whose capability list runs in a cycle without an MSI capability makes the enumeration run for ever.
\<close>

theorem scan_devices_finds:
  fixes s :: "('fd, 'z) pci_state_scheme"
  defines "found \<equiv> filter (answers s) bus_places"
  shows "((\<forall>x\<in>set found. list_ends s x) \<longrightarrow> scan_devices s = Inr (s\<lparr>pci_devices := pci_devices s @ map (device_at s) found\<rparr>))
    \<and> ((\<exists>x\<in>set found. \<not> list_ends s x) \<longrightarrow> scan_devices s = Inl Hangs)"
  using scan_devices_eq[of s] by (auto simp: found_def with_devices_def)

lemma bus_places_set: "(b, d, f) \<in> set bus_places \<longleftrightarrow> d < 32 \<and> f < 8"
proof
  assume "(b, d, f) \<in> set bus_places"
  then obtain j k where "j < 32" "k < 8" "d = of_nat j" "f = of_nat k" unfolding bus_places_mem by auto
  then show "d < 32 \<and> f < 8" by (simp add: word_less_nat_alt)
next
  assume "d < 32 \<and> f < 8"
  then have "unat b < 256" "unat d < 32" "unat f < 8" using unat_less_limit[of b] by (simp_all add: word_less_nat_alt)
  then show "(b, d, f) \<in> set bus_places" unfolding bus_places_mem
    by (intro exI[of _ "unat b"] exI[of _ "unat d"] exI[of _ "unat f"] conjI) simp_all
qed

text \<open>A bus with one disk controller, at device 3, whose second capability is MSI.\<close>

definition sample_bus :: "unit pci_state" where
  "sample_bus = \<lparr>mem = \<lambda>_. 0, page_allocator = None, kernel_vmm = None, cr3 = 0, flushed = [],
     config_space = (\<lambda>_. - 1)(config_address 0 3 0 0 := 0x29228086, config_address 0 3 0 4 := 0x100000, config_address 0 3 0 8 := 0x01060100,
       config_address 0 3 0 0x34 := 0x40, config_address 0 3 0 0x40 := 0x5001, config_address 0 3 0 0x50 := 0x5), pci_devices = []\<rparr>"

lemma sample_bus_reads:
  "pci_read 0 3 0 0 sample_bus = 0x29228086" "pci_read 0 3 0 4 sample_bus = 0x100000" "pci_read 0 3 0 8 sample_bus = 0x01060100"
  "pci_read 0 3 0 0x34 sample_bus = 0x40" "pci_read 0 3 0 0x40 sample_bus = 0x5001" "pci_read 0 3 0 0x50 sample_bus = 0x5"
  by (simp_all add: pci_read_def sample_bus_def config_address_inject)

lemma sample_bus_devices: "pci_devices sample_bus = []"
  by (simp add: sample_bus_def)

lemma sample_bus_answers: "d < 32 \<Longrightarrow> f < 8 \<Longrightarrow> answers sample_bus (b, d, f) \<longleftrightarrow> b = 0 \<and> d = 3 \<and> f = 0"
  by (auto simp: answers_def pci_read_def sample_bus_def config_address_inject)

lemma sample_bus_identity:
  "identity_at sample_bus (0, 3, 0) = \<lparr>pd_bus = 0, pd_device = 3, pd_function = 0, pd_device_id = 0x2922, pd_vendor_id = 0x8086, pd_class = 1,
     pd_subclass = 6, pd_prog_if = 1, pd_revision = 0, pd_msi_offset = 0\<rparr>"
  by (simp add: identity_at_def sample_bus_reads)

lemma sample_bus_device:
  "list_ends sample_bus (0, 3, 0)"
  "device_at sample_bus (0, 3, 0) = \<lparr>pd_bus = 0, pd_device = 3, pd_function = 0, pd_device_id = 0x2922, pd_vendor_id = 0x8086, pd_class = 1,
     pd_subclass = 6, pd_prog_if = 1, pd_revision = 0, pd_msi_offset = 0x50\<rparr>"
proof -
  let ?i = "identity_at sample_bus (0, 3, 0)"
  have r: "device_read ?i x sample_bus = pci_read 0 3 0 x sample_bus" for x by (simp add: device_read_def sample_bus_identity)
  have st: "list_start sample_bus ?i = 0x40" by (simp add: list_start_def has_capabilities_def r sample_bus_reads)
  have "find_msi ?i sample_bus 0x40 = Some 0x50"
    by (simp add: find_msi_unfold[of _ _ "0x40"] find_msi_unfold[of _ _ "0x50"] cap_stop_def cap_id_def cap_next_def r sample_bus_reads MSI_CAPABILITY_ID_def)
  then have w: "walk_ends ?i sample_bus 0x40" "first_stop ?i sample_bus 0x40 = 0x50" by (simp_all add: find_msi_eq split: if_splits)
  show "list_ends sample_bus (0, 3, 0)" unfolding list_ends_def st by (rule w(1))
  show "device_at sample_bus (0, 3, 0) = \<lparr>pd_bus = 0, pd_device = 3, pd_function = 0, pd_device_id = 0x2922, pd_vendor_id = 0x8086, pd_class = 1,
     pd_subclass = 6, pd_prog_if = 1, pd_revision = 0, pd_msi_offset = 0x50\<rparr>"
    unfolding device_at_def st w(2) by (simp add: sample_bus_identity)
qed

theorem scan_devices_finds_witness:
  "\<exists>ds. scan_devices sample_bus = Inr (sample_bus\<lparr>pci_devices := ds\<rparr>) \<and>
     set ds = {\<lparr>pd_bus = 0, pd_device = 3, pd_function = 0, pd_device_id = 0x2922, pd_vendor_id = 0x8086, pd_class = 1,
     pd_subclass = 6, pd_prog_if = 1, pd_revision = 0, pd_msi_offset = 0x50\<rparr>}"
proof -
  let ?found = "filter (answers sample_bus) bus_places"
  have found: "set ?found = {(0, 3, 0)}" using sample_bus_answers by (auto simp: bus_places_set)
  then have "scan_devices sample_bus = Inr (sample_bus\<lparr>pci_devices := map (device_at sample_bus) ?found\<rparr>)"
    using scan_devices_finds[of sample_bus] sample_bus_device(1) unfolding found sample_bus_devices by simp
  moreover have "set (map (device_at sample_bus) ?found) = {device_at sample_bus (0, 3, 0)}" unfolding set_map found by simp
  ultimately show ?thesis unfolding sample_bus_device(2) by blast
qed

section \<open>Message-signalled interrupts\<close>

lemma aligned_register:
  fixes c k :: u8
  assumes "c AND 3 = 0" and "k AND 3 = 0"
  shows "(c + k) AND 0xfc = c + k"
proof -
  have m: "x AND 3 = take_bit 2 x" for x :: u8 by (simp add: take_bit_eq_mask mask_eq_exp_minus_1)
  have "c = push_bit 2 (drop_bit 2 c)" "k = push_bit 2 (drop_bit 2 k)"
    using assms bits_ident[of 2 c] bits_ident[of 2 k] unfolding m by simp_all
  then have "c + k = push_bit 2 (drop_bit 2 c + drop_bit 2 k)" by (metis push_bit_add)
  then have "2 \<le> i" if "bit (c + k) i" for i using that by (simp add: bit_push_bit_iff)
  then show ?thesis by (intro bit_word_eqI) (auto simp: bit_and_iff config_masks not_less simp del: bit_numeral_word_iff)
qed

lemma device_read_write:
  assumes "pd_device d < 32" "pd_function d < 8"
  shows "device_read d x (device_write d v y s) = (if x AND 0xfc = y AND 0xfc then v else device_read d x s)"
  unfolding device_read_def device_write_def pci_read_write[OF assms(1,1,2,2)] by simp

text \<open>The data register: the vector in the low byte, the upper half kept; the control register: enabled, the other bits kept.\<close>

lemma half_masks: "bit (0xffff :: u32) i \<longleftrightarrow> i < 16" "bit (0xffff0000 :: u32) i \<longleftrightarrow> 16 \<le> i \<and> i < 32"
proof -
  have e: "(0xffff :: u32) = mask 16" "(0xffff0000 :: u32) = push_bit 16 (mask 16)" by (simp_all add: mask_eq_exp_minus_1)
  show "bit (0xffff :: u32) i \<longleftrightarrow> i < 16" "bit (0xffff0000 :: u32) i \<longleftrightarrow> 16 \<le> i \<and> i < 32"
    by (auto simp only: e bit_push_bit_iff bit_mask_iff) auto
qed

lemma msi_data_register:
  fixes x :: u32 and vector :: nat
  defines "y \<equiv> (x AND 0xffff0000) OR of_nat (vector mod 0x100)"
  shows "ucast y = (of_nat vector :: u8)" "drop_bit 16 y = drop_bit 16 x"
proof -
  have "vector mod 0x100 = take_bit 8 vector" by (simp add: take_bit_eq_mod)
  then have low: "bit (vector mod 0x100) i \<longleftrightarrow> i < 8 \<and> bit vector i" for i by (simp add: bit_take_bit_iff)
  have len: "i < 16" if "bit x (16 + i)" for i using bit_imp_le_length[OF that] by simp
  show "ucast y = (of_nat vector :: u8)" unfolding y_def
    by (intro bit_word_eqI) (auto simp: bit_unsigned_iff bit_or_iff bit_and_iff half_masks low bit_of_nat_iff simp del: bit_numeral_word_iff)
  show "drop_bit 16 y = drop_bit 16 x" unfolding y_def
    by (intro bit_word_eqI) (unfold bit_drop_bit_eq bit_or_iff bit_and_iff half_masks low bit_of_nat_iff, auto dest: len)
qed

text \<open>The three writes of \<^verbatim>\<open>set_msi\<close>.\<close>

lemma set_msi_writes:
  fixes s :: "('fd, 'z) pci_state_scheme" and d :: pci_device
  defines "c \<equiv> pd_msi_offset d"
  defines "dat \<equiv> c + (if bit (device_read d c s) 23 then 12 else 8)"
  assumes "c \<noteq> 0" "unat c + 16 \<le> 256"
  shows "set_msi d vector s = Inr (device_write d (push_bit 16 ((drop_bit 16 (device_read d c s) AND 0xffff) OR 1)) c
    (device_write d ((device_read d dat s AND 0xffff0000) OR of_nat (vector mod 0x100)) dat (device_write d 0xfee00008 (c + 4) s)))"
proof -
  let ?r = "device_read d c s"
  have "bit (drop_bit 16 ?r AND 0xffff) 7 \<longleftrightarrow> bit ?r 23" unfolding bit_and_iff half_masks bit_drop_bit_eq by simp
  then have flag: "(drop_bit 16 ?r AND 0xffff) AND push_bit 7 1 \<noteq> 0 \<longleftrightarrow> bit ?r 23" using and_bit_eq_0[of 7 "drop_bit 16 ?r AND 0xffff"] by simp
  have sum: "wadd c k = Inr (c + k)" if "unat k \<le> 12" for k using that assms(4) by (simp add: wadd_def)
  show ?thesis
    using assms(3) sum[of 4] sum[of 8] sum[of 12] unfolding set_msi_def c_def[symmetric] Let_def flag dat_def by auto
qed

text \<open>
  C40. \<^verbatim>\<open>set_msi\<close> on a function with an MSI capability at an aligned offset writes the address of the local interrupt controller of processor 0
  and the vector's low byte, the latter where the capability's 64-bit flag says, keeps the upper half of the data register and the other control
  bits, enables the capability, and changes no other register of the bus. A function without the capability panics.
\<close>

theorem set_msi_programs:
  fixes s :: "('fd, 'z) pci_state_scheme" and d :: pci_device
  defines "c \<equiv> pd_msi_offset d"
  defines "dat \<equiv> c + (if bit (device_read d c s) 23 then 12 else 8)"
  assumes "pd_device d < 32" "pd_function d < 8" and "c AND 3 = 0" "unat c + 16 \<le> 256"
  shows "(c = 0 \<longrightarrow> set_msi d vector s = Inl (Panicked ''This device does not support MSIs''))
    \<and> (c \<noteq> 0 \<longrightarrow> (\<exists>s'. set_msi d vector s = Inr s' \<and> device_read d (c + 4) s' = 0xfee00008
        \<and> ucast (device_read d dat s') = (of_nat vector :: u8) \<and> drop_bit 16 (device_read d dat s') = drop_bit 16 (device_read d dat s)
        \<and> (\<forall>i. 16 \<le> i \<and> i < 32 \<longrightarrow> (bit (device_read d c s') i \<longleftrightarrow> i = 16 \<or> bit (device_read d c s) i))
        \<and> (\<forall>b v f x. v < 32 \<and> f < 8 \<and> ((b, v, f) \<noteq> (pd_bus d, pd_device d, pd_function d) \<or> x AND 0xfc \<notin> {c, c + 4, dat})
             \<longrightarrow> pci_read b v f x s' = pci_read b v f x s)))"
proof (intro conjI impI)
  assume "c \<noteq> 0"
  let ?r = "device_read d c s" and ?y = "(device_read d dat s AND 0xffff0000) OR of_nat (vector mod 0x100)"
  define s' where "s' = device_write d (push_bit 16 ((drop_bit 16 ?r AND 0xffff) OR 1)) c (device_write d ?y dat (device_write d 0xfee00008 (c + 4) s))"
  have run: "set_msi d vector s = Inr s'"
    using set_msi_writes[of d vector s] \<open>c \<noteq> 0\<close> assms(6) unfolding s'_def dat_def c_def by simp
  have reg: "x AND 0xfc = x" if "x \<in> {c, c + 4, dat}" for x
    using that aligned_register[OF assms(5), of 0] aligned_register[OF assms(5), of 4] aligned_register[OF assms(5), of 8]
      aligned_register[OF assms(5), of 12] unfolding dat_def by (auto split: if_splits)
  have apart: "c + 4 \<noteq> c" "dat \<noteq> c" "dat \<noteq> c + 4" unfolding dat_def by (auto split: if_splits)
  have reads: "device_read d c s' = push_bit 16 ((drop_bit 16 ?r AND 0xffff) OR 1)" "device_read d dat s' = ?y" "device_read d (c + 4) s' = 0xfee00008"
    unfolding s'_def device_read_write[OF assms(3,4)] using reg apart by auto
  have "pci_read b v f x s' = pci_read b v f x s"
    if "v < 32 \<and> f < 8 \<and> ((b, v, f) \<noteq> (pd_bus d, pd_device d, pd_function d) \<or> x AND 0xfc \<notin> {c, c + 4, dat})" for b v f x
  proof -
    from that have vf: "v < 32" "f < 8" by simp_all
    show ?thesis unfolding s'_def device_write_def pci_read_write[OF vf(1) assms(3) vf(2) assms(4)] using that reg by auto
  qed
  moreover have "bit (device_read d c s') i \<longleftrightarrow> i = 16 \<or> bit ?r i" if "16 \<le> i \<and> i < 32" for i
    using that unfolding reads(1) bit_push_bit_iff bit_or_iff bit_and_iff half_masks bit_drop_bit_eq bit_1_iff by auto
  ultimately show "\<exists>s'. set_msi d vector s = Inr s' \<and> device_read d (c + 4) s' = 0xfee00008
        \<and> ucast (device_read d dat s') = (of_nat vector :: u8) \<and> drop_bit 16 (device_read d dat s') = drop_bit 16 (device_read d dat s)
        \<and> (\<forall>i. 16 \<le> i \<and> i < 32 \<longrightarrow> (bit (device_read d c s') i \<longleftrightarrow> i = 16 \<or> bit (device_read d c s) i))
        \<and> (\<forall>b v f x. v < 32 \<and> f < 8 \<and> ((b, v, f) \<noteq> (pd_bus d, pd_device d, pd_function d) \<or> x AND 0xfc \<notin> {c, c + 4, dat})
             \<longrightarrow> pci_read b v f x s' = pci_read b v f x s)"
    using run reads(2,3) msi_data_register[of "device_read d dat s" vector] by (intro exI[of _ s'] conjI) simp_all
qed (simp add: set_msi_def c_def)

theorem set_msi_programs_witness:
  "\<exists>s'. set_msi (device_at sample_bus (0, 3, 0)) 0x31 sample_bus = Inr s'
     \<and> pci_read 0 3 0 0x54 s' = 0xfee00008 \<and> (ucast (pci_read 0 3 0 0x58 s') :: u8) = 0x31 \<and> pci_read 0 3 0 0x34 s' = 0x40"
proof -
  let ?d = "device_at sample_bus (0, 3, 0)"
  have f: "pd_bus ?d = 0" "pd_device ?d = 3" "pd_function ?d = 0" "pd_msi_offset ?d = 0x50" by (simp_all add: sample_bus_device(2))
  then have r: "device_read ?d x t = pci_read 0 3 0 x t" for x and t :: "unit pci_state" by (simp add: device_read_def)
  from set_msi_programs[where d = ?d and s = sample_bus and vector = "0x31"] obtain s' where s': "set_msi ?d 0x31 sample_bus = Inr s'" "pci_read 0 3 0 0x54 s' = 0xfee00008"
      "(ucast (pci_read 0 3 0 0x58 s') :: u8) = 0x31"
      "\<forall>b v f x. v < 32 \<and> f < 8 \<and> ((b, v, f) \<noteq> (0, 3, 0) \<or> x AND 0xfc \<notin> {0x50, 0x54, 0x58})
         \<longrightarrow> pci_read b v f x s' = pci_read b v f x sample_bus"
    by (auto simp: f r sample_bus_reads)
  from s'(4)[rule_format, of 3 0 0 "0x34"] s'(1-3) show ?thesis by (auto simp: sample_bus_reads)
qed

end
