(* ===== verification/Ahci_Start.thy ===== *)
theory Ahci_Start
  imports Ahci_Disk Vmm_Tables Pci_Bus
begin

text \<open>
  The initialisation of the disk driver: \<^verbatim>\<open>ahci::init\<close> gives every command slot of every disk a command table of its own and leaves the devices
  ready for the transfers of the theory \<open>Ahci_Disk\<close>.
\<close>

section \<open>A command slot\<close>

lemma ahci_update_space [simp]:
  "aspace_ok (set_header a f s) r = aspace_ok s r" "free_frames (set_header a f s) = free_frames s"
  "aspace_ok (s\<lparr>ports := x\<rparr>) r = aspace_ok s r" "free_frames (s\<lparr>ports := x\<rparr>) = free_frames s"
  "aspace_ok (s\<lparr>ahci_devices := d\<rparr>) r = aspace_ok s r" "free_frames (s\<lparr>ahci_devices := d\<rparr>) = free_frames s"
  "aspace_ok (s\<lparr>hba := c\<rparr>) r = aspace_ok s r" "free_frames (s\<lparr>hba := c\<rparr>) = free_frames s"
  for s :: "'z ahci_state_scheme"
  by (rule aspace_ok_cong; simp add: set_header_def)+

text \<open>What the initialisation keeps: everything but memory, frames, page tables and the structures of the controller.\<close>

definition init_keeps :: "nat \<Rightarrow> 'z ahci_state_scheme \<Rightarrow> 'z ahci_state_scheme \<Rightarrow> bool" where
  "init_keeps r s s' \<longleftrightarrow> aspace_ok s' r \<and> kernel_vmm s' = kernel_vmm s \<and> cr3 s' = cr3 s \<and> free_frames s' \<subseteq> free_frames s
     \<and> config_space s' = config_space s \<and> pci_devices s' = pci_devices s \<and> tables s' = tables s \<and> disk s' = disk s
     \<and> ahci_state.more s' = ahci_state.more s"

lemma init_keeps_trans: "init_keeps r s t \<Longrightarrow> init_keeps r t u \<Longrightarrow> init_keeps r s u"
  by (auto simp: init_keeps_def)

definition kernel_space :: "nat \<Rightarrow> 'z ahci_state_scheme \<Rightarrow> bool" where
  "kernel_space r s \<longleftrightarrow> aspace_ok s r \<and> (\<exists>k. kernel_vmm s = Some k \<and> pagemap k = frame_addr r) \<and> 0 \<notin> free_frames s"

lemma init_keeps_space: "init_keeps r s s' \<Longrightarrow> kernel_space r s \<Longrightarrow> kernel_space r s'"
  by (auto simp: init_keeps_def kernel_space_def)

lemma ahci_vmm_fields:
  fixes s s' :: "'z ahci_state_scheme"
  assumes "vmm_state.more s' = vmm_state.more s"
  shows "config_space s' = config_space s" "pci_devices s' = pci_devices s" "hba s' = hba s" "ports s' = ports s" "headers s' = headers s"
    "tables s' = tables s" "ahci_devices s' = ahci_devices s" "disk s' = disk s" "ahci_state.more s' = ahci_state.more s"
  using assms by (cases s, cases s', simp)+

lemma map_page_keeps:
  fixes s :: "'z ahci_state_scheme"
  assumes sp: "kernel_space r s" and fl: "bitflags_laws fl" and F: "3 \<le> card (free_frames s)"
  shows "\<exists>k s'. vmm_get s = Inr k \<and> map_page fl k v phys flags True s = Inr s' \<and> init_keeps r s s'
    \<and> card (free_frames s) \<le> card (free_frames s') + 3 \<and> hba s' = hba s \<and> ports s' = ports s \<and> headers s' = headers s \<and> ahci_devices s' = ahci_devices s"
proof -
  from sp obtain k where k: "kernel_vmm s = Some k" "pagemap k = frame_addr r" and ok: "aspace_ok s r" "0 \<notin> free_frames s"
    by (auto simp: kernel_space_def)
  from map_page_total[OF ok(1) fl k(2) F ok(2), of v phys flags True] obtain s' where s': "map_page fl k v phys flags True s = Inr s'" by blast
  note e = map_page_effect[OF ok(1) fl k(2) s'] and m = ahci_vmm_fields[OF map_page_more[OF ok(1) fl k(2) s']]
  have "vmm_get s = Inr k" using k(1) by (simp add: vmm_get_def)
  then show ?thesis using s' e m by (auto simp: init_keeps_def)
qed

text \<open>A slot of a port gets a command table in a frame of its own.\<close>

lemma init_slot_ok:
  fixes s :: "'z ahci_state_scheme"
  assumes sp: "kernel_space r s" and fl: "bitflags_laws fl" and F: "4 \<le> card (free_frames s)" and hdr: "get_command_header (ports s p) i = Inr a"
  shows "\<exists>s' g. init_slot fl p i s = Inr s' \<and> init_keeps r s s' \<and> card (free_frames s) \<le> card (free_frames s') + 4
    \<and> g \<in> free_frames s \<and> g \<notin> free_frames s' \<and> get_command_table (headers s' a) = Inr (kptr g) \<and> (\<forall>b. b \<noteq> a \<longrightarrow> headers s' b = headers s b)
    \<and> hba s' = hba s \<and> ports s' = ports s \<and> ahci_devices s' = ahci_devices s"
proof -
  have ok: "aspace_ok s r" "0 \<notin> free_frames s" "pmm_wf s" using sp by (auto simp: kernel_space_def aspace_ok_def)
  have fin: "finite (free_frames s)" using pmm_wf_cap[OF ok(3)] finite_subset by blast
  obtain fa t where c: "pmm_calloc 1 s = Inr (Some fa, t)" using calloc_one[OF ok(3) _ ok(2)] F by fastforce
  from calloc_walk_step[OF ok(1) c] obtain g where g: "fa = frame_addr g" "g < 2 ^ 35" "g \<in> free_frames s" "free_frames t = free_frames s - {g}"
    "walk_step r s t" by blast
  have m: "pmm_state.more t = pmm_state.more s" "aspace_ok t r" using g(5) by (simp_all add: walk_step_def)
  have "vmm_state.more t = vmm_state.more s" using m(1) by (cases t, cases s) simp
  note t = ahci_vmm_fields[OF this] vmm_more_fields[OF m(1)]
  have spt: "kernel_space r t" using sp m(2) t g(4) by (auto simp: kernel_space_def)
  have "card (free_frames s) = card (free_frames t) + 1" using card_Suc_Diff1[OF fin g(3)] g(4) by simp
  then have Ft: "3 \<le> card (free_frames t)" "card (free_frames s) = card (free_frames t) + 1" using F by simp_all
  let ?fl = "fl_union fl (fl_union fl PageFlags_PRESENT PageFlags_WRITABLE) PageFlags_UNCACHEABLE"
  from map_page_keeps[OF spt fl Ft(1), of "VirtAddr (kptr g)" fa ?fl] obtain k u where
    u: "vmm_get t = Inr k" "map_page fl k (VirtAddr (kptr g)) fa ?fl True t = Inr u" "init_keeps r t u"
      "card (free_frames t) \<le> card (free_frames u) + 3" "hba u = hba t" "ports u = ports t" "headers u = headers t" "ahci_devices u = ahci_devices t" by blast
  have un: "unat (as_u64 fa) = g * 4096" using g(1,2) by (simp add: frame_addr_def unat_frame_addr)
  then have w: "wadd (as_u64 fa) PHYS_BASE = Inr (kptr g)"
    using g(1,2) by (simp add: wadd_def kptr_plus frame_addr_def PHYS_BASE_def)
  let ?f = "\<lambda>h. h\<lparr>ctaddr_lower := ucast (as_u64 fa), ctaddr_upper := ucast (drop_bit 32 (as_u64 fa))\<rparr>"
  let ?s' = "set_header a ?f u"
  have "div_ceil 144 (unat PAGE_SIZE) = Inr 1" by (simp add: div_ceil_eq ceil_div_def unat_PAGE_SIZE)
  moreover have "PhysAddr (as_u64 fa) = fa" by simp
  ultimately have "init_slot fl p i s = Inr ?s'"
    using hdr c w u(1,2) by (simp add: init_slot_def for_each_step wadd_zero)
  moreover have "init_keeps r s ?s'"
    using u(3) t g(4) by (auto simp: init_keeps_def) (simp_all add: set_header_def)
  moreover have "get_command_table (headers ?s' a) = Inr (kptr g)"
    using w halves_u64[of "as_u64 fa"] by (simp add: get_command_table_def reg_pair_ptr_def set_header_def)
  moreover have "card (free_frames s) \<le> card (free_frames ?s') + 4" using u(4) Ft(2) by simp
  moreover have "g \<notin> free_frames ?s'" using u(3) g(4) by (auto simp: init_keeps_def)
  moreover have "hba ?s' = hba s" "ports ?s' = ports s" "ahci_devices ?s' = ahci_devices s" "\<forall>b. b \<noteq> a \<longrightarrow> headers ?s' b = headers s b"
    using u(5-8) t by (simp_all add: set_header_def)
  ultimately show ?thesis using g(3) by blast
qed


section \<open>A port\<close>

definition slot_addr :: "u64 \<Rightarrow> nat \<Rightarrow> u64" where
  "slot_addr b i = b + of_nat (i * 32)"

lemma slot_addr_inject: "i < 32 \<Longrightarrow> j < 32 \<Longrightarrow> slot_addr b i = slot_addr b j \<longleftrightarrow> i = j"
proof -
  assume ij: "i < 32" "j < 32"
  have "slot_addr b i = slot_addr b j \<longleftrightarrow> (of_nat (i * 32) :: u64) = of_nat (j * 32)" by (simp add: slot_addr_def)
  also have "\<dots> \<longleftrightarrow> i = j" using ij word_unat_eq_iff[of "of_nat (i * 32) :: u64" "of_nat (j * 32)"] by (simp del: of_nat_mult)
  finally show ?thesis .
qed

text \<open>The list of command headers of a port, as the firmware has set it up.\<close>

definition list_base :: "port_registers \<Rightarrow> u64 res" where
  "list_base r = reg_pair_ptr (clb_lower r) (clb_higher r)"

lemma command_header_slot: "list_base r = Inr b \<Longrightarrow> get_command_header r i = Inr (slot_addr b i)"
  by (simp add: list_base_def get_command_header_def slot_addr_def)

text \<open>The first \<open>n\<close> slots have command tables in the frames \<open>fs\<close>, and no other header has changed.\<close>

definition slots_done :: "nat \<Rightarrow> u64 \<Rightarrow> nat list \<Rightarrow> 'z ahci_state_scheme \<Rightarrow> 'z ahci_state_scheme \<Rightarrow> bool" where
  "slots_done n b fs s t \<longleftrightarrow> length fs = n \<and> distinct fs \<and> set fs \<subseteq> free_frames s - free_frames t
     \<and> (\<forall>i<n. get_command_table (headers t (slot_addr b i)) = Inr (kptr (fs ! i)))
     \<and> (\<forall>a. (\<forall>i<n. a \<noteq> slot_addr b i) \<longrightarrow> headers t a = headers s a)"

lemma slots_step:
  fixes t :: "'z ahci_state_scheme"
  assumes sp: "kernel_space r s" and fl: "bitflags_laws fl" and F: "4 \<le> card (free_frames t)"
    and t: "init_keeps r s t" "slots_done n b fs s t" and n: "n < 32" and b: "list_base (ports t p) = Inr b"
  shows "\<exists>t' g. init_slot fl p n t = Inr t' \<and> init_keeps r s t' \<and> slots_done (Suc n) b (fs @ [g]) s t' \<and> card (free_frames t) \<le> card (free_frames t') + 4
    \<and> hba t' = hba t \<and> ports t' = ports t \<and> ahci_devices t' = ahci_devices t"
proof -
  from init_slot_ok[OF init_keeps_space[OF t(1) sp] fl F command_header_slot[OF b, of n]] obtain t' g where
    g: "init_slot fl p n t = Inr t'" "init_keeps r t t'" "card (free_frames t) \<le> card (free_frames t') + 4"
      "g \<in> free_frames t" "g \<notin> free_frames t'" "get_command_table (headers t' (slot_addr b n)) = Inr (kptr g)"
      "\<forall>a. a \<noteq> slot_addr b n \<longrightarrow> headers t' a = headers t a" "hba t' = hba t" "ports t' = ports t" "ahci_devices t' = ahci_devices t" by blast
  have sub: "free_frames t' \<subseteq> free_frames t" "free_frames t \<subseteq> free_frames s" using g(2) t(1) by (simp_all add: init_keeps_def)
  have d: "length fs = n" "distinct fs" "set fs \<subseteq> free_frames s - free_frames t"
      "\<forall>i<n. get_command_table (headers t (slot_addr b i)) = Inr (kptr (fs ! i))"
      "\<forall>a. (\<forall>i<n. a \<noteq> slot_addr b i) \<longrightarrow> headers t a = headers s a" using t(2) by (simp_all add: slots_done_def)
  have "get_command_table (headers t' (slot_addr b i)) = Inr (kptr ((fs @ [g]) ! i))" if "i < Suc n" for i
  proof (cases "i = n")
    case True
    then show ?thesis using g(6) d(1) by (simp add: nth_append)
  next
    case False
    then have "slot_addr b i \<noteq> slot_addr b n" "i < n" using that n slot_addr_inject by auto
    then show ?thesis using g(7) d(1,4) by (simp add: nth_append)
  qed
  moreover have "set (fs @ [g]) \<subseteq> free_frames s - free_frames t'" using d(3) g(4,5) sub by auto
  moreover have "distinct (fs @ [g])" using d(2,3) g(4) by auto
  moreover have "headers t' a = headers s a" if "\<forall>i<Suc n. a \<noteq> slot_addr b i" for a using that g(7) d(5) by simp
  ultimately have "slots_done (Suc n) b (fs @ [g]) s t'" unfolding slots_done_def using d(1) by simp
  then show ?thesis using g init_keeps_trans[OF t(1) g(2)] by blast
qed

definition enabled_port :: "port_registers \<Rightarrow> port_registers" where
  "enabled_port x = x\<lparr>interrupt_enable := interrupt_enable x OR 1\<rparr>"

lemma list_base_enabled [simp]: "list_base (enabled_port x) = list_base x"
  by (simp add: list_base_def enabled_port_def)

lemma ahci_device_new_ok:
  fixes s :: "'z ahci_state_scheme"
  assumes sp: "kernel_space r s" and fl: "bitflags_laws fl" and F: "128 \<le> card (free_frames s)" and b: "list_base (ports s p) = Inr b"
  shows "\<exists>t fs. ahci_device_new fl p s = Inr (p, t) \<and> init_keeps r s t \<and> slots_done 32 b fs s t \<and> card (free_frames s) \<le> card (free_frames t) + 128
    \<and> hba t = hba s \<and> ports t = (ports s)(p := enabled_port (ports s p)) \<and> ahci_devices t = ahci_devices s"
proof -
  let ?s = "s\<lparr>ports := (ports s)(p := enabled_port (ports s p))\<rparr>"
  define P where "P n t \<longleftrightarrow> init_keeps r ?s t \<and> (\<exists>fs. slots_done n b fs ?s t) \<and> card (free_frames s) \<le> card (free_frames t) + 4 * n
    \<and> hba t = hba s \<and> ports t = ports ?s \<and> ahci_devices t = ahci_devices s" for n t
  have sp': "kernel_space r ?s" using sp by (simp add: kernel_space_def)
  have "\<exists>t. for_each 0 32 (init_slot fl p) ?s = Inr t \<and> P 32 t"
  proof (rule for_each_inv)
    fix n t assume n: "n < 32" and P: "P n t"
    from P obtain fs where t: "init_keeps r ?s t" "slots_done n b fs ?s t" "card (free_frames s) \<le> card (free_frames t) + 4 * n"
      "hba t = hba s" "ports t = ports ?s" "ahci_devices t = ahci_devices s" by (auto simp: P_def)
    have "4 \<le> card (free_frames t)" using t(3) n F by simp
    moreover have "list_base (ports t p) = Inr b" using t(5) b by simp
    ultimately obtain t' g where t': "init_slot fl p n t = Inr t'" "init_keeps r ?s t'" "slots_done (Suc n) b (fs @ [g]) ?s t'"
      "card (free_frames t) \<le> card (free_frames t') + 4" "hba t' = hba t" "ports t' = ports t" "ahci_devices t' = ahci_devices t"
      using slots_step[OF sp' fl _ t(1,2) n] by blast
    then have "P (Suc n) t'" using t(3-6) unfolding P_def by auto
    then show "\<exists>t'. init_slot fl p n t = Inr t' \<and> P (Suc n) t'" using t'(1) by blast
  next
    show "P 0 ?s" using sp by (auto simp: P_def init_keeps_def slots_done_def kernel_space_def)
  qed simp
  then obtain t where t: "for_each 0 32 (init_slot fl p) ?s = Inr t" "P 32 t" by blast
  from t(2) obtain fs where fs: "init_keeps r ?s t" "slots_done 32 b fs ?s t" by (auto simp: P_def)
  have "init_keeps r s t" "slots_done 32 b fs s t" using fs by (simp_all add: init_keeps_def slots_done_def)
  moreover have "ahci_device_new fl p s = Inr (p, t)" using t(1) by (simp add: ahci_device_new_def enabled_port_def Let_def)
  ultimately show ?thesis using t(2) by (auto simp: P_def)
qed


section \<open>The controller\<close>

definition disk_port :: "'z ahci_state_scheme \<Rightarrow> nat \<Rightarrow> bool" where
  "disk_port s p \<longleftrightarrow> bit (port_implemented (hba s)) p \<and> port_signature (ports s p) = SATA_ATA"

abbreviation disk_ports :: "'z ahci_state_scheme \<Rightarrow> nat \<Rightarrow> nat list" where
  "disk_ports s n \<equiv> filter (disk_port s) [0..<n]"

text \<open>
  The command lists of the disks are where the firmware put them, \<open>base p\<close> for port \<open>p\<close>, and do not overlap.
\<close>

definition lists_apart :: "(nat \<Rightarrow> u64) \<Rightarrow> 'z ahci_state_scheme \<Rightarrow> bool" where
  "lists_apart base s \<longleftrightarrow> (\<forall>p<32. disk_port s p \<longrightarrow> list_base (ports s p) = Inr (base p))
     \<and> (\<forall>p<32. \<forall>q<32. disk_port s p \<longrightarrow> disk_port s q \<longrightarrow> p \<noteq> q \<longrightarrow> (\<forall>i<32. \<forall>j<32. slot_addr (base p) i \<noteq> slot_addr (base q) j))"

text \<open>The ports below \<open>n\<close> are started: every slot of every disk has a command table in a frame of its own.\<close>

definition ports_done :: "(nat \<Rightarrow> u64) \<Rightarrow> nat \<Rightarrow> (nat \<times> nat \<Rightarrow> nat) \<Rightarrow> 'z ahci_state_scheme \<Rightarrow> 'z ahci_state_scheme \<Rightarrow> bool" where
  "ports_done base n tab s t \<longleftrightarrow>
     inj_on tab (set (disk_ports s n) \<times> {..<32}) \<and> tab ` (set (disk_ports s n) \<times> {..<32}) \<subseteq> free_frames s - free_frames t
     \<and> (\<forall>p\<in>set (disk_ports s n). \<forall>i<32. get_command_table (headers t (slot_addr (base p) i)) = Inr (kptr (tab (p, i))))
     \<and> (\<forall>q. ports t q = (if q \<in> set (disk_ports s n) then enabled_port (ports s q) else ports s q))
     \<and> ahci_devices t = ahci_devices s @ disk_ports s n"

lemma inj_on_extend:
  assumes "inj_on tab (A \<times> I)" "inj_on f I" "tab ` (A \<times> I) \<inter> f ` I = {}" "n \<notin> A"
  shows "inj_on (\<lambda>(p, i). if p = n then f i else tab (p, i)) (insert n A \<times> I)"
proof (rule inj_onI)
  fix x y
  assume x: "x \<in> insert n A \<times> I" and y: "y \<in> insert n A \<times> I"
    and eq: "(\<lambda>(p, i). if p = n then f i else tab (p, i)) x = (\<lambda>(p, i). if p = n then f i else tab (p, i)) y"
  obtain p i q j where xy: "x = (p, i)" "y = (q, j)" by (cases x, cases y)
  show "x = y"
  proof (cases "p = n"; cases "q = n")
    assume "p = n" "q = n"
    then show ?thesis using eq x y assms(2) by (simp add: xy inj_on_def)
  next
    assume "p = n" "q \<noteq> n"
    then show ?thesis using eq x y assms(3) by (auto simp: xy)
  next
    assume "p \<noteq> n" "q = n"
    then show ?thesis using eq x y assms(3) by (auto simp: xy)
  next
    assume "p \<noteq> n" "q \<noteq> n"
    then show ?thesis using eq x y inj_onD[OF assms(1), of "(p, i)" "(q, j)"] by (simp add: xy)
  qed
qed

lemma start_port_skip: "\<not> disk_port s n \<Longrightarrow> n < 32 \<Longrightarrow> hba t = hba s \<Longrightarrow> ports t n = ports s n \<Longrightarrow> start_port fl n t = Inr t"
  using and_bit_eq_0[of n "port_implemented (hba t)"] by (auto simp: start_port_def disk_port_def)

lemma start_port_step:
  fixes s t :: "'z ahci_state_scheme"
  assumes sp: "kernel_space r s" and fl: "bitflags_laws fl" and lists: "lists_apart base s" and n: "n < 32" and dp: "disk_port s n"
    and t: "init_keeps r s t" "ports_done base n tab s t" "hba t = hba s" and F: "128 \<le> card (free_frames t)"
  shows "\<exists>t' tab'. start_port fl n t = Inr t' \<and> init_keeps r s t' \<and> ports_done base (Suc n) tab' s t' \<and> hba t' = hba s
    \<and> card (free_frames t) \<le> card (free_frames t') + 128"
proof -
  have pn: "ports t n = ports s n" and old: "n \<notin> set (disk_ports s n)" using t(2) by (auto simp: ports_done_def)
  have base: "list_base (ports t n) = Inr (base n)" using lists n dp pn by (simp add: lists_apart_def)
  from ahci_device_new_ok[OF init_keeps_space[OF t(1) sp] fl F base] obtain u fs where
    u: "ahci_device_new fl n t = Inr (n, u)" "init_keeps r t u" "slots_done 32 (base n) fs t u" "card (free_frames t) \<le> card (free_frames u) + 128"
      "hba u = hba t" "ports u = (ports t)(n := enabled_port (ports t n))" "ahci_devices u = ahci_devices t" by blast
  let ?t' = "u\<lparr>ahci_devices := ahci_devices u @ [n]\<rparr>"
  let ?tab = "\<lambda>(p, i). if p = n then fs ! i else tab (p, i)"
  have run: "start_port fl n t = Inr ?t'"
    using u(1) dp pn n and_bit_eq_0[of n "port_implemented (hba t)"] t(3) by (auto simp: start_port_def disk_port_def)
  have keeps: "init_keeps r s ?t'" using init_keeps_trans[OF t(1) u(2)] by (simp add: init_keeps_def)
  have sd: "length fs = 32" "distinct fs" "set fs \<subseteq> free_frames t - free_frames u"
    "\<forall>i<32. get_command_table (headers u (slot_addr (base n) i)) = Inr (kptr (fs ! i))"
    "\<forall>a. (\<forall>i<32. a \<noteq> slot_addr (base n) i) \<longrightarrow> headers u a = headers t a" using u(3) by (simp_all add: slots_done_def)
  have pd: "inj_on tab (set (disk_ports s n) \<times> {..<32})" "tab ` (set (disk_ports s n) \<times> {..<32}) \<subseteq> free_frames s - free_frames t"
    "\<forall>p\<in>set (disk_ports s n). \<forall>i<32. get_command_table (headers t (slot_addr (base p) i)) = Inr (kptr (tab (p, i)))"
    "\<forall>q. ports t q = (if q \<in> set (disk_ports s n) then enabled_port (ports s q) else ports s q)" "ahci_devices t = ahci_devices s @ disk_ports s n"
    using t(2) unfolding ports_done_def by blast+
  have sub: "free_frames u \<subseteq> free_frames t" "free_frames t \<subseteq> free_frames s" using u(2) t(1) by (simp_all add: init_keeps_def)
  have set: "set (disk_ports s (Suc n)) = insert n (set (disk_ports s n))" using dp by auto
  have fsi: "fs ! i \<in> free_frames t - free_frames u" if "i < 32" for i using that sd(1,3) by (metis nth_mem subsetD)
  have tabi: "tab (p, i) \<in> free_frames s - free_frames t" if "p \<in> set (disk_ports s n)" "i < 32" for p i using that pd(2) by blast
  have "inj_on ?tab (set (disk_ports s (Suc n)) \<times> {..<32})"
    unfolding set
  proof (rule inj_on_extend[OF pd(1) _ _ old])
    show "inj_on ((!) fs) {..<32}" using sd(1,2) by (simp add: inj_on_nth)
    show "tab ` (set (disk_ports s n) \<times> {..<32}) \<inter> (!) fs ` {..<32} = {}" using fsi tabi by fastforce
  qed
  moreover have "?tab ` (set (disk_ports s (Suc n)) \<times> {..<32}) \<subseteq> free_frames s - free_frames ?t'"
    unfolding set using fsi tabi sub old by fastforce
  moreover have "get_command_table (headers ?t' (slot_addr (base p) i)) = Inr (kptr (?tab (p, i)))"
    if p: "p \<in> set (disk_ports s (Suc n))" and i: "i < 32" for p i
  proof (cases "p = n")
    case False
    then have "p \<in> set (disk_ports s n)" "p < 32" "disk_port s p" using p n unfolding set by auto
    then show ?thesis using False sd(5) pd(3) lists n dp i unfolding lists_apart_def by auto
  qed (use sd(4) i in simp)
  moreover have "ports ?t' q = (if q \<in> set (disk_ports s (Suc n)) then enabled_port (ports s q) else ports s q)" for q
    unfolding set using u(6) pd(4) old by auto
  moreover have "ahci_devices ?t' = ahci_devices s @ disk_ports s (Suc n)" using u(7) pd(5) dp by simp
  ultimately have "ports_done base (Suc n) ?tab s ?t'" unfolding ports_done_def by blast
  then show ?thesis using run keeps u(4,5) t(3) by (intro exI[of _ ?t'] exI[of _ ?tab]) simp
qed


lemma start_ports_ok:
  fixes s :: "'z ahci_state_scheme"
  assumes sp: "kernel_space r s" and fl: "bitflags_laws fl" and lists: "lists_apart base s"
    and F: "128 * length (disk_ports s 32) \<le> card (free_frames s)"
  shows "\<exists>t tab. for_each 0 32 (start_port fl) s = Inr t \<and> init_keeps r s t \<and> ports_done base 32 tab s t
    \<and> card (free_frames s) \<le> card (free_frames t) + 128 * length (disk_ports s 32)"
proof -
  define P where "P n t \<longleftrightarrow> init_keeps r s t \<and> (\<exists>tab. ports_done base n tab s t) \<and> hba t = hba s
    \<and> card (free_frames s) \<le> card (free_frames t) + 128 * length (disk_ports s n)" for n and t :: "'z ahci_state_scheme"
  have "\<exists>t. for_each 0 32 (start_port fl) s = Inr t \<and> P 32 t"
  proof (rule for_each_inv)
    fix n t assume n: "n < 32" and P: "P n t"
    from P obtain tab where t: "init_keeps r s t" "ports_done base n tab s t" "hba t = hba s"
      "card (free_frames s) \<le> card (free_frames t) + 128 * length (disk_ports s n)" by (auto simp: P_def)
    show "\<exists>t'. start_port fl n t = Inr t' \<and> P (Suc n) t'"
    proof (cases "disk_port s n")
      case True
      have "[0..<32] = [0..<Suc n] @ [Suc n..<32]" using n upt_add_eq_append[of 0 "Suc n" "31 - n"] by simp
      then have "length (disk_ports s (Suc n)) \<le> length (disk_ports s 32)" by (metis filter_append length_append le_add1)
      then have "128 \<le> card (free_frames t)" using t(4) F True by simp
      from start_port_step[OF sp fl lists n True t(1-3) this] obtain t' tab' where
        "start_port fl n t = Inr t'" "init_keeps r s t'" "ports_done base (Suc n) tab' s t'" "hba t' = hba s"
        "card (free_frames t) \<le> card (free_frames t') + 128" by blast
      then show ?thesis using t(4) True unfolding P_def by fastforce
    next
      case False
      have "ports t n = ports s n" using t(2) by (simp add: ports_done_def)
      then have "start_port fl n t = Inr t" using start_port_skip[OF False n t(3)] by simp
      then show ?thesis using t False by (auto simp: P_def ports_done_def)
    qed
  next
    have "ports_done base 0 (\<lambda>_. 0) s s" by (simp add: ports_done_def)
    then show "P 0 s" using sp by (auto simp: P_def init_keeps_def kernel_space_def)
  qed simp
  then show ?thesis by (auto simp: P_def)
qed

text \<open>A device of an idle port is ready when the controller has been started.\<close>

lemma ports_done_ready:
  assumes "ports_done base 32 tab s s'" and "lists_apart base s" and "pmm_wf s'" and "hba_serves hw" and k: "k < length (disk_ports s 32)"
    and idle: "sact (ports s (disk_ports s 32 ! k)) = 0" "ci (ports s (disk_ports s 32 ! k)) = 0" "\<not> bit (interrupt_status (ports s (disk_ports s 32 ! k))) 30"
  shows "device_ready hw (length (ahci_devices s) + k) (disk_ports s 32 ! k) s'"
proof -
  let ?p = "disk_ports s 32 ! k"
  have p: "?p \<in> set (disk_ports s 32)" by (rule nth_mem[OF k])
  then have port: "ports s' ?p = enabled_port (ports s ?p)" "list_base (ports s ?p) = Inr (base ?p)"
      "get_command_table (headers s' (slot_addr (base ?p) 0)) = Inr (kptr (tab (?p, 0)))" "ahci_devices s' = ahci_devices s @ disk_ports s 32"
    using assms(1,2) unfolding ports_done_def lists_apart_def by auto
  have "get_command_header (ports s' ?p) 0 = Inr (slot_addr (base ?p) 0)" by (rule command_header_slot) (simp add: port)
  then have "port_ready ?p s'" using idle port(3) by (auto simp: port_ready_def port(1) enabled_port_def)
  then show ?thesis using assms(3,4) k port(4) by (simp add: device_ready_def nth_append)
qed

lemma ahci_init_ok:
  fixes s :: "'z ahci_state_scheme"
  assumes "kernel_space r s" and "bitflags_laws fl" and "lists_apart base s" and "get_bar dev 5 s = Inr bar"
    and "pd_device dev < 32" "pd_function dev < 8" and "bit (capabilities (hba s)) 31"
    and "3 + 128 * length (disk_ports s 32) \<le> card (free_frames s)"
  shows "\<exists>s' tab. ahci_init fl dev s = Inr s' \<and> ports_done base 32 tab s s' \<and> device_read dev 4 s' = device_read dev 4 s OR 6
    \<and> kernel_space r s' \<and> disk s' = disk s \<and> card (free_frames s) \<le> card (free_frames s') + 3 + 128 * length (disk_ports s 32)
    \<and> pci_devices s' = pci_devices s \<and> free_frames s' \<subseteq> free_frames s \<and> ahci_state.more s' = ahci_state.more s"
proof -
  let ?s1 = "enable_mmio dev (bus_master dev s)"
  have same: "mem ?s1 = mem s" "page_allocator ?s1 = page_allocator s" "kernel_vmm ?s1 = kernel_vmm s" "hba ?s1 = hba s" "ports ?s1 = ports s"
    "headers ?s1 = headers s" "ahci_devices ?s1 = ahci_devices s" "disk ?s1 = disk s"
    "pci_devices ?s1 = pci_devices s" "ahci_state.more ?s1 = ahci_state.more s"
    by (simp_all add: enable_mmio_def bus_master_def device_write_def pci_write_def Let_def)
  have cmd: "device_read dev 4 ?s1 = device_read dev 4 s OR 6"
    unfolding enable_mmio_def bus_master_def Let_def device_read_write[OF assms(5,6)] by (simp add: or.assoc)
  note sp1 = aspace_ok_cong[OF same(1,2)]
  have space1: "kernel_space r ?s1" using assms(1) same(3) sp1 by (simp add: kernel_space_def)
  have "3 \<le> card (free_frames ?s1)" using assms(8) sp1 by simp
  from map_page_keeps[OF space1 assms(2) this] obtain k s2 where
    s2: "vmm_get ?s1 = Inr k" "map_page fl k (VirtAddr (as_u64 (higher_half bar))) bar
        (fl_union fl (fl_union fl PageFlags_PRESENT PageFlags_WRITABLE) PageFlags_UNCACHEABLE) True ?s1 = Inr s2" "init_keeps r ?s1 s2"
      "card (free_frames ?s1) \<le> card (free_frames s2) + 3" "hba s2 = hba s" "ports s2 = ports s" "headers s2 = headers s" "ahci_devices s2 = ahci_devices s"
    unfolding same by blast
  let ?s3 = "s2\<lparr>hba := (hba s2)\<lparr>ghc := ghc (hba s2) OR 2\<rparr>\<rparr>"
  have dp: "disk_port ?s3 = disk_port s" using s2(5,6) by (simp add: disk_port_def fun_eq_iff)
  have space3: "kernel_space r ?s3" using init_keeps_space[OF s2(3) space1] by (simp add: kernel_space_def)
  have lists3: "lists_apart base ?s3" using assms(3) s2(6) unfolding lists_apart_def dp by simp
  have F3: "128 * length (disk_ports ?s3 32) \<le> card (free_frames ?s3)" unfolding dp using assms(8) s2(4) sp1 by simp
  from start_ports_ok[OF space3 assms(2) lists3 F3] obtain s' tab where
    s': "for_each 0 32 (start_port fl) ?s3 = Inr s'" "init_keeps r ?s3 s'" "ports_done base 32 tab ?s3 s'"
      "card (free_frames ?s3) \<le> card (free_frames s') + 128 * length (disk_ports s 32)" unfolding dp by blast
  have "capabilities (hba s2) AND push_bit 31 1 \<noteq> 0" using assms(7) and_bit_eq_0[of 31 "capabilities (hba s2)"] s2(5) by simp
  then have run: "ahci_init fl dev s = Inr s'" using assms(4) s2(1,2) s'(1) by (simp add: ahci_init_def Let_def)
  have sub: "free_frames ?s3 \<subseteq> free_frames s" using s2(3) sp1 by (simp add: init_keeps_def)
  have "ports_done base 32 tab s s'" using s'(3) s2(6,8) sub unfolding ports_done_def dp by auto
  moreover have "device_read dev 4 s' = device_read dev 4 s OR 6" using cmd s'(2) s2(3) by (simp add: init_keeps_def device_read_def pci_read_def)
  moreover have "kernel_space r s'" "disk s' = disk s" using init_keeps_space[OF s'(2) space3] s'(2) s2(3) same(8) by (simp_all add: init_keeps_def)
  moreover have "card (free_frames s) \<le> card (free_frames s') + 3 + 128 * length (disk_ports s 32)" using s'(4) s2(4) sp1 by simp
  moreover have "pci_devices s' = pci_devices s" "free_frames s' \<subseteq> free_frames s" "ahci_state.more s' = ahci_state.more s"
    using s'(2) s2(3) sub same(9,10) by (auto simp: init_keeps_def)
  ultimately show ?thesis using run by blast
qed



text \<open>A machine with 248 free frames and one idle disk behind a controller whose registers are at \<open>0xfebf1000\<close>.\<close>

definition cold_machine :: ahci_state where
  "cold_machine = (sample_machine (\<lambda>_. 0) ())\<lparr>page_allocator := Some \<lparr>bm_ptr = PHYS_BASE, bm_data = 0 # replicate 31 (- 1), bm_size = 32\<rparr>,
     kernel_vmm := Some \<lparr>pagemap = frame_addr 1, ranges = []\<rparr>, config_space := (\<lambda>_. 0)(config_address 0 3 0 0x24 := 0xfebf1000), ahci_devices := []\<rparr>"

definition sample_hba :: pci_device where
  "sample_hba = \<lparr>pd_bus = 0, pd_device = 3, pd_function = 0, pd_device_id = 0x2922, pd_vendor_id = 0x8086, pd_class = 1,
     pd_subclass = 6, pd_prog_if = 1, pd_revision = 0, pd_msi_offset = 0\<rparr>"

lemma cold_machine_space: "kernel_space 1 cold_machine" "free_frames cold_machine = {8..<256}"
proof -
  show fr: "free_frames cold_machine = {8..<256}" using upper_ones_many[of PHYS_BASE 31 32] by (simp add: free_frames_def cold_machine_def)
  have "load_bytes (\<lambda>_. 0) a 8 = replicate 8 0" for a by (rule nth_equalityI) auto
  then have "entries cold_machine f i = 0" for f i by (simp add: entries_def cold_machine_def sample_machine_def load_u64_def)
  then have "walk (entries cold_machine) q is = (if is = [] then Some q else None)" for q "is" by (cases "is") (auto simp: tbl_next_def)
  moreover have "pmm_wf cold_machine" by (simp add: pmm_wf_def cold_machine_def bm_wf_def bm_bits_def)
  ultimately have "aspace_ok cold_machine 1" by (auto simp: aspace_ok_def tree_wf_def fr split: if_splits)
  then show "kernel_space 1 cold_machine" by (simp add: kernel_space_def fr) (simp add: cold_machine_def)
qed


end
