(* ===== verification/Ext2_Mount.thy ===== *)
theory Ext2_Mount
  imports Ext2_Blocks Partitions
begin

text \<open>
  Finding file systems: what \<^verbatim>\<open>ext2::try_and_init\<close> makes of the superblock of a partition, and which headers \<^verbatim>\<open>partitions::scan\<close> takes for a
  partition table.
\<close>

definition superblock_at :: "(nat \<Rightarrow> u8) \<Rightarrow> u64 \<Rightarrow> superblock" where
  "superblock_at c lba = superblock_of (bytes_at c ((unat lba + 2) * 512) 84)"

lemma fetch_page:
  assumes "disk_ready hw p s" and "page_fits a n"
  shows "\<exists>bc s'. ahci_fetch hw 0 (of_nat a) n s = Inr (Inr (bc, bytes_at (disk s p) a n), s') \<and> disk_ready hw p s' \<and> same_kernel s s'
    \<and> disk s' = disk s"
proof -
  note f = page_fits_transfer[OF assms(2)]
  have "device_ready hw 0 p s" using assms(1) by (simp add: disk_ready_def)
  from fetch_ok[OF this f(1) disk_ready_room[OF assms(1) f(4,3)]] show ?thesis
    using disk_ready_same[OF _ _ assms(1)] unfolding f(2) by (fastforce simp: disk_bytes_at)
qed

text \<open>The file system a superblock describes.\<close>

definition fs_of :: "u64 \<Rightarrow> superblock \<Rightarrow> ext2_filesystem" where
  "fs_of lba sb = \<lparr>fs_superblock = sb, block_size = 1024 * 2 ^ unat (sb_block_size sb),
     block_group_cnt = ceil_div (unat (sb_block_cnt sb)) (unat (sb_blocks_per_group sb)), starting_lba = unat lba\<rparr>"

lemma ext2_new_ok:
  assumes "unat (sb_block_size sb) < 32" and "sb_blocks_per_group sb \<noteq> 0"
  shows "ext2_new lba sb = Inr (fs_of lba sb)"
proof -
  have "(2 :: nat) ^ unat (sb_block_size sb) < 2 ^ 32" using assms(1) by (intro power_strict_increasing) simp_all
  then have m: "1024 * 2 ^ unat (sb_block_size sb) mod usize_limit = 1024 * 2 ^ unat (sb_block_size sb)" by simp
  have "unat (sb_block_cnt sb) < 2 ^ 32" "unat (sb_blocks_per_group sb) < 2 ^ 32"
    using unat_less_limit[of "sb_block_cnt sb"] unat_less_limit[of "sb_blocks_per_group sb"] by simp_all
  moreover have "0 < unat (sb_blocks_per_group sb)" using assms(2) by (simp add: unat_gt_0)
  ultimately have "div_ceil (unat (sb_block_cnt sb)) (unat (sb_blocks_per_group sb))
      = Inr (ceil_div (unat (sb_block_cnt sb)) (unat (sb_blocks_per_group sb)))" by (intro div_ceil_eq) simp_all
  then show ?thesis using assms(1) unfolding ext2_new_def m by (simp add: fs_of_def)
qed

text \<open>One partition: the superblock is read, nothing but the mounted file system changes.\<close>

lemma try_and_init_run:
  fixes s :: "'z ext2_state_scheme"
  assumes "disk_ready hw p s" and "unat lba < 2 ^ 40"
  defines "sb \<equiv> superblock_at (disk s p) lba"
  shows "\<exists>s'. try_and_init hw lba s =
      (if sb_signature sb \<noteq> EXT2_SIGNATURE then Inr (Inl (), s')
       else if unat (sb_block_size sb) \<ge> 32 then Inl Overflow
       else bnd (ext2_new lba sb) (\<lambda>fs. Inr (Inr (), s'\<lparr>ext2_fs := Some fs\<rparr>)))
    \<and> disk_ready hw p s' \<and> same_kernel s s' \<and> disk s' = disk s"
proof -
  let ?a = "(unat lba + 2) * 512"
  have "page_fits ?a 84" using assms(2) by (simp add: page_fits_def)
  from fetch_page[OF assms(1) this] obtain bc s' where
    s': "ahci_fetch hw 0 (of_nat ?a) 84 s = Inr (Inr (bc, bytes_at (disk s p) ?a 84), s')" "disk_ready hw p s'" "same_kernel s s'" "disk s' = disk s"
    by blast
  have l: "wadd lba 2 = Inr (lba + 2)" "unat (lba + 2) = unat lba + 2" using assms(2) by (simp_all add: wadd_def unat_word_ariths)
  then have "wmul (lba + 2) 512 = Inr ((lba + 2) * 512)" using assms(2) by (simp add: wmul_def)
  moreover have "(lba + 2) * 512 = of_nat ?a" by simp
  ultimately have "wmul (lba + 2) 512 = Inr (of_nat ?a)" by simp
  then show ?thesis
    unfolding try_and_init_def l(1) bnd_Inr using s' by (intro exI[of _ s']) (simp add: sb_def superblock_at_def Let_def del: of_nat_mult of_nat_add)
qed

text \<open>
  C24. \<^verbatim>\<open>try_and_init\<close> decides by the superblock two sectors into the partition. Without the ext2 signature it returns the error and leaves the
  mounted file system alone; with it, the file system becomes the one the superblock describes. A block size field of 32 or more panics.
  The disk is never changed.
\<close>

theorem try_and_init_decides:
  fixes s :: "'z ext2_state_scheme"
  assumes "disk_ready hw p s" and "unat lba < 2 ^ 40"
  defines "sb \<equiv> superblock_at (disk s p) lba"
  shows "(sb_signature sb \<noteq> EXT2_SIGNATURE \<longrightarrow>
        (\<exists>s'. try_and_init hw lba s = Inr (Inl (), s') \<and> ext2_fs s' = ext2_fs s \<and> disk s' = disk s))
    \<and> (sb_signature sb = EXT2_SIGNATURE \<and> unat (sb_block_size sb) < 32 \<and> sb_blocks_per_group sb \<noteq> 0 \<longrightarrow>
        (\<exists>s'. try_and_init hw lba s = Inr (Inr (), s') \<and> ext2_fs s' = Some (fs_of lba sb) \<and> disk s' = disk s))
    \<and> (sb_signature sb = EXT2_SIGNATURE \<and> 32 \<le> unat (sb_block_size sb) \<longrightarrow> try_and_init hw lba s = Inl Overflow)"
proof -
  from try_and_init_run[OF assms(1,2)] obtain s' where s': "try_and_init hw lba s =
      (if sb_signature sb \<noteq> EXT2_SIGNATURE then Inr (Inl (), s')
       else if unat (sb_block_size sb) \<ge> 32 then Inl Overflow
       else bnd (ext2_new lba sb) (\<lambda>fs. Inr (Inr (), s'\<lparr>ext2_fs := Some fs\<rparr>)))" "same_kernel s s'" "disk s' = disk s"
    unfolding sb_def by blast
  then show ?thesis using same_kernel_ext2(1)[OF s'(2)] by (auto simp: ext2_new_ok)
qed

text \<open>A disk with a superblock for 16 blocks of 4096 bytes in groups of 8.\<close>

definition sample_volume :: "nat \<Rightarrow> u8" where
  "sample_volume x = (if x = 1028 then 16 else if x = 1048 then 2 else if x = 1056 then 8 else if x = 1080 then 0x53 else if x = 1081 then 0xef else 0)"

lemma sample_volume_fields:
  "sb_signature (superblock_at sample_volume 0) = 0xef53" "sb_block_size (superblock_at sample_volume 0) = 2"
  "sb_blocks_per_group (superblock_at sample_volume 0) = 8" "sb_block_cnt (superblock_at sample_volume 0) = 16"
  by (simp_all add: superblock_at_def superblock_of_def le_at_def take_drop_bytes_at) (simp_all add: bytes_at_def upt_rec sample_volume_def)

theorem try_and_init_decides_witness:
  "(\<exists>s' fs. try_and_init prompt_hba 0 (sample_ext2 sample_volume) = Inr (Inr (), s') \<and> ext2_fs s' = Some fs
      \<and> block_size fs = 4096 \<and> block_group_cnt fs = 2)
   \<and> (\<exists>s'. try_and_init prompt_hba 0 (sample_ext2 (\<lambda>_. 0)) = Inr (Inl (), s') \<and> ext2_fs s' = Some sample_fs)"
proof -
  have r: "disk_ready prompt_hba 0 (sample_ext2 d)" "ext2_fs (sample_ext2 d) = Some sample_fs" for d
    using sample_ext2_mounted[of d] by (simp_all add: mounted_def)
  have "sb_signature (superblock_at (\<lambda>_. 0) 0) = 0"
    by (simp add: superblock_at_def superblock_of_def le_at_def take_drop_bytes_at) (simp add: bytes_at_def upt_rec)
  then show ?thesis
    using try_and_init_decides[OF r(1)[of sample_volume], of 0] try_and_init_decides[OF r(1)[of "\<lambda>_. 0"], of 0]
    by (auto simp: sample_ext2_disk sample_volume_fields EXT2_SIGNATURE_def r(2) fs_of_def ceil_div_def)
qed

section \<open>The signature of a partition table\<close>

text \<open>
  The test of \<^verbatim>\<open>scan\<close> refuses a header only when it differs from the signature in every byte: a header that agrees in a single byte is
  taken for a partition table.
\<close>

lemma scan_accepts_one_byte:
  assumes "length (gh_signature h) = 8"
  shows "not_gpt h \<longleftrightarrow> (\<forall>i<8. gh_signature h ! i \<noteq> as_bytes ''EFI PART'' ! i)"
  using assms by (auto simp: not_gpt_def list_all_length as_bytes_def)

end
