(* ===== verification/Partition_Scan.thy ===== *)
theory Partition_Scan
  imports Ext2_Mount Ext2_Files
begin

text \<open>
  From the partition table to the mounted file system: \<^verbatim>\<open>partitions::scan\<close> reads the table into a box, tries every used entry as an ext2
  volume, and gives the box back.
\<close>

section \<open>The table on the disk\<close>

definition disk_header :: "(nat \<Rightarrow> u8) \<Rightarrow> gpt_header" where
  "disk_header c = gpt_header_of (bytes_at c 512 92)"

definition disk_entry :: "(nat \<Rightarrow> u8) \<Rightarrow> nat \<Rightarrow> gpt_partition_entry" where
  "disk_entry c i = gpt_entry_of (bytes_at c (unat (gh_start_lba (disk_header c)) * 512 + i * 128) 128)"

definition is_volume :: "(nat \<Rightarrow> u8) \<Rightarrow> gpt_partition_entry \<Rightarrow> bool" where
  "is_volume c e \<longleftrightarrow> gp_pt_guid e ! 0 \<noteq> 0 \<and> sb_signature (superblock_at c (gp_start_lba e)) = EXT2_SIGNATURE"

definition volume_fs :: "(nat \<Rightarrow> u8) \<Rightarrow> gpt_partition_entry \<Rightarrow> ext2_filesystem" where
  "volume_fs c e = fs_of (gp_start_lba e) (superblock_at c (gp_start_lba e))"

text \<open>The file system after a list of entries: the last ext2 volume wins.\<close>

definition mounted_after :: "(nat \<Rightarrow> u8) \<Rightarrow> gpt_partition_entry list \<Rightarrow> ext2_filesystem option \<Rightarrow> ext2_filesystem option" where
  "mounted_after c es v = (if filter (is_volume c) es = [] then v else Some (volume_fs c (last (filter (is_volume c) es))))"

lemma mounted_after_simps [simp]:
  "mounted_after c [] v = v"
  "mounted_after c (es @ [e]) v = (if is_volume c e then Some (volume_fs c e) else mounted_after c es v)"
  by (simp_all add: mounted_after_def)

text \<open>A table whose partitions are in reach and whose volumes have a sensible geometry.\<close>

definition entry_ok :: "(nat \<Rightarrow> u8) \<Rightarrow> gpt_partition_entry \<Rightarrow> bool" where
  "entry_ok c e \<longleftrightarrow> (gp_pt_guid e ! 0 \<noteq> 0 \<longrightarrow> unat (gp_start_lba e) < 2 ^ 40)
     \<and> (is_volume c e \<longrightarrow> unat (sb_block_size (superblock_at c (gp_start_lba e))) < 32
          \<and> sb_blocks_per_group (superblock_at c (gp_start_lba e)) \<noteq> 0)"

section \<open>The loop over the entries\<close>

lemma remount_frames [simp]: "free_frames (s\<lparr>ext2_fs := v\<rparr>) = free_frames s" "frame_cnt (s\<lparr>ext2_fs := v\<rparr>) = frame_cnt s"
  by (simp_all add: free_frames_def frame_cnt_def)

lemma same_kernel_remount: "same_kernel s t \<Longrightarrow> same_kernel (s\<lparr>ext2_fs := v\<rparr>) (t\<lparr>ext2_fs := v\<rparr>)" for s :: "'z ext2_state_scheme"
  by (cases s, cases t, simp add: same_kernel_def free_frames_def frame_cnt_def)

lemma disk_ready_remount [simp]: "disk_ready hw p (s\<lparr>ext2_fs := v\<rparr>) = disk_ready hw p s"
  by (simp add: disk_ready_def device_ready_def port_ready_def free_frames_def pmm_wf_def)

lemma try_entry:
  fixes t :: "'z ext2_state_scheme"
  assumes "disk_ready hw p t" and "same_kernel (s\<lparr>ext2_fs := v\<rparr>) t" and "disk t = disk s"
    and "gp_pt_guid e ! 0 \<noteq> 0" and "entry_ok (disk s p) e"
  shows "\<exists>r t'. try_and_init hw (gp_start_lba e) t = Inr (r, t') \<and> disk_ready hw p t' \<and> disk t' = disk s
    \<and> same_kernel (s\<lparr>ext2_fs := if is_volume (disk s p) e then Some (volume_fs (disk s p) e) else v\<rparr>) t'"
proof -
  let ?sb = "superblock_at (disk s p) (gp_start_lba e)"
  have lba: "unat (gp_start_lba e) < 2 ^ 40" using assms(4,5) by (simp add: entry_ok_def)
  from try_and_init_run[OF assms(1) lba] obtain t' where t': "try_and_init hw (gp_start_lba e) t =
      (if sb_signature ?sb \<noteq> EXT2_SIGNATURE then Inr (Inl (), t')
       else if unat (sb_block_size ?sb) \<ge> 32 then Inl Overflow
       else bnd (ext2_new (gp_start_lba e) ?sb) (\<lambda>fs. Inr (Inr (), t'\<lparr>ext2_fs := Some fs\<rparr>)))"
    "disk_ready hw p t'" "same_kernel t t'" "disk t' = disk s" unfolding assms(3) by blast
  have sk: "same_kernel (s\<lparr>ext2_fs := v\<rparr>) t'" using assms(2) t'(3) by (rule same_kernel_trans)
  show ?thesis
  proof (cases "is_volume (disk s p) e")
    case True
    then have "try_and_init hw (gp_start_lba e) t = Inr (Inr (), t'\<lparr>ext2_fs := Some (volume_fs (disk s p) e)\<rparr>)"
      using t'(1) assms(5) by (simp add: entry_ok_def is_volume_def ext2_new_ok volume_fs_def)
    then show ?thesis using True t'(2,4) same_kernel_remount[OF sk, of "Some (volume_fs (disk s p) e)"] by simp
  next
    case False
    then show ?thesis using t' sk assms(4) by (simp add: is_volume_def)
  qed
qed

text \<open>Memory of frames that are in use.\<close>

lemma load_kept:
  assumes "f + k \<le> 2 ^ 35" and "{f..<f + k} \<inter> F = {}" and "q + n \<le> k * 4096" and "\<And>x. unat x div 4096 \<notin> F \<Longrightarrow> m' x = m x"
  shows "load_bytes m' (direct (kptr f) + of_nat q) n = load_bytes m (direct (kptr f) + of_nat q) n"
proof (rule nth_equalityI)
  fix j assume "j < length (load_bytes m' (direct (kptr f) + of_nat q) n)"
  then have j: "j < n" by simp
  then have f35: "f < 2 ^ 35" "f * 4096 + (q + j) < 2 ^ 64" using assms(1,3) by auto
  have "unat (of_nat f * PAGE_SIZE + of_nat (q + j) :: u64) = f * 4096 + (q + j)"
    using unat_plus_no_wrap[of "of_nat f * PAGE_SIZE" "q + j"] f35 by (simp add: unat_frame_addr)
  then have "unat (of_nat f * PAGE_SIZE + of_nat (q + j) :: u64) div 4096 = f + (q + j) div 4096" by simp
  moreover have "(q + j) div 4096 < k" using assms(3) j by (simp add: div_less_iff_less_mult)
  ultimately have "m' (of_nat f * PAGE_SIZE + of_nat (q + j)) = m (of_nat f * PAGE_SIZE + of_nat (q + j))"
    using assms(2) by (intro assms(4)) (metis IntI atLeastLessThan_iff empty_iff le_add1 nat_add_left_cancel_less)
  then show "load_bytes m' (direct (kptr f) + of_nat q) n ! j = load_bytes m (direct (kptr f) + of_nat q) n ! j"
    using j by (simp add: direct_kptr[OF f35(1)] add.assoc)
qed simp

lemma scan_entries_ok:
  fixes s :: "'z ext2_state_scheme"
  assumes dr: "disk_ready hw p s" and f: "f + k \<le> 2 ^ 35" "{f..<f + k} \<inter> free_frames s = {}" and n: "unat n * 128 \<le> k * 4096"
    and buf: "load_bytes (mem s) (direct (kptr f)) (unat n * 128) = bytes_at (disk s p) (unat (gh_start_lba (disk_header (disk s p))) * 512) (unat n * 128)"
    and ok: "\<And>i. i < unat n \<Longrightarrow> entry_ok (disk s p) (disk_entry (disk s p) i)"
  shows "\<exists>t. scan_entries hw (kptr f) n s = Inr t \<and> disk_ready hw p t \<and> disk t = disk s
    \<and> same_kernel (s\<lparr>ext2_fs := mounted_after (disk s p) (map (disk_entry (disk s p)) [0..<unat n]) (ext2_fs s)\<rparr>) t"
proof -
  let ?c = "disk s p"
  let ?v = "\<lambda>i. mounted_after ?c (map (disk_entry ?c) [0..<i]) (ext2_fs s)"
  let ?P = "\<lambda>i t. disk_ready hw p t \<and> disk t = disk s \<and> same_kernel (s\<lparr>ext2_fs := ?v i\<rparr>) t"
  have entry: "gpt_entry_of (load_bytes (mem t) (direct (kptr f + of_nat (i * 128))) 128) = disk_entry ?c i"
    if i: "i < unat n" and t: "?P i t" for i t
  proof -
    have le: "i * 128 + 128 \<le> unat n * 128" using i by simp
    have d: "direct (kptr f + of_nat (i * 128)) = direct (kptr f) + of_nat (i * 128)"
      using f(1) n le by (intro direct_kptr_offset) simp
    have kept: "load_bytes (mem t) (direct (kptr f) + of_nat (i * 128)) 128 = load_bytes (mem s) (direct (kptr f) + of_nat (i * 128)) 128"
      using f t n le by (intro load_kept[where F = "free_frames s"]) (auto simp: same_kernel_def)
    show ?thesis
      unfolding d kept load_part[OF buf le] using take_drop_bytes_at[OF le, of ?c] by (simp add: disk_entry_def)
  qed
  have "\<exists>t'. (let entry = gpt_entry_of (load_bytes (mem t) (direct (kptr f + of_nat (i * 128))) 128) in
       if gp_pt_guid entry ! 0 = 0 then Inr t else bnd (try_and_init hw (gp_start_lba entry) t) (\<lambda>(_, s). Inr s)) = Inr t' \<and> ?P (Suc i) t'"
    if i: "0 \<le> i" "i < unat n" and t: "?P i t" for i t
  proof (cases "gp_pt_guid (disk_entry ?c i) ! 0 = 0")
    case True
    then show ?thesis using t unfolding entry[OF i(2) t] Let_def by (simp add: is_volume_def)
  next
    case False
    from t try_entry[where hw = hw and t = t and s = s and v = "?v i", OF _ _ _ False ok[OF i(2)]] obtain r t' where
      "try_and_init hw (gp_start_lba (disk_entry ?c i)) t = Inr (r, t')" "?P (Suc i) t'" by auto
    then show ?thesis using False unfolding entry[OF i(2) t] Let_def by auto
  qed
  from for_each_inv[where P = ?P and s = s and a = 0 and b = "unat n", OF this] dr show ?thesis by (auto simp: scan_entries_def)
qed

section \<open>The whole scan\<close>

lemma aligned_transfer:
  assumes "0 < n" "n \<le> 8192 * 512" and "a < 2 ^ 48"
  shows "transfer_fits (of_nat (a * 512)) n" "unat (of_nat (a * 512) :: u64) = a * 512"
proof -
  show u: "unat (of_nat (a * 512) :: u64) = a * 512" using assms(3) by (intro unat_of_nat_small) simp
  have "sectors_of (of_nat (a * 512)) n = ceil_div n 512" unfolding sectors_of_def u by simp
  moreover have "ceil_div n 512 \<le> 8192" using assms(2) by (intro ceil_div_least) simp_all
  moreover have "n \<le> ceil_div n 4096 * 8 * 512" using ceil_div_le[of 4096 n] by simp
  then have "ceil_div n 512 \<le> ceil_div n 4096 * 8" by (intro ceil_div_least) simp_all
  ultimately show "transfer_fits (of_nat (a * 512)) n" using assms u by (simp add: transfer_fits_def)
qed

text \<open>A box for the table, filled from the disk: the frames behind the run stay free for the buffers of the driver.\<close>

lemma drop_table:
  fixes s :: "'z ext2_state_scheme"
  assumes t: "disk_ready hw p t" "same_kernel (s2\<lparr>ext2_fs := v\<rparr>) t" and f: "f < 2 ^ 35" "f + k \<le> frame_cnt t" "{f..<f + k} \<subseteq> free_frames s"
    and s2: "free_frames s2 = free_frames s - {f..<f + k}" "frame_cnt s2 = frame_cnt s" "ahci_devices s2 = ahci_devices s"
      "kernel_vmm s2 = kernel_vmm s" "ahci_state.more s2 = ahci_state.more s" "\<And>x. unat x div 4096 \<notin> free_frames s \<Longrightarrow> mem s2 x = mem s x"
    and z: "0 \<notin> free_frames s"
  shows "\<exists>t'. pmm_box_drop \<lparr>box_data = kptr f, page_cnt = k\<rparr> t = Inr t' \<and> disk_ready hw p t' \<and> disk t' = disk t \<and> same_kernel (s\<lparr>ext2_fs := v\<rparr>) t'"
proof -
  have wf: "pmm_wf t" using t(1) by (simp add: disk_ready_def device_ready_def)
  from drop_box[OF wf, of "\<lparr>box_data = kptr f, page_cnt = k\<rparr>" f] f obtain t' where t': "pmm_box_drop \<lparr>box_data = kptr f, page_cnt = k\<rparr> t = Inr t'"
    "free_frames t' = free_frames t \<union> {f..<f + k}" "pmm_wf t'" "frame_cnt t' = frame_cnt t" "mem t' = mem t" "pmm_state.more t' = pmm_state.more t" by auto
  note same = ahci_more_fields[OF t'(6)]
  have ff: "free_frames t' = free_frames s" using t'(2) t(2) s2(1) f(3) by (auto simp: same_kernel_def)
  have more: "ahci_state.more (s2\<lparr>ext2_fs := v\<rparr>) = ahci_state.more (s\<lparr>ext2_fs := v\<rparr>)" using s2(5) by (cases s, cases s2) simp
  have "same_kernel (s\<lparr>ext2_fs := v\<rparr>) t'"
    using t(2) t'(4,5) same ff more s2 by (simp add: same_kernel_def)
  moreover have "disk_ready hw p t'"
    using t(1) t'(2,3) same port_ready_more[OF t'(6)] ff z by (auto simp: disk_ready_def device_ready_def)
  ultimately show ?thesis using t'(1) same(5) by blast
qed

lemma table_box:
  fixes s :: "'z ext2_state_scheme"
  assumes dr: "disk_ready hw p s" and n: "0 < n" "n \<le> 8192 * 512" and st: "a < 2 ^ 48"
    and run: "{q..<q + 2 * ceil_div n 4096} \<subseteq> free_frames s"
  shows "\<exists>f s1 bc s2. pmm_box_new n s = Inr (\<lparr>box_data = kptr f, page_cnt = ceil_div n 4096\<rparr>, s1)
    \<and> ahci_read hw 0 (of_nat (a * 512)) n (kptr f) s1 = Inr (Inr bc, s2) \<and> disk_ready hw p s2 \<and> disk s2 = disk s
    \<and> load_bytes (mem s2) (direct (kptr f)) n = bytes_at (disk s p) (a * 512) n
    \<and> f + ceil_div n 4096 \<le> 2 ^ 35 \<and> {f..<f + ceil_div n 4096} \<inter> free_frames s2 = {}
    \<and> ext2_fs s2 = ext2_fs s
    \<and> (\<forall>t v. same_kernel (s2\<lparr>ext2_fs := v\<rparr>) t \<and> disk_ready hw p t \<longrightarrow>
        (\<exists>t'. pmm_box_drop \<lparr>box_data = kptr f, page_cnt = ceil_div n 4096\<rparr> t = Inr t' \<and> disk_ready hw p t' \<and> disk t' = disk t
          \<and> same_kernel (s\<lparr>ext2_fs := v\<rparr>) t'))"
proof -
  let ?k = "ceil_div n 4096"
  have k: "0 < ?k" using ceil_div_le[of 4096 n] n(1) by (auto intro: gr0I)
  have wf: "pmm_wf s" and F0: "0 \<notin> free_frames s" and dv: "device_ready hw 0 p s" using dr by (simp_all add: disk_ready_def device_ready_def)
  have n60: "n < 2 ^ 60" using n(2) by simp
  have run1: "{q..<q + ?k} \<subseteq> free_frames s" using run by auto
  from first_fit_run[OF wf F0 run1 k] obtain f0 where f0: "first_fit (free_frames s) (frame_cnt s) ?k = Some f0" "0 < f0" "f0 \<le> q" by blast
  from box_new_at[OF wf f0(1,2) n60] obtain s1 where box: "pmm_box_new n s = Inr (\<lparr>box_data = kptr f0, page_cnt = ?k\<rparr>, s1)" by blast
  from box_new_effect[OF wf box n60] obtain f where f: "kptr f0 = kptr f" "f + ?k \<le> frame_cnt s" "f + ?k \<le> 2 ^ 35"
      "{f..<f + ?k} \<subseteq> free_frames s" "free_frames s1 = free_frames s - {f..<f + ?k}" "frame_cnt s1 = frame_cnt s" "pmm_wf s1"
      "mem s1 = fill_bytes (mem s) (of_nat f * PAGE_SIZE) 0 (?k * 4096)" "pmm_state.more s1 = pmm_state.more s" by auto
  have f35: "f < 2 ^ 35" using f(3) k by linarith
  have "f0 + ?k \<le> frame_cnt s" using pmm_alloc_first_fit[OF wf, of ?k] f0(1) by simp
  then have "f0 < 2 ^ 35" using pmm_wf_cap[OF wf] k by linarith
  then have ff: "f0 = f" using f(1) kptr_inject f35 by blast
  note same = ahci_more_fields[OF f(9)]
  have dv1: "device_ready hw 0 p s1" using dv f(7) same port_ready_more[OF f(9)] by (simp add: device_ready_def)
  have run2: "{q + ?k..<q + ?k + ?k} \<subseteq> free_frames s1" using run f(5) f0(3) ff by auto
  have F01: "0 \<notin> free_frames s1" using F0 f(5) by simp
  note fit = aligned_transfer[OF n st]
  from read_ok[OF dv1 fit(1) box_room_run[OF f(7) F01 run2 k], of "kptr f"] obtain s2 where
    s2: "ahci_read hw 0 (of_nat (a * 512)) n (kptr f) s1 = Inr (Inr (sectors_of (of_nat (a * 512)) n * 512), s2)"
      "load_bytes (mem s2) (direct (kptr f)) n = disk_bytes p (a * 512) n s1" "disk s2 = disk s1" "free_frames s2 = free_frames s1"
      "frame_cnt s2 = frame_cnt s1" "device_ready hw 0 p s2" "ahci_devices s2 = ahci_devices s1" "kernel_vmm s2 = kernel_vmm s1"
      "ahci_state.more s2 = ahci_state.more s1"
      "\<And>x. unat x div 4096 \<notin> free_frames s1 \<Longrightarrow> n \<le> unat (x - direct (kptr f)) \<Longrightarrow> mem s2 x = mem s1 x" unfolding fit(2) by blast
  have dr2: "disk_ready hw p s2" using s2(4,6) F01 run2 k by (auto simp: disk_ready_def)
  have drop: "\<exists>t'. pmm_box_drop \<lparr>box_data = kptr f, page_cnt = ?k\<rparr> t = Inr t' \<and> disk_ready hw p t' \<and> disk t' = disk t \<and> same_kernel (s\<lparr>ext2_fs := v\<rparr>) t'"
    if t: "same_kernel (s2\<lparr>ext2_fs := v\<rparr>) t" "disk_ready hw p t" for t v
  proof -
    have mem2: "mem s2 x = mem s x" if x: "unat x div 4096 \<notin> free_frames s" for x
    proof -
      have out: "unat x div 4096 \<notin> {f..<f + ?k}" using x f(4) by blast
      have "?k * 4096 \<le> unat (x - direct (kptr f))" using outside_frames[OF f(3) out k] by (simp add: direct_kptr[OF f35])
      then have "mem s2 x = mem s1 x" using x f(5) ceil_div_le[of 4096 n] by (intro s2(10)) auto
      then show ?thesis using box_store_frame[OF f(3) _ out, of "[]" "mem s"] by (simp add: f(8) store_bytes_def)
    qed
    have "same_kernel (s2\<lparr>ext2_fs := v\<rparr>) t \<and> f + ?k \<le> frame_cnt t" using t(1) s2(5) f(2,6) by (simp add: same_kernel_def)
    then show ?thesis
      using drop_table[where s = s and ?s2.0 = s2 and f = f and k = ?k, OF t(2,1)] F0 mem2 f(4,5) f35 s2(4,5,7-9) same t(1) f(6) by simp
  qed
  have "load_bytes (mem s2) (direct (kptr f)) n = bytes_at (disk s p) (a * 512) n" using s2(2) same(5) by (simp add: disk_bytes_at)
  moreover have "{f..<f + ?k} \<inter> free_frames s2 = {}" using s2(4) f(5) by auto
  moreover have "ahci_state.more s2 = ahci_state.more s" using s2(9) same(7) by simp
  then have "ext2_fs s2 = ext2_fs s" by (cases s, cases s2) simp
  ultimately show ?thesis using box ff s2(1,3) dr2 same(5) f(3) drop by metis
qed

lemma header_fetch:
  assumes "disk_ready hw p s"
  shows "\<exists>bc s'. ahci_fetch hw 0 512 92 s = Inr (Inr (bc, bytes_at (disk s p) 512 92), s') \<and> disk_ready hw p s' \<and> same_kernel s s' \<and> disk s' = disk s"
  using fetch_page[OF assms, of 512 92] by (simp add: page_fits_def)

lemma scan_gpt_ok:
  fixes s :: "'z ext2_state_scheme"
  assumes dr: "disk_ready hw p s"
  defines "c \<equiv> disk s p"
  defines "n \<equiv> unat (gh_partition_entries (disk_header c))"
  assumes h: "\<not> not_gpt (disk_header c)" "0 < n" "n \<le> 32768" "unat (gh_start_lba (disk_header c)) < 2 ^ 48"
    and run: "{q..<q + 2 * ceil_div (n * 128) 4096} \<subseteq> free_frames s" and ok: "\<forall>i<n. entry_ok c (disk_entry c i)"
  shows "\<exists>s'. scan hw s = Inr (Inr (), s') \<and> same_kernel (s\<lparr>ext2_fs := mounted_after c (map (disk_entry c) [0..<n]) (ext2_fs s)\<rparr>) s'
    \<and> disk s' = disk s \<and> disk_ready hw p s'"
proof -
  let ?a = "unat (gh_start_lba (disk_header c))" and ?k = "ceil_div (n * 128) 4096"
  let ?b = "\<lambda>f. \<lparr>box_data = kptr f, page_cnt = ?k\<rparr>" and ?v = "mounted_after c (map (disk_entry c) [0..<n]) (ext2_fs s)"
  from header_fetch[OF dr] obtain bc s0 where s0: "ahci_fetch hw 0 512 92 s = Inr (Inr (bc, bytes_at c 512 92), s0)"
    "disk_ready hw p s0" "same_kernel s s0" "disk s0 = disk s" unfolding c_def by blast
  have b: "0 < n * 128" "n * 128 \<le> 8192 * 512" using h(2,3) by simp_all
  have run0: "{q..<q + 2 * ?k} \<subseteq> free_frames s0" using run s0(3) by (simp add: same_kernel_def)
  from table_box[OF s0(2) b h(4) run0] obtain f s1 bc s2 where
    t: "pmm_box_new (n * 128) s0 = Inr (?b f, s1)"
      "ahci_read hw 0 (of_nat (?a * 512)) (n * 128) (kptr f) s1 = Inr (Inr bc, s2)" "disk_ready hw p s2" "disk s2 = disk s"
      "load_bytes (mem s2) (direct (kptr f)) (n * 128) = bytes_at c (?a * 512) (n * 128)"
      "f + ?k \<le> 2 ^ 35" "{f..<f + ?k} \<inter> free_frames s2 = {}" "ext2_fs s2 = ext2_fs s0"
      "\<And>t v. same_kernel (s2\<lparr>ext2_fs := v\<rparr>) t \<Longrightarrow> disk_ready hw p t \<Longrightarrow>
        \<exists>t'. pmm_box_drop (?b f) t = Inr t' \<and> disk_ready hw p t' \<and> disk t' = disk t \<and> same_kernel (s0\<lparr>ext2_fs := v\<rparr>) t'"
    unfolding s0(4) c_def by blast
  have fs2: "ext2_fs s2 = ext2_fs s" using t(8) same_kernel_ext2(1)[OF s0(3)] by simp
  from scan_entries_ok[OF t(3,6,7), of "gh_partition_entries (disk_header c)"] t(4,5) ok ceil_div_le[of 4096 "n * 128"] obtain s3 where
    s3: "scan_entries hw (kptr f) (gh_partition_entries (disk_header c)) s2 = Inr s3" "disk_ready hw p s3" "disk s3 = disk s"
      "same_kernel (s2\<lparr>ext2_fs := ?v\<rparr>) s3" unfolding n_def c_def fs2 by auto
  from t(9)[OF s3(4,2)] obtain s4 where
    s4: "pmm_box_drop (?b f) s3 = Inr s4" "disk_ready hw p s4" "disk s4 = disk s3" "same_kernel (s0\<lparr>ext2_fs := ?v\<rparr>) s4" by blast
  have "umul n 128 = Inr (n * 128)" using h(3) by (simp add: umul_def)
  moreover have "wmul (gh_start_lba (disk_header c)) 512 = Inr (of_nat (?a * 512))" using h(4) by (simp add: wmul_def)
  ultimately have "scan hw s = Inr (Inr (), s4)"
    using s0(1) h(1) t(1,2) s3(1) s4(1) by (simp add: scan_def n_def disk_header_def Let_def)
  then show ?thesis using s4 s3(3) same_kernel_trans[OF same_kernel_remount[OF s0(3)] s4(4)] by auto
qed

text \<open>
  C16. \<^verbatim>\<open>partitions::scan\<close> on a ready disk. When the header in the second sector does not agree with the signature in any byte, the scan
  ends in the \<^verbatim>\<open>todo!\<close> of \<^verbatim>\<open>scan_mbr\<close>. Otherwise, for a table of 1 to 32768 entries whose used entries are in reach and with free frames for the
  table and the buffer of the driver, it returns \<^verbatim>\<open>Ok\<close>: the mounted file system is the one of the last used entry with an ext2 superblock
  (the one from before when there is none), the disk, the free frames and the memory in use are as they were, and the disk is
  ready for the file system.
\<close>

theorem scan_mounts_last_volume:
  fixes s :: "'z ext2_state_scheme"
  assumes "disk_ready hw p s"
  defines "c \<equiv> disk s p"
  defines "n \<equiv> unat (gh_partition_entries (disk_header c))"
  shows "(not_gpt (disk_header c) \<longrightarrow> scan hw s = Inl (Panicked ''not yet implemented''))
    \<and> (\<not> not_gpt (disk_header c) \<and> 0 < n \<and> n \<le> 32768 \<and> unat (gh_start_lba (disk_header c)) < 2 ^ 48
        \<and> {q..<q + 2 * ceil_div (n * 128) 4096} \<subseteq> free_frames s \<and> (\<forall>i<n. entry_ok c (disk_entry c i)) \<longrightarrow>
       (\<exists>s'. scan hw s = Inr (Inr (), s') \<and> ext2_fs s' = mounted_after c (map (disk_entry c) [0..<n]) (ext2_fs s)
          \<and> disk s' = disk s \<and> disk_ready hw p s' \<and> free_frames s' = free_frames s
          \<and> (\<forall>x. unat x div 4096 \<notin> free_frames s \<longrightarrow> mem s' x = mem s x)))"
proof (rule conjI; rule impI)
  assume "not_gpt (disk_header c)"
  then show "scan hw s = Inl (Panicked ''not yet implemented'')"
    using header_fetch[OF assms(1)] by (auto simp: scan_def disk_header_def scan_mbr_def c_def)
next
  assume "\<not> not_gpt (disk_header c) \<and> 0 < n \<and> n \<le> 32768 \<and> unat (gh_start_lba (disk_header c)) < 2 ^ 48
    \<and> {q..<q + 2 * ceil_div (n * 128) 4096} \<subseteq> free_frames s \<and> (\<forall>i<n. entry_ok c (disk_entry c i))"
  then obtain s' where s': "scan hw s = Inr (Inr (), s')"
      "same_kernel (s\<lparr>ext2_fs := mounted_after c (map (disk_entry c) [0..<n]) (ext2_fs s)\<rparr>) s'" "disk s' = disk s" "disk_ready hw p s'"
    using scan_gpt_ok[OF assms(1), of q] unfolding n_def c_def by blast
  then show "\<exists>s'. scan hw s = Inr (Inr (), s') \<and> ext2_fs s' = mounted_after c (map (disk_entry c) [0..<n]) (ext2_fs s)
      \<and> disk s' = disk s \<and> disk_ready hw p s' \<and> free_frames s' = free_frames s
      \<and> (\<forall>x. unat x div 4096 \<notin> free_frames s \<longrightarrow> mem s' x = mem s x)"
    using same_kernel_ext2(1)[OF s'(2)] by (simp add: same_kernel_def)
qed

text \<open>A disk with a table of two entries at sector 2, the first unused, the second the volume of a superblock at sector 10.\<close>

definition sample_gpt :: "nat \<Rightarrow> u8" where
  "sample_gpt x = (if x = 512 then 69 else if x = 584 then 2 else if x = 592 then 2 else if x = 1152 then 1 else if x = 1184 then 8
     else if 5120 \<le> x then sample_volume (x - 4096) else 0)"

lemma sample_gpt_fields:
  "gh_start_lba (disk_header sample_gpt) = 2" "gh_partition_entries (disk_header sample_gpt) = 2"
  "gp_pt_guid (disk_entry sample_gpt 0) ! 0 = 0" "gp_pt_guid (disk_entry sample_gpt 1) ! 0 = 1" "gp_start_lba (disk_entry sample_gpt 1) = 8"
proof -
  show h: "gh_start_lba (disk_header sample_gpt) = 2" "gh_partition_entries (disk_header sample_gpt) = 2"
    by (simp_all add: disk_header_def gpt_header_of_def le_at_def take_drop_bytes_at) (simp_all add: bytes_at_def upt_rec sample_gpt_def)
  show "gp_pt_guid (disk_entry sample_gpt 0) ! 0 = 0" "gp_pt_guid (disk_entry sample_gpt 1) ! 0 = 1" "gp_start_lba (disk_entry sample_gpt 1) = 8"
    by (simp_all add: disk_entry_def h gpt_entry_of_def le_at_def take_drop_bytes_at)
      (simp_all add: bytes_at_def upt_rec sample_gpt_def)
qed

lemma sample_gpt_signature: "\<not> not_gpt (disk_header sample_gpt)"
  by (simp add: not_gpt_def disk_header_def gpt_header_of_def bytes_at_def upt_rec as_bytes_def sample_gpt_def)

lemma sample_gpt_volume: "superblock_at sample_gpt 8 = superblock_at sample_volume 0"
proof -
  have "bytes_at sample_gpt 5120 84 = bytes_at sample_volume 1024 84"
    by (rule nth_equalityI) (simp_all add: sample_gpt_def)
  then show ?thesis by (simp add: superblock_at_def)
qed

theorem scan_mounts_last_volume_witness:
  "\<exists>s' fs. scan prompt_hba (sample_ext2 sample_gpt) = Inr (Inr (), s') \<and> ext2_fs s' = Some fs \<and> starting_lba fs = 8 \<and> block_size fs = 4096"
proof -
  have r: "disk_ready prompt_hba 0 (sample_ext2 sample_gpt)" using sample_ext2_mounted[of sample_gpt] by (simp add: mounted_def)
  note g = sample_gpt_fields sample_gpt_signature sample_gpt_volume sample_volume_fields
  have v: "\<not> is_volume sample_gpt (disk_entry sample_gpt 0)" "is_volume sample_gpt (disk_entry sample_gpt 1)"
    using g by (simp_all add: is_volume_def EXT2_SIGNATURE_def)
  then have e: "entry_ok sample_gpt (disk_entry sample_gpt 0)" "entry_ok sample_gpt (disk_entry sample_gpt 1)"
    using g by (simp_all add: entry_ok_def)
  have i2: "i < 2 \<longleftrightarrow> i = 0 \<or> i = 1" for i :: nat by auto
  have k: "ceil_div 256 4096 = 1" by (simp add: ceil_div_def)
  have "filter (is_volume sample_gpt) (map (disk_entry sample_gpt) [0..<2]) = [disk_entry sample_gpt 1]" using v by (simp add: upt_rec)
  then have "mounted_after sample_gpt (map (disk_entry sample_gpt) [0..<2]) v = Some (volume_fs sample_gpt (disk_entry sample_gpt 1))" for v
    by (simp add: mounted_after_def)
  moreover have "starting_lba (volume_fs sample_gpt (disk_entry sample_gpt 1)) = 8" "block_size (volume_fs sample_gpt (disk_entry sample_gpt 1)) = 4096"
    using g by (simp_all add: volume_fs_def fs_of_def)
  ultimately show ?thesis
    using scan_mounts_last_volume[OF r, of 8] e by (auto simp: sample_ext2_disk sample_ext2_free k i2 g)
qed

end
