(* ===== verification/Storage.thy ===== *)
theory Storage
  imports Boot Ahci_Start Partition_Scan
begin

text \<open>
  From the PCI bus to a file: the enumeration finds the disk controller and starts its driver, the scan of the partition table finds the ext2
  volume, and a file of it is opened and read.
\<close>

section \<open>Enough frames in a row\<close>

text \<open>Fewer than \<open>m\<close> frames cannot touch each of \<open>m\<close> blocks.\<close>

lemma run_avoids:
  fixes a :: nat
  assumes "finite R" and "card R < m"
  shows "\<exists>q. a \<le> q \<and> q + l \<le> a + m * l \<and> {q..<q + l} \<inter> R = {}"
proof (cases "l = 0")
  case True
  then show ?thesis by auto
next
  case False
  have "\<not> {..<m} \<subseteq> (\<lambda>x. (x - a) div l) ` R" using assms card_mono[of "(\<lambda>x. (x - a) div l) ` R" "{..<m}"] card_image_le[OF assms(1), of "\<lambda>x. (x - a) div l"] by auto
  then obtain j where j: "j < m" "\<And>x. x \<in> R \<Longrightarrow> (x - a) div l \<noteq> j" by auto
  have "x \<notin> R" if "x \<in> {a + j * l..<a + j * l + l}" for x
  proof -
    have "x - a = j * l + (x - a - j * l)" "x - a - j * l < l" using that by auto
    then have "(x - a) div l = j" using False by (metis add.right_neutral div_less div_mult_self3)
    then show ?thesis using j(2) by blast
  qed
  moreover have "j * l + l \<le> m * l" using j(1) mult_le_mono1[of "Suc j" m l] by simp
  ultimately show ?thesis by (intro exI[of _ "a + j * l"]) auto
qed

text \<open>
  A row of \<open>m\<close> blocks of \<open>l\<close> frames, so many blocks that after \<open>n\<close> more frames are taken a block is still free.
\<close>

definition frames_left :: "nat \<Rightarrow> nat \<Rightarrow> nat \<Rightarrow> nat set \<Rightarrow> bool" where
  "frames_left n m l F \<longleftrightarrow> finite F \<and> (\<exists>a. card ({a..<a + m * l} - F) + n < m)"

lemma frames_left_interval: "n < m \<Longrightarrow> a + m * l \<le> b \<Longrightarrow> frames_left n m l {a..<b}"
proof -
  assume "n < m" "a + m * l \<le> b"
  then have "{a..<a + m * l} - {a..<b} = {}" by auto
  then show ?thesis using \<open>n < m\<close> unfolding frames_left_def by (intro conjI exI[of _ a]) (simp_all only: finite_atLeastLessThan card.empty add_0)
qed

lemma frames_left_take:
  assumes "frames_left (n + k) m l F" and "F' \<subseteq> F" and "card F \<le> card F' + k"
  shows "frames_left n m l F'"
proof -
  from assms(1) obtain a where a: "card ({a..<a + m * l} - F) + (n + k) < m" "finite F" by (auto simp: frames_left_def)
  have "card (F - F') \<le> k" using assms(3) card_Diff_subset[OF finite_subset[OF assms(2) a(2)] assms(2)] by simp
  moreover have "card ({a..<a + m * l} - F') \<le> card (({a..<a + m * l} - F) \<union> (F - F'))" using a(2) by (intro card_mono) auto
  then have "card ({a..<a + m * l} - F') \<le> card ({a..<a + m * l} - F) + card (F - F')" using card_Un_le le_trans by blast
  ultimately show ?thesis using a finite_subset[OF assms(2)] unfolding frames_left_def by (intro conjI exI[of _ a]) simp_all
qed

lemma frames_left_run:
  assumes "frames_left n m l F"
  shows "\<exists>q. {q..<q + l} \<subseteq> F"
proof -
  from assms obtain a where "card ({a..<a + m * l} - F) + n < m" by (auto simp: frames_left_def)
  then have a: "card ({a..<a + m * l} - F) < m" by simp
  from run_avoids[OF _ a, of a l] obtain q where "a \<le> q" "q + l \<le> a + m * l" "{q..<q + l} \<inter> ({a..<a + m * l} - F) = {}" by auto
  then have "{q..<q + l} \<subseteq> F" by fastforce
  then show ?thesis by blast
qed

lemma frames_left_card:
  assumes "frames_left n m l F" and "0 < l"
  shows "n < card F"
proof -
  from assms(1) obtain a where a: "card ({a..<a + m * l} - F) + n < m" "finite F" by (auto simp: frames_left_def)
  have "m \<le> card {a..<a + m * l}" using assms(2) by simp
  also have "\<dots> \<le> card (({a..<a + m * l} - F) \<union> F)" using a(2) by (intro card_mono) auto
  also have "\<dots> \<le> card ({a..<a + m * l} - F) + card F" by (rule card_Un_le)
  finally show ?thesis using a(1) by linarith
qed

section \<open>Starting the controller\<close>

definition is_controller :: "pci_device \<Rightarrow> bool" where
  "is_controller d \<longleftrightarrow> pd_class d = 0x1 \<and> pd_subclass d = 0x6 \<and> pd_prog_if d = 0x1"

lemma enumerate_one:
  assumes "scan_devices s = Inr s1" and "filter is_controller (pci_devices s1) = [dev]" and "ahci_init fl dev s1 = Inr s'"
    and "pci_devices s' = pci_devices s1"
  shows "enumerate_devices fl s = Inr s'"
proof -
  from assms(2) obtain us vs where l: "pci_devices s1 = us @ dev # vs" "\<forall>d\<in>set us. \<not> is_controller d" "is_controller dev" "[] = filter is_controller vs"
    by (auto simp: filter_eq_Cons_iff)
  have vs: "\<not> is_controller d" if "d \<in> set vs" for d using that l(4)[symmetric] unfolding filter_empty_conv by blast
  let ?at = "\<lambda>k. if k \<le> length us then s1 else s'"
  let ?step = "\<lambda>k s. let dev = pci_devices s ! k in
    if pd_class dev = 0x1 \<and> pd_subclass dev = 0x6 \<and> pd_prog_if dev = 0x1 then ahci_init fl dev s else Inr s"
  have "\<exists>t. for_each 0 (length (pci_devices s1)) ?step s1 = Inr t \<and> t = ?at (length (pci_devices s1))"
  proof (rule for_each_inv)
    fix k t assume k: "k < length (pci_devices s1)" and t: "t = ?at k"
    then have d: "pci_devices t ! k = (us @ dev # vs) ! k" using l(1) assms(4) by simp
    consider "k < length us" | "k = length us" | "length us < k" by linarith
    then show "\<exists>t'. ?step k t = Inr t' \<and> t' = ?at (Suc k)"
    proof cases
      case 1
      then have "us ! k \<in> set us" by simp
      then show ?thesis using 1 t d l(2) by (auto simp: Let_def nth_append is_controller_def)
    next
      case 2
      then show ?thesis using t d l(3) assms(3) by (auto simp: Let_def nth_append is_controller_def)
    next
      case 3
      then have "vs ! (k - Suc (length us)) \<in> set vs" using k l(1) by simp
      then show ?thesis using 3 t d vs by (auto simp: Let_def nth_append nth_Cons' is_controller_def)
    qed
  qed simp_all
  then show ?thesis using assms(1) l(1) by (simp add: enumerate_devices_def)
qed

lemma with_devices_same [simp]:
  fixes s :: "'z ahci_state_scheme"
  shows "kernel_space r (with_devices s ds) = kernel_space r s" "disk_port (with_devices s ds) = disk_port s"
    "lists_apart clb (with_devices s ds) = lists_apart clb s" "get_bar d i (with_devices s ds) = get_bar d i s"
    "free_frames (with_devices s ds) = free_frames s"
proof -
  have same: "mem (with_devices s ds) = mem s" "page_allocator (with_devices s ds) = page_allocator s" "kernel_vmm (with_devices s ds) = kernel_vmm s"
    "hba (with_devices s ds) = hba s" "ports (with_devices s ds) = ports s" by (simp_all add: with_devices_def)
  show p: "disk_port (with_devices s ds) = disk_port s" by (simp add: disk_port_def fun_eq_iff same)
  show "lists_apart clb (with_devices s ds) = lists_apart clb s" by (simp add: lists_apart_def p same)
  show "kernel_space r (with_devices s ds) = kernel_space r s" "free_frames (with_devices s ds) = free_frames s"
    using aspace_ok_cong[OF same(1,2)] same(3) by (simp_all add: kernel_space_def)
  show "get_bar d i (with_devices s ds) = get_bar d i s" unfolding get_bar_def with_devices_reads ..
qed

lemma get_bar_5: "\<exists>bar. get_bar d 5 s = Inr bar"
  by (simp add: get_bar_def wmul_def wadd_def Let_def)

text \<open>
  A machine with one disk controller on the bus, \<open>dev\<close>, which takes 64-bit addresses; \<open>p\<close> is its first port with a disk, idle, and the firmware has
  put the command lists of the disks to \<open>clb\<close>.
\<close>

definition disk_machine :: "(nat \<Rightarrow> u64) \<Rightarrow> pci_device \<Rightarrow> nat \<Rightarrow> 'z ahci_state_scheme \<Rightarrow> bool" where
  "disk_machine clb dev p s \<longleftrightarrow> pci_devices s = [] \<and> ahci_devices s = []
     \<and> (\<forall>x\<in>set (filter (answers s) bus_places). list_ends s x)
     \<and> filter is_controller (map (device_at s) (filter (answers s) bus_places)) = [dev]
     \<and> bit (capabilities (hba s)) 31 \<and> lists_apart clb s \<and> (\<exists>ps. disk_ports s 32 = p # ps)
     \<and> sact (ports s p) = 0 \<and> ci (ports s p) = 0 \<and> \<not> bit (interrupt_status (ports s p)) 30"

lemma controller_place:
  assumes "disk_machine clb dev p s"
  shows "pd_device dev < 32" "pd_function dev < 8"
proof -
  have "dev \<in> set (filter is_controller (map (device_at s) (filter (answers s) bus_places)))" using assms by (simp add: disk_machine_def)
  then obtain b d f where "(b, d, f) \<in> set bus_places" "dev = device_at s (b, d, f)" by auto
  then show "pd_device dev < 32" "pd_function dev < 8" by (simp_all add: bus_places_set device_at_def identity_at_def)
qed

lemma enumerate_ready:
  fixes s :: "'z ext2_state_scheme"
  assumes sp: "kernel_space r s" and fl: "bitflags_laws fl" and dm: "disk_machine clb dev p s" and hw: "hba_serves hw"
    and room: "frames_left (n + (3 + 128 * length (disk_ports s 32))) m l (free_frames s)" "0 < l"
  shows "\<exists>s'. enumerate_devices fl s = Inr s' \<and> disk_ready hw p s' \<and> disk s' = disk s \<and> frames_left n m l (free_frames s')
    \<and> free_frames s' \<subseteq> free_frames s \<and> kernel_space r s' \<and> ahci_state.more s' = ahci_state.more s"
proof -
  let ?ds = "map (device_at s) (filter (answers s) bus_places)" and ?n = "length (disk_ports s 32)"
  let ?s1 = "with_devices s ?ds"
  from dm obtain ps where ps: "disk_ports s 32 = p # ps" by (auto simp: disk_machine_def)
  have d: "ahci_devices s = []" "pci_devices ?s1 = ?ds" "lists_apart clb ?s1" "bit (capabilities (hba ?s1)) 31" "kernel_space r ?s1"
      "ahci_devices ?s1 = []" "ports ?s1 = ports s" "disk ?s1 = disk s" "ahci_state.more ?s1 = ahci_state.more s"
    using dm sp by (simp_all add: disk_machine_def, simp_all add: with_devices_def)
  have sc: "scan_devices s = Inr ?s1" using dm by (simp add: scan_devices_eq disk_machine_def)
  obtain bar where bar: "get_bar dev 5 ?s1 = Inr bar" using get_bar_5 by blast
  have "3 + 128 * length (disk_ports ?s1 32) \<le> card (free_frames ?s1)" using frames_left_card[OF room] by simp
  from ahci_init_ok[OF d(5) fl d(3) bar controller_place[OF dm] d(4) this] obtain s' tab where
    s': "ahci_init fl dev ?s1 = Inr s'" "ports_done clb 32 tab ?s1 s'" "kernel_space r s'" "disk s' = disk s"
      "card (free_frames s) \<le> card (free_frames s') + 3 + 128 * ?n" "pci_devices s' = ?ds" "free_frames s' \<subseteq> free_frames s"
      "ahci_state.more s' = ahci_state.more s" unfolding d with_devices_same by blast
  have run: "enumerate_devices fl s = Inr s'"
    using dm d(2) s'(6) by (intro enumerate_one[OF sc _ s'(1)]) (simp_all add: disk_machine_def)
  have "pmm_wf s'" "0 \<notin> free_frames s'" using s'(3) by (simp_all add: kernel_space_def aspace_ok_def)
  moreover have "device_ready hw (length (ahci_devices ?s1) + 0) (disk_ports ?s1 32 ! 0) s'"
    using dm ps d(7) by (intro ports_done_ready[OF s'(2) d(3) calculation(1) hw]) (simp_all add: disk_machine_def)
  moreover have left: "frames_left n m l (free_frames s')" using frames_left_take[OF room(1) s'(7)] s'(5) by simp
  moreover have "free_frames s' \<noteq> {}" using frames_left_card[OF left room(2)] by auto
  ultimately show ?thesis using run s' ps d(6) by (simp add: disk_ready_def)
qed

section \<open>From the bus to an open file\<close>

text \<open>A partition table of \<open>n\<close> entries that \<^verbatim>\<open>scan\<close> can read, whose last ext2 volume is \<open>fs\<close>.\<close>

definition table_holds :: "(nat \<Rightarrow> u8) \<Rightarrow> nat \<Rightarrow> ext2_filesystem \<Rightarrow> bool" where
  "table_holds c n fs \<longleftrightarrow> \<not> not_gpt (disk_header c) \<and> unat (gh_partition_entries (disk_header c)) = n \<and> 0 < n \<and> n \<le> 32768
     \<and> unat (gh_start_lba (disk_header c)) < 2 ^ 48 \<and> (\<forall>i<n. entry_ok c (disk_entry c i))
     \<and> mounted_after c (map (disk_entry c) [0..<n]) None = Some fs \<and> fs_ok fs"

lemma mounted_after_Some: "mounted_after c es None = Some fs \<Longrightarrow> mounted_after c es v = Some fs"
  by (simp add: mounted_after_def split: if_splits)

lemma scan_table:
  fixes s :: "'z ext2_state_scheme"
  assumes "disk_ready hw p s" and "table_holds (disk s p) n fs" and "{q..<q + 2 * ceil_div (n * 128) 4096} \<subseteq> free_frames s"
  shows "\<exists>s'. scan hw s = Inr (Inr (), s') \<and> same_kernel (s\<lparr>ext2_fs := Some fs\<rparr>) s' \<and> disk s' = disk s \<and> mounted hw p fs s'"
proof -
  have n: "unat (gh_partition_entries (disk_header (disk s p))) = n" using assms(2) by (simp add: table_holds_def)
  have h: "\<not> not_gpt (disk_header (disk s p))" "0 < n" "n \<le> 32768" "unat (gh_start_lba (disk_header (disk s p))) < 2 ^ 48"
    "\<forall>i<n. entry_ok (disk s p) (disk_entry (disk s p) i)" "fs_ok fs"
    "mounted_after (disk s p) (map (disk_entry (disk s p)) [0..<n]) (ext2_fs s) = Some fs"
    using assms(2) unfolding table_holds_def by (blast intro: mounted_after_Some)+
  from scan_gpt_ok[OF assms(1), unfolded n, OF h(1-4) assms(3) h(5), unfolded h(7)] obtain s' where
    s': "scan hw s = Inr (Inr (), s')" "same_kernel (s\<lparr>ext2_fs := Some fs\<rparr>) s'" "disk s' = disk s" "disk_ready hw p s'" by blast
  have "mounted hw p fs s'" using s'(4) h(6) same_kernel_ext2(1)[OF s'(2)] by (simp add: mounted_def)
  then show ?thesis using s' by blast
qed

lemma storage_ready:
  assumes sp: "kernel_space r k" and fl: "bitflags_laws fl" and dm: "disk_machine clb dev p k" and hw: "hba_serves hw"
    and tab: "table_holds (disk k p) n fs"
    and room: "frames_left (3 + 128 * length (disk_ports k 32)) m (2 * ceil_div (n * 128) 4096) (free_frames k)"
    and path: "k_mounts k = []" "char_boundary (CHR ''/'' # rest) 1"
      "path_to (disk k p) fs (disk_inode (disk k p) fs ROOT_DIR_INODE) (split_at (CHR ''/'') rest) nd" "free_slot k = Some i"
  shows "\<exists>k1 k2 k3 q. enumerate_devices fl k = Inr k1 \<and> scan hw k1 = Inr (Inr (), k2)
    \<and> mount_and_open fl hw (CHR ''/'' # rest) k2 = Inr (file_description_new i 0 EXT2_FS_REF, k3)
    \<and> mounted hw p fs k3 \<and> disk k3 = disk k \<and> inode_table k3 = (inode_table k)[i := Some nd] \<and> ext2_state.more k3 = ext2_state.more (k\<lparr>k_mounts := root_mounts\<rparr>)
    \<and> free_frames k3 \<subseteq> free_frames k \<and> {q..<q + 2 * ceil_div (n * 128) 4096} \<subseteq> free_frames k3"
proof -
  let ?l = "2 * ceil_div (n * 128) 4096"
  have "0 < n" using tab by (simp add: table_holds_def)
  then have l: "2 \<le> ?l" using ceil_div_le[of 4096 "n * 128"] by (cases "ceil_div (n * 128) 4096") auto
  from enumerate_ready[OF sp fl dm hw, of 0 m ?l] room l obtain k1 where k1': "enumerate_devices fl k = Inr k1" "disk_ready hw p k1" "disk k1 = disk k"
    "frames_left 0 m ?l (free_frames k1)" "free_frames k1 \<subseteq> free_frames k" "ahci_state.more k1 = ahci_state.more k" by auto
  from frames_left_run[OF k1'(4)] obtain q where "{q..<q + ?l} \<subseteq> free_frames k1" by blast
  note k1 = k1'(1-3) this k1'(5,6)
  from scan_table[OF k1(2) _ k1(4)] tab k1(3) obtain k2 where
    k2: "scan hw k1 = Inr (Inr (), k2)" "same_kernel (k1\<lparr>ext2_fs := Some fs\<rparr>) k2" "disk k2 = disk k" "mounted hw p fs k2" by auto
  have f2: "free_frames k2 = free_frames k1" "ahci_state.more k2 = ahci_state.more (k1\<lparr>ext2_fs := Some fs\<rparr>)"
    using k2(2) by (simp_all add: same_kernel_def)
  have fields: "k_mounts k2 = k_mounts k" "inode_table k2 = inode_table k" "ext2_state.more k2 = ext2_state.more k"
    using f2(2) k1(6) by (cases k, cases k1, cases k2, simp)+
  have fin: "finite (free_frames k2)" using k2(4) pmm_wf_cap[of k2] finite_subset by (auto simp: mounted_def disk_ready_def device_ready_def)
  then have c2: "2 \<le> card (free_frames k2)" using card_mono[OF fin, of "{q..<q + ?l}"] k1(4) f2(1) l by simp
  have "path_to (disk k2 p) fs (disk_inode (disk k2 p) fs ROOT_DIR_INODE) (split_at (CHR ''/'') rest) nd" "free_slot k2 = Some i" "k_mounts k2 = []"
    using path k2(3) fields by (simp_all add: free_slot_def)
  from mount_and_open_ok[OF k2(4) this(3) path(2) this(1) c2 this(2), of fl] obtain t where
    t: "mount_and_open fl hw (CHR ''/'' # rest) k2
        = Inr (file_description_new i 0 EXT2_FS_REF, t\<lparr>inode_table := (inode_table k2)[i := Some nd], k_mounts := root_mounts\<rparr>)"
      "reads_only hw p fs (k2\<lparr>k_mounts := root_mounts\<rparr>) t" by blast
  let ?k3 = "t\<lparr>inode_table := (inode_table k2)[i := Some nd], k_mounts := root_mounts\<rparr>"
  have r: "mounted hw p fs t" "disk t = disk k" "free_frames t = free_frames k1" "ahci_state.more t = ahci_state.more (k2\<lparr>k_mounts := root_mounts\<rparr>)"
    using t(2) k2(3) f2(1) by (simp_all add: reads_only_def same_kernel_def fragments_free_slot)
  have "ext2_state.more ?k3 = ext2_state.more (k\<lparr>k_mounts := root_mounts\<rparr>)" using r(4) fields(3) by (cases k, cases k2, cases t) simp
  moreover have "free_frames ?k3 = free_frames k1" using r(3) by (simp add: free_frames_def)
  ultimately show ?thesis using k1(1,4,5) k2(1) t(1) r(1,2) fields(2) by (intro exI[of _ k1] exI[of _ k2] exI[of _ ?k3] exI[of _ q]) simp
qed

end
