(* ===== verification/Kernel_Start.thy ===== *)
theory Kernel_Start
  imports Storage
begin

text \<open>
  The whole of \<^verbatim>\<open>_start\<close>: what the start of the memory leaves alone, the firmware tables and timers, and the file the kernel reads at the end.
\<close>

section \<open>Operations that only take frames\<close>

text \<open>Frames may have been taken, and memory outside the frames that were free is as before.\<close>

definition takes :: "'z pmm_state_scheme \<Rightarrow> 'z pmm_state_scheme \<Rightarrow> bool" where
  "takes s s' \<longleftrightarrow> pmm_wf s' \<and> free_frames s' \<subseteq> free_frames s \<and> (\<forall>x. unat x div 4096 \<notin> free_frames s \<longrightarrow> mem s' x = mem s x)"

lemma takes_refl [simp]: "takes s s = pmm_wf s"
  by (simp add: takes_def)

lemma takes_trans [trans]: "takes s t \<Longrightarrow> takes t u \<Longrightarrow> takes s u"
  by (auto simp: takes_def)

lemma takes_wf: "takes s t \<Longrightarrow> pmm_wf t"
  by (simp add: takes_def)

lemma takes_calloc:
  assumes "pmm_wf s" and "pmm_calloc n s = Inr (r, s')"
  shows "takes s s'" "pmm_state.more s' = pmm_state.more s"
proof -
  have "takes s s' \<and> pmm_state.more s' = pmm_state.more s"
  proof (cases r)
    case None
    then show ?thesis using assms pmm_calloc_None[of s n s'] by simp
  next
    case (Some a)
    then have a: "pmm_calloc n s = Inr (Some a, s')" using assms(2) by simp
    show ?thesis using pmm_calloc_zeroes[OF assms(1) a] pmm_calloc_Some[OF assms(1) a] by (auto simp: takes_def)
  qed
  then show "takes s s'" "pmm_state.more s' = pmm_state.more s" by blast+
qed

lemma takes_bitmap_new:
  assumes "pmm_wf s" and "bitmap_new n s = Inr (bm, s')"
  shows "takes s s'"
  using assms takes_calloc(1)[OF assms(1)] by (auto simp: bitmap_new_def res_simps)

lemma takes_slab_update [simp]:
  "takes s (s'\<lparr>slab_at := h\<rparr>) = takes s s'" "takes s (s'\<lparr>cache_at := c\<rparr>) = takes s s'" "takes s (s'\<lparr>caches := q\<rparr>) = takes s s'"
  by (simp_all add: takes_def pmm_wf_def free_frames_def)

lemma takes_slab_new:
  assumes "pmm_wf s" and "slab_new hdr p s = Inr (q, p', s')"
  shows "takes s s'"
proof -
  from assms(2) obtain a s1 bm s2 h where s: "pmm_calloc (pages_per_slab p) s = Inr (Some a, s1)" "bitmap_new 4096 s1 = Inr (bm, s2)" "s' = s2\<lparr>slab_at := h\<rparr>"
    by (auto simp: slab_new_def res_simps Let_def)
  have "takes s s1" by (rule takes_calloc(1)[OF assms(1) s(1)])
  also from this have "takes s1 s2" using takes_bitmap_new[OF _ s(2)] takes_wf by blast
  finally show ?thesis using s(3) by simp
qed

lemma takes_cache_new:
  assumes "pmm_wf s" and "cache_new hdr nm sz s = Inr (q, s')"
  shows "takes s s'"
proof -
  from assms(2) obtain a s1 c q p' s2 h where s: "pmm_calloc 1 s = Inr (Some a, s1)" "slab_new hdr c s1 = Inr (q, p', s2)" "s' = s2\<lparr>cache_at := h\<rparr>"
    by (auto simp: cache_new_def res_simps Let_def)
  have "takes s s1" by (rule takes_calloc(1)[OF assms(1) s(1)])
  also from this have "takes s1 s2" using takes_slab_new[OF _ s(2)] takes_wf by blast
  finally show ?thesis using s(3) by simp
qed

lemma takes_add_cache: "pmm_wf s \<Longrightarrow> add_cache hdr nm sz s = Inr s' \<Longrightarrow> takes s s'"
  using takes_cache_new[of s hdr nm sz] by (auto simp: add_cache_def res_simps split: if_splits)

lemma takes_add_caches: "pmm_wf s \<Longrightarrow> add_caches hdr xs s = Inr s' \<Longrightarrow> takes s s'"
proof (induction xs arbitrary: s)
  case (Cons x xs)
  then obtain s1 where s1: "add_cache hdr (fst x) (snd x) s = Inr s1" "add_caches hdr xs s1 = Inr s'" by (cases x) (auto simp: res_simps)
  have "takes s s1" by (rule takes_add_cache[OF Cons.prems(1) s1(1)])
  then show ?case using Cons.IH[OF _ s1(2)] takes_wf takes_trans by blast
qed simp

lemma takes_cpu_start:
  assumes "pmm_wf s" and "cpu_start cpuid addr cg s = Inr (t, cg', s')"
  shows "takes s s'" "pmm_state.more s' = pmm_state.more s"
proof -
  obtain c g where cg: "cg = (c, g)" by (cases cg)
  from assms(2) obtain a0 s0 a1 s1 a2 where s: "pmm_calloc 2 s = Inr (Some a0, s0)" "pmm_calloc 2 s0 = Inr (Some a1, s1)" "pmm_calloc 2 s1 = Inr (Some a2, s')"
    by (auto simp: cpu_start_def cg res_simps Let_def)
  have 0: "takes s s0" "pmm_state.more s0 = pmm_state.more s" by (rule takes_calloc[OF assms(1) s(1)])+
  have 1: "takes s0 s1" "pmm_state.more s1 = pmm_state.more s0" by (rule takes_calloc[OF takes_wf[OF 0(1)] s(2)])+
  have 2: "takes s1 s'" "pmm_state.more s' = pmm_state.more s1" by (rule takes_calloc[OF takes_wf[OF 1(1)] s(3)])+
  show "takes s s'" using 0(1) 1(1) 2(1) by (blast intro: takes_trans)
  show "pmm_state.more s' = pmm_state.more s" using 0(2) 1(2) 2(2) by simp
qed

section \<open>What the start of the memory leaves alone\<close>

lemma takes_view:
  "mem s' = mem t' \<Longrightarrow> page_allocator s' = page_allocator t' \<Longrightarrow> mem s = mem t \<Longrightarrow> page_allocator s = page_allocator t \<Longrightarrow> takes t t' \<Longrightarrow> takes s s'"
  by (simp add: takes_def pmm_wf_def free_frames_def)

text \<open>The devices and the file system.\<close>

definition devices where
  "devices k = (config_space k, pci_devices k, hba k, ports k, headers k, tables k, ahci_devices k, disk k, ext2_fs k, inode_table k,
     k_mounts k, k_acpi k, k_timers k, k_apic k)" for k :: kernel

lemma devices_more: "pmm_state.more k' = pmm_state.more k \<Longrightarrow> devices k' = devices k"
  by (cases k, cases k') (simp add: devices_def)

lemma devices_update [simp]:
  "devices (put_slab s k) = devices k" "devices (k\<lparr>k_gdt := g\<rparr>) = devices k" "devices (k\<lparr>k_idt := i\<rparr>) = devices k"
  "devices (k\<lparr>k_cr4 := c\<rparr>) = devices k" "devices (k\<lparr>kernel_vmm := v\<rparr>) = devices k"
  by (simp_all add: devices_def put_slab_def)

lemma start_memory_frame:
  assumes k1: "pmm_init m k = Inr (r, k1)" "pmm_wf k1" "pmm_state.more k1 = pmm_state.more k" and run: "start_memory env m k = Inr (t, k')"
  shows "takes k1 k' \<and> devices k' = devices k"
proof -
  from run k1(1) obtain s i k4 cr4 g k5 where
    s: "slab_init (slab_header_size env) (slab_view k1) = Inr s"
      "vmm_init ((put_slab s k1)\<lparr>k_gdt := gdt_init (gdt_address env) (k_gdt (put_slab s k1)), k_idt := i\<rparr>) = Inr k4"
      "cpu_start (boot_cpuid env) (tss_address env) (k_cr4 k4, k_gdt k4) k4 = Inr (t, (cr4, g), k5)" "k' = k5\<lparr>k_cr4 := cr4, k_gdt := g\<rparr>"
    unfolding start_memory_def by (auto simp: res_simps Let_def)
  let ?k3 = "(put_slab s k1)\<lparr>k_gdt := gdt_init (gdt_address env) (k_gdt (put_slab s k1)), k_idt := i\<rparr>"
  have wf: "pmm_wf (slab_view k1)" using k1(2) by simp
  have "takes (slab_view k1) s" using takes_add_caches[OF wf] s(1) by (simp add: slab_init_add_caches)
  then have t3: "takes k1 ?k3" by (intro takes_view[of ?k3 s k1 "slab_view k1"]) (simp_all add: put_slab_def slab_view_def)
  have k4: "mem k4 = mem ?k3" "page_allocator k4 = page_allocator ?k3" "devices k4 = devices ?k3"
    using s(2) by (auto simp: vmm_init_def vmm_new_def)
  with t3 have t4: "takes k1 k4" by (intro takes_view[of k4 ?k3 k1 k1]) simp_all
  note c = takes_cpu_start[OF takes_wf[OF t4] s(3)]
  have "takes k1 k5" using t4 c(1) by (blast intro: takes_trans)
  then have "takes k1 k'" using s(4) by (intro takes_view[of k' k5 k1 k1]) simp_all
  moreover have "devices k4 = devices k" using k4(3) devices_more[OF k1(3)] by simp
  then have "devices k' = devices k" using s(4) devices_more[OF c(2)] by simp
  ultimately show ?thesis by blast
qed

text \<open>The frames the start of the memory may write: those it hands out and those of the allocator's bitmap.\<close>

definition boot_frames :: "memmap_entry list \<Rightarrow> memmap_entry \<Rightarrow> nat set" where
  "boot_frames m e = \<Union> (entry_frames ` set (init_rest m)) \<union> (\<lambda>x. x div 4096) ` {unat (base e)..<unat (base e) + bitmap_bytes m}"

definition agree_off :: "nat set \<Rightarrow> memory \<Rightarrow> memory \<Rightarrow> bool" where
  "agree_off F m m' \<longleftrightarrow> (\<forall>x. unat x div 4096 \<notin> F \<longrightarrow> m' x = m x)"

lemma agree_offI: "(\<And>x. unat x div 4096 \<notin> F \<Longrightarrow> m' x = m x) \<Longrightarrow> agree_off F m m'"
  by (simp add: agree_off_def)

lemma bitmap_fill_agrees:
  assumes "memmap_ok m" and "bitmap_home m = Some e"
  shows "agree_off (boot_frames m e) mm (fill_bytes mm (base e) 0 (bitmap_bytes m))"
proof (rule agree_offI)
  fix x :: u64 assume x: "unat x div 4096 \<notin> boot_frames m e"
  note h = bitmap_homeD[OF assms(2)]
  have top: "unat (base e) + unat (length_field e) < 2 ^ 47" using assms(1) h(1) by (auto simp: memmap_ok_def)
  have "\<not> unat (x - base e) < bitmap_bytes m"
  proof
    assume l: "unat (x - base e) < bitmap_bytes m"
    have "unat x = unat (base e) + unat (x - base e)"
      using unat_plus_no_wrap[of "base e" "unat (x - base e)"] l top h(3) by simp
    then have "unat x \<in> {unat (base e)..<unat (base e) + bitmap_bytes m}" using l by simp
    then show False using x by (auto simp: boot_frames_def)
  qed
  then show "fill_bytes mm (base e) 0 (bitmap_bytes m) x = mm x" by (simp add: fill_bytes_def)
qed

lemma start_memory_keeps:
  assumes "memmap_ok m" and "bitmap_home m = Some e" and "start_memory env m k = Inr (t, k')"
  shows "agree_off (boot_frames m e) (mem k) (mem k')" "devices k' = devices k" "free_frames k' \<subseteq> boot_frames m e"
proof -
  from pmm_init_cases[OF assms(1), of k] assms(2) obtain k1 where k1: "pmm_init m k = Inr (init_rest m, k1)" "pmm_wf k1"
      "free_frames k1 = \<Union> (entry_frames ` set (init_rest m))" "mem k1 = fill_bytes (mem k) (base e) 0 (bitmap_bytes m)"
      "pmm_state.more k1 = pmm_state.more k" by auto
  have t: "takes k1 k'" "devices k' = devices k" using start_memory_frame[OF k1(1,2,5) assms(3)] by simp_all
  have sub: "free_frames k1 \<subseteq> boot_frames m e" using k1(3) by (auto simp: boot_frames_def)
  show "devices k' = devices k" by (rule t(2))
  show "free_frames k' \<subseteq> boot_frames m e" using t(1) sub by (auto simp: takes_def)
  show "agree_off (boot_frames m e) (mem k) (mem k')"
    using t(1) sub bitmap_fill_agrees[OF assms(1,2), of "mem k"] k1(4) by (auto simp: takes_def agree_off_def)
qed

section \<open>The boot loader's page tables\<close>

lemma entries_agree:
  assumes "agree_off F (mem s) (mem s')" and "h \<notin> F"
  shows "entries s' h j = entries s h j"
proof (cases "h < 2 ^ 35 \<and> j < 512")
  case True
  have "load_bytes (mem s') (of_nat h * PAGE_SIZE + of_nat (8 * j)) 8 = load_bytes (mem s) (of_nat h * PAGE_SIZE + of_nat (8 * j)) 8"
  proof (rule nth_equalityI)
    fix i assume "i < length (load_bytes (mem s') (of_nat h * PAGE_SIZE + of_nat (8 * j)) 8)"
    then have i: "i < 8" by simp
    have "unat (of_nat h * PAGE_SIZE + of_nat (8 * j) + of_nat i :: u64) = h * 4096 + 8 * j + i"
      using unat_plus_no_wrap[of "of_nat h * PAGE_SIZE + of_nat (8 * j)" i] unat_entry_addr[of h j] True i by simp
    moreover have "8 * j + i < 4096" using True i by simp
    then have "(h * 4096 + 8 * j + i) div 4096 = h" by simp
    ultimately have "unat (of_nat h * PAGE_SIZE + of_nat (8 * j) + of_nat i :: u64) div 4096 = h" by simp
    then show "load_bytes (mem s') (of_nat h * PAGE_SIZE + of_nat (8 * j)) 8 ! i = load_bytes (mem s) (of_nat h * PAGE_SIZE + of_nat (8 * j)) 8 ! i"
      using assms i by (simp add: agree_off_def)
  qed simp
  then show ?thesis by (simp add: entries_def load_u64_def)
qed (auto simp: entries_def)

lemma tables_kept:
  assumes "tree_wf (entries s) r F" and "agree_off F (mem s) (mem s')" and "pmm_wf s'" "free_frames s' \<subseteq> F"
  shows "aspace_ok s' r"
proof -
  note w = walk_agree[OF assms(1) entries_agree[OF assms(2)]]
  have "tree_wf (entries s') r F" using assms(1) unfolding tree_wf_def by (simp add: w)
  then show ?thesis using assms(3,4) tree_wf_sub by (auto simp: aspace_ok_def)
qed

section \<open>Timers and interrupt controller\<close>

lemma hpet_init_ok:
  fixes k :: "'z ahci_state_scheme"
  assumes sp: "kernel_space r k" and fl: "bitflags_laws fl" and F: "3 \<le> card (free_frames k)"
    and t: "find_table (mem k) (map of_char ''HPET'') acpi = Inr (Some t)"
    and h: "ht_address (hpet_table_of (load_bytes (mem k) (direct t) 56)) = h" "unat h < 2 ^ 47"
  shows "\<exists>k'. hpet_init fl acpi d k = Inr (h, d\<lparr>general_config := 1\<rparr>, k') \<and> init_keeps r k k' \<and> card (free_frames k) \<le> card (free_frames k') + 3
    \<and> hba k' = hba k \<and> ports k' = ports k \<and> headers k' = headers k \<and> ahci_devices k' = ahci_devices k"
proof -
  have "wadd h PHYS_BASE = Inr (h + PHYS_BASE)" using h(2) by (simp add: wadd_def PHYS_BASE_def)
  then show ?thesis
    using t h(1) map_page_keeps[OF sp fl F, of "VirtAddr (h + PHYS_BASE)" "PhysAddr h"
        "fl_union fl (fl_union fl PageFlags_PRESENT PageFlags_WRITABLE) PageFlags_UNCACHEABLE"]
    by (fastforce simp: hpet_init_def Let_def)
qed

lemma apic_init_total: "\<exists>d' s'. apic_init d s = Inr (d', s')"
proof -
  let ?s = "sti (remap_pic s)"
  have m: "unat (rdmsr ApicBase ?s AND 0xfffff000) \<le> 0xfffff000"
    using word_and_le1[of "rdmsr ApicBase ?s" "0xfffff000"] word_and_le2[of "rdmsr ApicBase ?s" "0xfffff000"] by (simp add: word_le_nat_alt and.commute)
  let ?a = "(rdmsr ApicBase ?s AND 0xfffff000) + PHYS_BASE"
  have u: "unat ?a \<le> 0xffff8000fffff000" using m by (simp add: unat_word_ariths PHYS_BASE_def)
  have "xapic_new ?s = Inr \<lparr>xa_address = ?a\<rparr>" using m by (simp add: xapic_new_def wadd_def PHYS_BASE_def)
  moreover have "wadd ?a (register_offset Sivr) = Inr (?a + register_offset Sivr)" using u by (simp add: wadd_def)
  ultimately show ?thesis by (simp add: apic_init_def enable_def lapic_read_def lapic_write_def Let_def)
qed

text \<open>The firmware describes the timer in tables outside the frames \<open>F\<close>.\<close>

definition hpet_found :: "nat set \<Rightarrow> memory \<Rightarrow> u64 \<Rightarrow> u64 \<Rightarrow> bool" where
  "hpet_found F m rsdp h \<longleftrightarrow> unat h < 2 ^ 47 \<and> (\<forall>m'. agree_off F m m' \<longrightarrow>
     (\<exists>t. find_table m' (map of_char ''HPET'') \<lparr>RSDP = rsdp\<rparr> = Inr (Some t) \<and> ht_address (hpet_table_of (load_bytes m' (direct t) 56)) = h))"

text \<open>Everything before the enumeration of the bus: the address space grows by one page, the rest of the kernel and the devices stay.\<close>

lemma start_devices_enumerates:
  assumes sp: "kernel_space r k" and fl: "bitflags_laws fl" and F: "3 \<le> card (free_frames k)"
    and fw: "hpet_found G m rsdp h" "agree_off G m (mem k)"
  shows "\<exists>k'. start_devices fl rsdp k = enumerate_devices fl k' \<and> kernel_space r k' \<and> free_frames k' \<subseteq> free_frames k
    \<and> card (free_frames k) \<le> card (free_frames k') + 3 \<and> config_space k' = config_space k \<and> pci_devices k' = pci_devices k \<and> hba k' = hba k
    \<and> ports k' = ports k \<and> ahci_devices k' = ahci_devices k \<and> disk k' = disk k \<and> inode_table k' = inode_table k \<and> k_mounts k' = k_mounts k
    \<and> k_caches k' = k_caches k \<and> k_cache_at k' = k_cache_at k \<and> k_slab_at k' = k_slab_at k \<and> k_hpet k' = Some h"
proof -
  let ?k = "k\<lparr>k_acpi := acpi_init rsdp (k_acpi k)\<rparr>"
  have acpi: "k_acpi ?k = \<lparr>RSDP = rsdp\<rparr>" by (cases "k_acpi k") (simp add: acpi_init_def)
  have fr: "free_frames ?k = free_frames k" by (simp add: free_frames_def)
  have sp': "kernel_space r ?k" using sp aspace_ok_cong(1)[of ?k k] fr by (simp add: kernel_space_def)
  from fw obtain t where t: "find_table (mem ?k) (map of_char ''HPET'') (k_acpi ?k) = Inr (Some t)"
      "ht_address (hpet_table_of (load_bytes (mem ?k) (direct t) 56)) = h" "unat h < 2 ^ 47" unfolding acpi by (auto simp: hpet_found_def)
  from hpet_init_ok[OF sp' fl _ t, of "k_timers ?k"] F fr obtain k1 where
    k1: "hpet_init fl (k_acpi ?k) (k_timers ?k) ?k = Inr (h, (k_timers ?k)\<lparr>general_config := 1\<rparr>, k1)" "init_keeps r ?k k1"
      "card (free_frames k) \<le> card (free_frames k1) + 3" "hba k1 = hba k" "ports k1 = ports k" "ahci_devices k1 = ahci_devices k" by auto
  let ?k2 = "k1\<lparr>k_hpet := Some h, k_timers := (k_timers ?k)\<lparr>general_config := 1\<rparr>\<rparr>"
  obtain d a where da: "apic_init (k_timers ?k2) (k_apic ?k2) = Inr (d, a)" using apic_init_total by blast
  let ?k' = "?k2\<lparr>k_timers := d, k_apic := a\<rparr>"
  have keeps: "kernel_vmm k1 = kernel_vmm k" "free_frames k1 \<subseteq> free_frames k" "config_space k1 = config_space k" "pci_devices k1 = pci_devices k"
      "disk k1 = disk k" "ahci_state.more k1 = ahci_state.more ?k" and asp: "kernel_space r k1"
    using k1(2) fr init_keeps_space[OF k1(2) sp'] by (simp_all add: init_keeps_def)
  have same: "inode_table k1 = inode_table k" "k_mounts k1 = k_mounts k" "k_caches k1 = k_caches k" "k_cache_at k1 = k_cache_at k" "k_slab_at k1 = k_slab_at k"
    using keeps(6) by (cases k, cases k1, simp)+
  have fr': "free_frames ?k' = free_frames k1" by (simp add: free_frames_def)
  have "kernel_space r ?k'" using asp aspace_ok_cong(1)[of ?k' k1] fr' by (simp add: kernel_space_def)
  moreover have "start_devices fl rsdp k = enumerate_devices fl ?k'" using k1(1) da by (simp add: start_devices_def Let_def)
  ultimately show ?thesis using k1(3-6) keeps same fr' by (intro exI[of _ ?k']) simp
qed

section \<open>The heap and the identifiers\<close>

lemma new_content_ok:
  assumes "heap_ok (slab_view k) ks" and sz: "map object_size ks = [8, 16, 32, 64, 128, 256, 512, 1024, 2048, 4096]"
    and fresh: "\<forall>c \<in> set ks. cache_fresh (k_slab_at k) c"
  shows "\<exists>p h. new_content env k = Inr (p, k\<lparr>k_slab_at := h\<rparr>) \<and> heap_ok (slab_view (k\<lparr>k_slab_at := h\<rparr>)) ks"
proof -
  have "4096 \<in> set (map object_size ks)" by (simp add: sz)
  then have "List.find (\<lambda>c. 50 \<le> object_size c) ks \<noteq> None" by (auto simp: find_None_iff)
  then obtain c where c: "List.find (\<lambda>c. 50 \<le> object_size c) ks = Some c" by blast
  then have "c \<in> set ks" by (auto simp: find_Some_iff)
  then have "cache_fresh (slab_at (slab_view k)) c" using fresh by (simp add: slab_view_def)
  from heap_alloc_fresh[OF assms(1) c this, of "slab_header_size env"] obtain p h where
    p: "heap_alloc (slab_header_size env) 50 (slab_view k) = Some (Inr (p, (slab_view k)\<lparr>slab_at := h\<rparr>))" "heap_ok ((slab_view k)\<lparr>slab_at := h\<rparr>) ks" by blast
  have "put_slab ((slab_view k)\<lparr>slab_at := h\<rparr>) k = k\<lparr>k_slab_at := h\<rparr>" "slab_view (k\<lparr>k_slab_at := h\<rparr>) = (slab_view k)\<lparr>slab_at := h\<rparr>"
    by (simp_all add: put_slab_def slab_view_def)
  then show ?thesis using p by (auto simp: new_content_def)
qed

lemma bitmap_page:
  assumes "pmm_wf s" "free_frames s \<noteq> {}" "0 \<notin> free_frames s"
  shows "\<exists>bm s'. bitmap_new 4096 s = Inr (bm, s') \<and> pmm_wf s' \<and> free_frames s' \<subseteq> free_frames s \<and> card (free_frames s) \<le> card (free_frames s') + 1"
proof -
  from calloc_one[OF assms] obtain a s' where a: "pmm_calloc 1 s = Inr (Some a, s')" by blast
  have "div_ceil 4096 4096 = Inr 1" by (simp add: div_ceil_eq ceil_div_def)
  then have "\<exists>bm. bitmap_new 4096 s = Inr (bm, s')" using a by (simp add: bitmap_new_def)
  moreover from pmm_calloc_Some[OF assms(1) a] obtain f where f: "free_frames s' = free_frames s - {f..<f + 1}" "pmm_wf s'" by blast
  moreover have "card (free_frames s) \<le> card (free_frames s - {f..<f + 1}) + 1"
    using diff_card_le_card_Diff[of "{f..<f + 1}" "free_frames s"] by simp
  ultimately show ?thesis by auto
qed

lemma init_bitmaps_total:
  fixes s :: proc_state
  assumes "pmm_wf s" "2 \<le> card (free_frames s)" "0 \<notin> free_frames s"
  shows "\<exists>s'. init_bitmaps s = Inr s'"
proof -
  have ne: "free_frames s \<noteq> {}" using assms(2) by auto
  from bitmap_page[OF assms(1) ne assms(3)] obtain x s1 where s1: "bitmap_new 4096 s = Inr (x, s1)" "pmm_wf s1" "free_frames s1 \<subseteq> free_frames s"
    "card (free_frames s) \<le> card (free_frames s1) + 1" by blast
  have ne1: "free_frames s1 \<noteq> {}" using s1(4) assms(2) by auto
  have z: "0 \<notin> free_frames s1" using s1(3) assms(3) by blast
  from bitmap_page[OF s1(2) ne1 z] s1(1) show ?thesis by (auto simp: init_bitmaps_def)
qed

section \<open>The whole start\<close>

text \<open>The kernel before the start: nothing on the heap, no mounts, a full descriptor table, and a free slot \<open>i\<close> for an open file.\<close>

definition cold :: "nat \<Rightarrow> kernel \<Rightarrow> bool" where
  "cold i k \<longleftrightarrow> k_caches k = 0 \<and> k_cache_at k = Map.empty \<and> k_slab_at k = Map.empty \<and> length (idt (k_idt k)) = 256
     \<and> k_mounts k = [] \<and> free_slot k = Some i"

text \<open>A memory map whose usable frames behind the bitmap are \<open>a\<close> to \<open>b - 1\<close>.\<close>

definition usable_frames :: "memmap_entry list \<Rightarrow> memmap_entry \<Rightarrow> nat \<Rightarrow> nat \<Rightarrow> bool" where
  "usable_frames m e a b \<longleftrightarrow> memmap_ok m \<and> bitmap_home m = Some e \<and> \<Union> (entry_frames ` set (init_rest m)) = {a..<b} \<and> 0 < a"

text \<open>The boot loader's page tables, rooted at frame \<open>r\<close>, outside the frames the start writes.\<close>

definition loader_tables :: "nat \<Rightarrow> nat set \<Rightarrow> kernel \<Rightarrow> bool" where
  "loader_tables r F k \<longleftrightarrow> cr3 k = of_nat r * PAGE_SIZE \<and> tree_wf (entries k) r F"

lemma start_memory_space:
  assumes us: "usable_frames m e a b" and c: "cold i k" and tab: "loader_tables r (boot_frames m e) k"
    and env: "0 < slab_header_size env" "slab_header_size env \<le> 2048" and room: "a + 547 \<le> b"
  shows "\<exists>t k' ks. start_memory env m k = Inr (t, k') \<and> heap_ok (slab_view k') ks
    \<and> map object_size ks = [8, 16, 32, 64, 128, 256, 512, 1024, 2048, 4096] \<and> (\<forall>c \<in> set ks. cache_fresh (k_slab_at k') c)
    \<and> kernel_space r k' \<and> free_frames k' = {a + 547..<b} \<and> devices k' = devices k \<and> agree_off (boot_frames m e) (mem k) (mem k')"
proof -
  have u: "memmap_ok m" "bitmap_home m = Some e" "\<Union> (entry_frames ` set (init_rest m)) = {a..<b}" "0 < a" using us by (simp_all add: usable_frames_def)
  have k: "k_caches k = 0" "k_cache_at k = Map.empty" "k_slab_at k = Map.empty" "length (idt (k_idt k)) = 256" using c by (simp_all add: cold_def)
  from start_memory_ok[OF u room k env] obtain t k' ks where
    k': "start_memory env m k = Inr (t, k')" "heap_ok (slab_view k') ks" "map object_size ks = [8, 16, 32, 64, 128, 256, 512, 1024, 2048, 4096]"
      "kernel_vmm k' = Some \<lparr>pagemap = PhysAddr (cr3 k), ranges = []\<rparr>" "pmm_wf k'" "free_frames k' = {a + 547..<b}"
      "\<forall>c \<in> set ks. cache_fresh (k_slab_at k') c" by (elim exE conjE)
  note keeps = start_memory_keeps[OF u(1,2) k'(1)]
  have "aspace_ok k' r" using tables_kept[OF _ keeps(1) k'(5) keeps(3)] tab by (simp add: loader_tables_def)
  then have "kernel_space r k'" using k'(4,6) tab by (simp add: kernel_space_def loader_tables_def frame_addr_def)
  then show ?thesis using k' keeps(1,2) by (intro exI[of _ t] exI[of _ k'] exI[of _ ks] conjI)
qed

lemma disk_machine_cong:
  assumes "config_space s' = config_space s" "pci_devices s' = pci_devices s" "hba s' = hba s" "ports s' = ports s" "ahci_devices s' = ahci_devices s"
  shows "disk_machine clb dev p s' = disk_machine clb dev p s" "disk_ports s' n = disk_ports s n"
proof -
  have d: "disk_port s' = disk_port s" using assms by (simp add: disk_port_def fun_eq_iff)
  then show "disk_ports s' n = disk_ports s n" by simp
  show "disk_machine clb dev p s' = disk_machine clb dev p s"
    by (simp add: disk_machine_def d lists_apart_def config_space_cong[OF assms(1)] assms(2-))
qed

lemma heap_view_frames: "free_frames (slab_view k) = free_frames k" "free_frames (proc_view k) = free_frames k" "pmm_wf (proc_view k) = pmm_wf k"
  by (simp_all add: slab_view_def proc_view_def free_frames_def pmm_wf_def)

text \<open>From the open file to the end: the buffer on the heap, the read, and the bitmaps of the identifiers.\<close>

lemma read_and_finish:
  assumes m: "mounted hw p fs k" and i: "i < length (inode_table k)" "inode_table k ! i = Some nd" "inode_wf nd"
    and heap: "heap_ok (slab_view k) ks" "map object_size ks = [8, 16, 32, 64, 128, 256, 512, 1024, 2048, 4096]"
      "\<forall>c \<in> set ks. cache_fresh (k_slab_at k) c"
    and F: "2 \<le> card (free_frames k)"
  shows "\<exists>p' k1 k2 s. new_content env k = Inr (p', k1) \<and> read_opened fl hw (file_description_new i 0 EXT2_FS_REF) p' 50 k1 = Inr (50, k2)
    \<and> load_bytes (mem k2) (direct p') 50 = file_block (disk k p) fs nd 0 50 \<and> init_bitmaps (proc_view k2) = Inr s
    \<and> disk k2 = disk k \<and> k_mounts k2 = k_mounts k \<and> ext2_fs k2 = Some fs"
proof -
  from new_content_ok[OF heap, of env] obtain p' h where c: "new_content env k = Inr (p', k\<lparr>k_slab_at := h\<rparr>)" by blast
  let ?k1 = "k\<lparr>k_slab_at := h\<rparr>"
  have m1: "mounted hw p fs ?k1" using m by (simp add: mounted_def disk_ready_def device_ready_def port_ready_def free_frames_def pmm_wf_def)
  have bs: "50 \<le> block_size fs" using m fs_ok_bounds(1)[of fs] by (simp add: mounted_def)
  from read_opened_ok[OF m1 _ _ i(3) _ bs, of i fl p'] i(1,2) obtain t where
    t: "read_opened fl hw (file_description_new i 0 EXT2_FS_REF) p' 50 ?k1 = Inr (50, t\<lparr>k_mounts := k_mounts k\<rparr>)" "reading hw p fs p' 50 ?k1 t"
      "load_bytes (mem t) (direct p') 50 = file_block (disk k p) fs nd 0 50" by auto
  let ?k2 = "t\<lparr>k_mounts := k_mounts k\<rparr>"
  have r: "mounted hw p fs t" "disk t = disk k" "free_frames t = free_frames k" using t(2) by (simp_all add: reading_def free_frames_def)
  have "pmm_wf ?k2" "0 \<notin> free_frames ?k2" "free_frames ?k2 = free_frames k"
    using r by (simp_all add: mounted_def disk_ready_def device_ready_def free_frames_def pmm_wf_def)
  then obtain s where "init_bitmaps (proc_view ?k2) = Inr s" using init_bitmaps_total[of "proc_view ?k2"] F by (auto simp: heap_view_frames)
  then show ?thesis using c t(1,3) r by (intro exI[of _ p'] exI[of _ ?k1] exI[of _ ?k2] exI[of _ s]) (simp add: mounted_def)
qed

text \<open>The same from the heap as the start left it in \<open>k0\<close>, while the storage components took frames.\<close>

lemma read_after_storage:
  fixes k0 k :: kernel
  assumes m: "mounted hw p fs k" and i: "inode_table k = xs[i := Some nd]" "i < length xs" "inode_wf nd"
    and heap: "heap_ok (slab_view k0) ks" "map object_size ks = [8, 16, 32, 64, 128, 256, 512, 1024, 2048, 4096]"
      "\<forall>c \<in> set ks. cache_fresh (k_slab_at k0) c"
    and kept: "k_caches k = k_caches k0" "k_cache_at k = k_cache_at k0" "k_slab_at k = k_slab_at k0"
    and F: "free_frames k \<subseteq> free_frames k0" "{q..<q + l} \<subseteq> free_frames k" "2 \<le> l"
  shows "\<exists>p' k1 k2 s. new_content env k = Inr (p', k1) \<and> read_opened fl hw (file_description_new i 0 EXT2_FS_REF) p' 50 k1 = Inr (50, k2)
    \<and> load_bytes (mem k2) (direct p') 50 = file_block (disk k p) fs nd 0 50 \<and> init_bitmaps (proc_view k2) = Inr s
    \<and> disk k2 = disk k \<and> k_mounts k2 = k_mounts k \<and> ext2_fs k2 = Some fs"
proof -
  have wf: "pmm_wf k" and fin: "finite (free_frames k)" using m pmm_wf_cap[of k] finite_subset
    by (auto simp: mounted_def disk_ready_def device_ready_def)
  have heap': "heap_ok (slab_view k) ks"
    using F(1) wf kept by (intro heap_ok_shrink[OF heap(1)]) (auto simp: slab_view_def free_frames_def pmm_wf_def)
  have "2 \<le> card (free_frames k)" using card_mono[OF fin F(2)] F(3) by simp
  then show ?thesis using i heap(3) kept(3) by (intro read_and_finish[OF m _ _ i(3) heap' heap(2)]) simp_all
qed

lemma start_messages:
  assumes "font_new bs = Inr f" and "font_covers f"
  shows "\<exists>v scr1 scr. video_new bs fb = Inr v \<and> video_print (map of_char (''Hello, world, from Rust!'' @ [CHR 0x0a])) (v, fr) = Inr scr1
    \<and> video_print (map of_char ''Is everything fine?'') scr1 = Inr scr"
proof -
  obtain v where v: "video_new bs fb = Inr v" "vi_font v = f" "cursor_x v = 10" "cursor_y v = 10" using assms(1) by (simp add: video_new_def)
  from video_print_total[of v "map of_char (''Hello, world, from Rust!'' @ [CHR 0x0a])" fr] v assms(2) obtain v1 fr1 where
    1: "video_print (map of_char (''Hello, world, from Rust!'' @ [CHR 0x0a])) (v, fr) = Inr (v1, fr1)" "vi_font v1 = f" "cursor_x v1 < 2 ^ 17"
      "cursor_y v1 \<le> 10 + 25 * (2 ^ 20 + 2)" by auto
  from video_print_total[of v1 "map of_char ''Is everything fine?''" fr1] 1 assms(2) obtain scr where
    "video_print (map of_char ''Is everything fine?'') (v1, fr1) = Inr scr" by auto
  then show ?thesis using v(1) 1(1) by blast
qed

end
