(* ===== verification/Kernel_Sample.thy ===== *)
theory Kernel_Sample
  imports Kernel_Start
begin

text \<open>
  A concrete machine for the start of the kernel: memory map, firmware tables, one disk controller, and a disk with a partition table and an
  ext2 volume that has the file \<^verbatim>\<open>/home/limine.cfg\<close>.
\<close>

section \<open>The disk\<close>

text \<open>
  A partition table of two entries at sector 2, of which the second is the volume at sector 8. The volume has blocks of 1024 bytes; its
  group descriptor names block 5 as the inode table; inode 2 is the root directory in block 20, inode 3 is \<^verbatim>\<open>/home\<close> in block 21, and inode 4 the file, in block 22.
\<close>

definition boot_disk :: "nat \<Rightarrow> u8" where
  "boot_disk x = (case map_of [
      (512, 69), (584, 2), (592, 2), (1152, 1), (1184, 8),
      (5124, 64), (5153, 32), (5160, 8), (5176, 0x53), (5177, 0xef), (6152, 5),
      (9344, 0xed), (9345, 0x41), (9349, 4), (9384, 20), (9472, 0xed), (9473, 0x41), (9477, 4), (9512, 21), (9600, 0xa4), (9601, 0x81), (9604, 50), (9640, 22),
      (24576, 3), (24581, 4), (24582, 4), (24583, 2), (24584, 104), (24585, 111), (24586, 109), (24587, 101),
      (25600, 4), (25605, 4), (25606, 10), (25607, 1), (25608, 108), (25609, 105), (25610, 109), (25611, 105), (25612, 110), (25613, 101), (25614, 46),
      (25615, 99), (25616, 102), (25617, 103), (26624, 84), (26625, 73)] x of None \<Rightarrow> 0 | Some b \<Rightarrow> b)"

lemmas disk_eval = bytes_at_def upt_rec boot_disk_def

lemma boot_table:
  "gh_start_lba (disk_header boot_disk) = 2" "gh_partition_entries (disk_header boot_disk) = 2" "\<not> not_gpt (disk_header boot_disk)"
  "gp_pt_guid (disk_entry boot_disk 0) ! 0 = 0" "gp_pt_guid (disk_entry boot_disk (Suc 0)) ! 0 = 1" "gp_start_lba (disk_entry boot_disk (Suc 0)) = 8"
proof -
  show h: "gh_start_lba (disk_header boot_disk) = 2" "gh_partition_entries (disk_header boot_disk) = 2"
    by (simp_all add: disk_header_def gpt_header_of_def le_at_bytes_at) (simp_all add: disk_eval)
  show "\<not> not_gpt (disk_header boot_disk)" by (simp add: not_gpt_def disk_header_def gpt_header_of_def as_bytes_def disk_eval)
  show "gp_pt_guid (disk_entry boot_disk 0) ! 0 = 0" "gp_pt_guid (disk_entry boot_disk (Suc 0)) ! 0 = 1" "gp_start_lba (disk_entry boot_disk (Suc 0)) = 8"
    by (simp_all add: disk_entry_def h gpt_entry_of_def le_at_bytes_at) (simp_all add: disk_eval)
qed

lemma boot_superblock:
  "sb_signature (superblock_at boot_disk 8) = 0xef53" "sb_block_size (superblock_at boot_disk 8) = 0" "sb_blocks_per_group (superblock_at boot_disk 8) = 8192"
  "sb_block_cnt (superblock_at boot_disk 8) = 64" "sb_inodes_per_group (superblock_at boot_disk 8) = 8"
  by (simp_all add: superblock_at_def superblock_of_def le_at_bytes_at) (simp_all add: disk_eval)

definition boot_fs :: ext2_filesystem where
  "boot_fs = volume_fs boot_disk (disk_entry boot_disk (Suc 0))"

lemma boot_fs_fields [simp]:
  "block_size boot_fs = 1024" "starting_lba boot_fs = 8" "sb_inodes_per_group (fs_superblock boot_fs) = 8"
  by (simp_all add: boot_fs_def volume_fs_def fs_of_def boot_table boot_superblock)

lemma boot_disk_holds: "table_holds boot_disk 2 boot_fs"
proof -
  have v: "\<not> is_volume boot_disk (disk_entry boot_disk 0)" "is_volume boot_disk (disk_entry boot_disk (Suc 0))"
    by (simp_all add: is_volume_def boot_table boot_superblock EXT2_SIGNATURE_def)
  then have e: "entry_ok boot_disk (disk_entry boot_disk 0)" "entry_ok boot_disk (disk_entry boot_disk (Suc 0))"
    by (simp_all add: entry_ok_def boot_table boot_superblock)
  have i: "i < 2 \<longleftrightarrow> i = 0 \<or> i = Suc 0" for i :: nat by auto
  have "filter (is_volume boot_disk) (map (disk_entry boot_disk) [0..<2]) = [disk_entry boot_disk (Suc 0)]" using v by (simp add: upt_rec)
  then have "mounted_after boot_disk (map (disk_entry boot_disk) [0..<2]) None = Some boot_fs" by (simp add: mounted_after_def boot_fs_def)
  then show ?thesis using e by (auto simp: table_holds_def boot_table fs_ok_def i)
qed

lemma boot_inode_pos: "inode_pos boot_disk boot_fs 2 = 9344" "inode_pos boot_disk boot_fs 3 = 9472" "inode_pos boot_disk boot_fs 4 = 9600"
  by (simp_all add: inode_pos_def inode_group_def inode_slot_def byte_pos_def disk_descriptor_def descriptor_of_def desc_pos_def le_at_bytes_at)
    (simp_all add: disk_eval)

lemma boot_inodes:
  "is_directory (disk_inode boot_disk boot_fs 2)" "sizel (disk_inode boot_disk boot_fs 2) = 1024" "direct_pointer (disk_inode boot_disk boot_fs 2) ! 0 = 20"
  "is_directory (disk_inode boot_disk boot_fs 3)" "sizel (disk_inode boot_disk boot_fs 3) = 1024" "direct_pointer (disk_inode boot_disk boot_fs 3) ! 0 = 21"
  "direct_pointer (disk_inode boot_disk boot_fs 4) ! 0 = 22"
  by (simp_all add: is_directory_def disk_inode_def boot_inode_pos inode_of_def le_at_bytes_at FileType_DIRECTORY_def) (simp_all add: disk_eval)

text \<open>A directory block with one entry.\<close>

lemma one_entry:
  assumes "le_at 4 2 bs = (1024 :: u16)" "length bs = 1024" "le_at 0 4 bs = (k :: u32)" "unat (bs ! 6) = n" "n \<le> 200" "take n (drop 8 bs) = nm"
  shows "dir_entries bs 0 [(k, nm)]"
  using dir_entry[of bs 0 "[]"] dir_end[of bs] assms by simp

lemma boot_dirs:
  "dir_ok boot_disk boot_fs (disk_inode boot_disk boot_fs 2) [(3, as_bytes ''home'')]"
  "dir_ok boot_disk boot_fs (disk_inode boot_disk boot_fs 3) [(4, as_bytes ''limine.cfg'')]"
proof -
  have "dir_entries (bytes_at boot_disk 24576 1024) 0 [(3, as_bytes ''home'')]"
    by (rule one_entry[of _ _ 4]; simp add: le_at_bytes_at take_drop_bytes_at) (simp_all add: disk_eval as_bytes_def)
  then show "dir_ok boot_disk boot_fs (disk_inode boot_disk boot_fs 2) [(3, as_bytes ''home'')]"
    using boot_inodes disk_inode_wf by (simp add: dir_ok_def file_block_def ref_block_def byte_pos_def)
  have "dir_entries (bytes_at boot_disk 25600 1024) 0 [(4, as_bytes ''limine.cfg'')]"
    by (rule one_entry[of _ _ 10]; simp add: le_at_bytes_at take_drop_bytes_at) (simp_all add: disk_eval as_bytes_def)
  then show "dir_ok boot_disk boot_fs (disk_inode boot_disk boot_fs 3) [(4, as_bytes ''limine.cfg'')]"
    using boot_inodes disk_inode_wf by (simp add: dir_ok_def file_block_def ref_block_def byte_pos_def)
qed

lemma boot_path:
  "path_to boot_disk boot_fs (disk_inode boot_disk boot_fs ROOT_DIR_INODE) (split_at (CHR ''/'') ''home/limine.cfg'') (disk_inode boot_disk boot_fs 4)"
proof -
  have "path_to boot_disk boot_fs (disk_inode boot_disk boot_fs 3) [''limine.cfg''] (disk_inode boot_disk boot_fs 4)"
    by (rule path_last[OF _ boot_dirs(2)]) (simp_all add: find_entry_def)
  then have "path_to boot_disk boot_fs (disk_inode boot_disk boot_fs 2) [''home'', ''limine.cfg''] (disk_inode boot_disk boot_fs 4)"
    by (intro path_step[OF _ boot_dirs(1) _ boot_inodes(4)]) (simp_all add: find_entry_def)
  then show ?thesis by (simp add: ROOT_DIR_INODE_def)
qed

lemma boot_file: "file_block boot_disk boot_fs (disk_inode boot_disk boot_fs 4) 0 50 = [84, 73] @ replicate 48 0"
proof -
  have z: "boot_disk x = 0" if "26626 \<le> x" for x using that by (auto simp: boot_disk_def)
  have "bytes_at boot_disk 26624 50 = [84, 73] @ replicate 48 0"
  proof (rule nth_equalityI)
    fix i assume i: "i < length (bytes_at boot_disk 26624 50)"
    then consider "i = 0" | "i = 1" | "2 \<le> i" "i < 50" by fastforce
    then show "bytes_at boot_disk 26624 50 ! i = ([84, 73] @ replicate 48 0) ! i"
    proof cases
      case 3
      then show ?thesis using z[of "26624 + i"] by (simp add: nth_append)
    qed (simp_all add: boot_disk_def)
  qed simp
  then show ?thesis by (simp add: file_block_def ref_block_def byte_pos_def boot_inodes)
qed

lemma is_utf8_ascii: "\<forall>b\<in>set bs. b < 0x80 \<Longrightarrow> is_utf8 bs"
  by (induction bs) simp_all

section \<open>Memory and firmware\<close>

text \<open>1024 usable pages from address \<open>0x1000\<close> on; the page table is frame 0 (empty), the firmware's tables are in frame \<open>0x500\<close>.\<close>

definition boot_map :: "memmap_entry list" where
  "boot_map = [\<lparr>base = 0x1000, length_field = 0x400000, entry_type = Usable\<rparr>]"

lemma boot_map_usable:
  "usable_frames boot_map \<lparr>base = 0x1000, length_field = 0x400000, entry_type = Usable\<rparr> 1 1024"
  "boot_frames boot_map \<lparr>base = 0x1000, length_field = 0x400000, entry_type = Usable\<rparr> = {1..<1024}"
proof -
  have k: "bitmap_bytes boot_map = 129"
    by (simp add: bitmap_bytes_def boot_map_def memmap_top_Cons ceil_div_def)
  have rest: "\<Union> (entry_frames ` set (init_rest boot_map)) = {1..<1024}"
    unfolding init_rest_def k by (simp add: boot_map_def holds_bitmap_def shrink_def entry_frames_def)
  have "bitmap_home boot_map = Some \<lparr>base = 0x1000, length_field = 0x400000, entry_type = Usable\<rparr>"
    unfolding bitmap_home_def k by (simp add: boot_map_def holds_bitmap_def)
  then show "usable_frames boot_map \<lparr>base = 0x1000, length_field = 0x400000, entry_type = Usable\<rparr> 1 1024"
    using rest by (simp add: usable_frames_def) (simp add: boot_map_def memmap_ok_def)
  have "(\<lambda>x. x div 4096) ` {4096..<4225} = {1 :: nat}" by (force simp: image_iff)
  then show "boot_frames boot_map \<lparr>base = 0x1000, length_field = 0x400000, entry_type = Usable\<rparr> = {1..<1024}"
    unfolding boot_frames_def rest k by auto
qed

definition boot_memory :: memory where
  "boot_memory x = (case map_of [(0x500018, 0x40), (0x50001a, 0x50), (0x500044, 40), (0x500064, 0xc0), (0x500066, 0x50),
      (0x5000c0, 72), (0x5000c1, 80), (0x5000c2, 69), (0x5000c3, 84), (0x5000ee, 0xd0), (0x5000ef, 0xfe)] x of None \<Rightarrow> 0 | Some b \<Rightarrow> b)"

lemma boot_memory_load:
  assumes "agree_off {1..<1024} boot_memory m'" and "0x500000 \<le> unat a" "unat a + n \<le> 0x501000"
  shows "load_bytes m' a n = load_bytes boot_memory a n"
proof (rule nth_equalityI)
  fix i assume "i < length (load_bytes m' a n)"
  then have i: "i < n" by simp
  have "unat (a + of_nat i) = unat a + i" using unat_plus_no_wrap[of a i] assms(3) i by simp
  then have "1024 \<le> unat (a + of_nat i) div 4096" using assms(2) by (simp add: less_eq_div_iff_mult_less_eq)
  then show "load_bytes m' a n ! i = load_bytes boot_memory a n ! i" using assms(1) i by (simp add: agree_off_def)
qed simp

lemma boot_hpet: "hpet_found {1..<1024} boot_memory 0x500008 0xfed00000"
  unfolding hpet_found_def
proof (intro conjI allI impI)
  fix m' assume "agree_off {1..<1024} boot_memory m'"
  note load = boot_memory_load[OF this]
  let ?st = "\<lparr>RSDP = 0x500008\<rparr> :: acpi_state"
  have at: "direct x = x" if "unat x < 2 ^ 47" for x :: u64 using that by (simp add: direct_lower lower_def word_less_nat_alt)
  have r: "rs_revision (rsdp_at m' 0x500008) = 0" "rsdt_addr (rsdp_at m' 0x500008) = 0x500040"
    by (simp_all add: rsdp_at_def rsdp_of_def at load) (simp_all add: load_bytes_def boot_memory_def le_at_def upt_rec)
  have len: "unat (sd_length (sdt_at m' 0x500040)) = 40"
    by (simp add: sdt_at_def sdt_of_def at load) (simp add: load_bytes_def boot_memory_def le_at_def upt_rec)
  have l: "listed_tables m' (0x500040, 4) = [0x5000c0]"
    unfolding listed_tables_def split_conv len by (simp add: at load) (simp add: load_bytes_def boot_memory_def upt_rec)
  have sig: "table_signature m' 0x5000c0 = map of_char ''HPET''"
    by (simp add: table_signature_def at load) (simp add: load_bytes_def boot_memory_def upt_rec)
  have "find_table m' (map of_char ''HPET'') ?st = Inr (Some 0x5000c0)"
    using r len l sig by (simp add: find_table_def find_in_table_eq Let_def)
  moreover have "ht_address (hpet_table_of (load_bytes m' (direct 0x5000c0) 56)) = 0xfed00000"
    by (simp add: at load hpet_table_of_def) (simp add: load_bytes_def boot_memory_def le_at_def upt_rec)
  ultimately show "\<exists>t. find_table m' (map of_char ''HPET'') ?st = Inr (Some t) \<and> ht_address (hpet_table_of (load_bytes m' (direct t) 56)) = 0xfed00000" by blast
qed simp

section \<open>The machine\<close>

definition boot_font :: "u8 list" where
  "boot_font = [0x72, 0xb5, 0x4a, 0x86, 0, 0, 0, 0, 32, 0, 0, 0, 0, 0, 0, 0, 0, 0, 0, 0, 0, 0, 0, 0, 1, 0, 0, 0, 8, 0, 0, 0] @ replicate 128 0"

definition boot_environment :: boot_env where
  "boot_environment = sample_env\<lparr>tag_framebuffer := Some \<lparr>framebuffer_addr = 0xfd000000, framebuffer_width = 640, framebuffer_height = 480,
     framebuffer_pitch = 2560\<rparr>, tag_memory_map := Some boot_map, tag_rsdp := Some 0x500008, font_file := boot_font\<rparr>"

definition boot_kernel :: kernel where
  "boot_kernel = (cold_kernel boot_disk None)\<lparr>mem := boot_memory, config_space := config_space sample_bus, ahci_devices := []\<rparr>"

lemma boot_font_ok: "\<exists>f. font_new boot_font = Inr f \<and> font_covers f"
  by (simp add: font_new_def boot_font_def psf_header_of_def le_at_def PSF_MAGIC_def font_covers_def Let_def)

lemma boot_kernel_fields [simp]:
  "disk boot_kernel p = boot_disk" "mem boot_kernel = boot_memory" "ahci_devices boot_kernel = []" "ports boot_kernel q = idle_port"
  "config_space boot_kernel = config_space sample_bus" "pci_devices boot_kernel = []" "port_implemented (hba boot_kernel) = 1"
  "capabilities (hba boot_kernel) = 0x80000000"
  by (simp_all add: boot_kernel_def cold_kernel_def ext2_state.defs kernel.defs sample_machine_def)

lemma boot_kernel_cold: "cold 0 boot_kernel"
proof -
  have t: "inode_table boot_kernel = replicate 1024 None" by (simp add: boot_kernel_def)
  have "free_slot boot_kernel = Some 0" unfolding free_slot_def t find_upt_Some by simp
  then show ?thesis by (simp add: cold_def) (simp add: boot_kernel_def idt_boot_def)
qed

lemma boot_kernel_tables: "loader_tables 0 {1..<1024} boot_kernel"
proof -
  have z: "entries boot_kernel 0 j = 0" for j
  proof (cases "j < 512")
    case True
    have "load_bytes boot_memory (of_nat (8 * j)) 8 = replicate 8 0"
    proof (rule nth_equalityI)
      fix i assume "i < length (load_bytes boot_memory (of_nat (8 * j)) 8)"
      then have i: "i < 8" by simp
      have "unat (of_nat (8 * j + i) :: u64) = 8 * j + i" by (rule unat_of_nat_small) (use True i in simp)
      then have "unat (of_nat (8 * j) + of_nat i :: u64) < 0x500000" using True i by simp
      then have "of_nat (8 * j) + of_nat i < (0x500000 :: u64)" by (simp add: word_less_nat_alt)
      then have "boot_memory (of_nat (8 * j) + of_nat i) = 0" by (auto simp: boot_memory_def)
      then show "load_bytes boot_memory (of_nat (8 * j)) 8 ! i = replicate 8 0 ! i" using i by simp
    qed simp
    then show ?thesis by (simp add: entries_def load_u64_def)
  qed (simp add: entries_def)
  have "walk (entries boot_kernel) 0 is = (if is = [] then Some 0 else None)" for "is" by (cases "is") (auto simp: tbl_next_def z)
  then have "tree_wf (entries boot_kernel) 0 {1..<1024}" by (auto simp: tree_wf_def split: if_splits)
  then show ?thesis by (simp add: loader_tables_def) (simp add: boot_kernel_def)
qed

lemma places_product:
  "concat (map (\<lambda>b. concat (map (\<lambda>d. map (\<lambda>f. (g b, g d, g f)) zs) ys)) xs) = map (\<lambda>(b, d, f). (g b, g d, g f)) (List.product xs (List.product ys zs))"
  by (simp add: product_concat_map map_concat comp_def)

lemma bus_places_distinct: "distinct bus_places"
proof -
  let ?L = "List.product [0..<256] (List.product [0..<32] [0..<8])"
  have inj: "x = y" if "of_nat x = (of_nat y :: u8)" "x < 256" "y < 256" for x y
  proof -
    have "unat (of_nat x :: u8) = x" "unat (of_nat y :: u8) = y" by (rule unat_of_nat_small; use that(2,3) in simp)+
    then show ?thesis using that(1) by metis
  qed
  have mem: "(b, d, f) \<in> set ?L \<longleftrightarrow> b < 256 \<and> d < 32 \<and> f < 8" for b d f unfolding set_product set_upt by auto
  have "inj_on (\<lambda>(b, d, f). (of_nat b :: u8, of_nat d :: u8, of_nat f :: u8)) (set ?L)"
    by (rule inj_onI, clarify, unfold mem prod.inject split_conv) (auto intro!: inj)
  moreover have "distinct ?L" by (intro distinct_product distinct_upt)
  ultimately show ?thesis unfolding bus_places_def places_product distinct_map by blast
qed

lemma boot_kernel_bus: "filter (answers boot_kernel) bus_places = [(0, 3, 0)]"
proof -
  have "answers boot_kernel x = answers sample_bus x" for x by (simp add: config_space_cong(3)[OF boot_kernel_fields(5)])
  then have "set (filter (answers boot_kernel) bus_places) = {(0, 3, 0)}" using sample_bus_answers by (auto simp: bus_places_set)
  moreover have "distinct (filter (answers boot_kernel) bus_places)" using bus_places_distinct by simp
  moreover have "xs = [x]" if "distinct xs" "set xs = {x}" for xs and x :: "u8 \<times> u8 \<times> u8"
    using that by (cases xs; cases "tl xs") auto
  ultimately show ?thesis by blast
qed

lemma boot_kernel_disks: "disk_ports boot_kernel 32 = [0]"
proof -
  have "disk_port boot_kernel p \<longleftrightarrow> p = 0" for p by (auto simp: disk_port_def idle_port_def bit_1_iff)
  then show ?thesis by (simp add: upt_conv_Cons)
qed

lemma boot_kernel_machine: "disk_machine (\<lambda>_. 0xffff800000001000) (device_at sample_bus (0, 3, 0)) 0 boot_kernel"
proof -
  have b: "list_ends boot_kernel = list_ends sample_bus" "device_at boot_kernel = device_at sample_bus"
    by (rule config_space_cong[OF boot_kernel_fields(5)])+
  have "list_base idle_port = Inr 0xffff800000001000" by (simp add: list_base_def reg_pair_ptr_def idle_port_def wadd_def PHYS_BASE_def)
  moreover have "disk_port boot_kernel p \<longleftrightarrow> p = 0" for p by (auto simp: disk_port_def idle_port_def bit_1_iff)
  ultimately have "lists_apart (\<lambda>_. 0xffff800000001000) boot_kernel" by (simp add: lists_apart_def)
  then show ?thesis
    using sample_bus_device(1) by (simp add: disk_machine_def boot_kernel_bus boot_kernel_disks b sample_bus_device(2) is_controller_def) (simp add: idle_port_def)
qed

end
