(* ===== verification/Ext2_Write.thy ===== *)
theory Ext2_Write
  imports Ext2_Files
begin

text \<open>
  Writing files and directories of \<^verbatim>\<open>fs/ext2.rs\<close>: a file that fits its first block can be read back after \<^verbatim>\<open>Inode::write\<close>, and
  an entry that \<^verbatim>\<open>DirectoryEntry::add_entry\<close> puts into a directory of one block is found again, while every other name leads where
  it led before.
\<close>

section \<open>Writing the first block\<close>

lemma write_block_ok:
  assumes m: "mounted hw p fs s" and b: "b < 2 ^ 32" and c: "0 < count" "count \<le> block_size fs"
    and src: "\<forall>j<count. unat (direct buffer + of_nat j) div 4096 \<notin> free_frames s"
  shows "\<exists>bc s'. ahci_write hw 0 (of_nat (byte_pos fs b 0)) count buffer s = Inr (Inr bc, s') \<and> mounted hw p fs s' \<and> same_kernel s s'
    \<and> disk s' = (disk s)(p := put_bytes (byte_pos fs b 0) (load_bytes (mem s) (direct buffer) count) (disk s p))"
proof -
  let ?bs = "load_bytes (mem s) (direct buffer) count"
  have ok: "fs_ok fs" and dr: "disk_ready hw p s" using m by (simp_all add: mounted_def)
  have "page_fits (byte_pos fs b 0) count" using block_fits(1)[OF ok b] c by (simp add: page_fits_def)
  note f = page_fits_transfer[OF this]
  have dev: "device_ready hw 0 p s" using dr by (simp add: disk_ready_def)
  have sb: "source_bytes (\<lambda>s. load_bytes (mem s) (direct buffer) count) ?bs s"
    unfolding source_bytes_def using src by (auto intro!: nth_equalityI)
  from store_ok[OF dev f(1) disk_ready_room[OF dr f(4,3)] sb] obtain s' where s': "ahci_write hw 0 (of_nat (byte_pos fs b 0)) count buffer s
        = Inr (Inr (sectors_of (of_nat (byte_pos fs b 0)) count * 512), s')"
      "device_ready hw 0 p s'" "same_kernel s s'" "disk s' = disk_put p (byte_pos fs b 0) ?bs (disk s)"
    unfolding f(2) ahci_write_def by auto
  have "mounted hw p fs s'" using m disk_ready_same[OF s'(3,2) dr] same_kernel_ext2(1)[OF s'(3)] by (simp add: mounted_def)
  then show ?thesis using s' by (auto simp: disk_put_at)
qed

text \<open>A write that leaves the number of blocks as it is does not change the inode.\<close>

lemma resize_same_blocks:
  assumes "mounted hw p fs s" and "0 < unat (sizel n)" "unat (sizel n) \<le> block_size fs" and "0 < m" "m \<le> block_size fs"
  shows "resize hw n m s = Inr (n, s)"
proof -
  have ok: "fs_ok fs" using assms(1) by (simp add: mounted_def)
  have "div_ceil k (block_size fs) = Inr 1" if "0 < k" "k \<le> block_size fs" for k
  proof -
    have "ceil_div k (block_size fs) = 1" using that by (intro ceil_div_eqI) simp_all
    then show ?thesis using that fs_ok_bounds(2,6)[OF ok] by (simp add: div_ceil_eq)
  qed
  then show ?thesis using assms by (simp add: resize_def the_fs_mounted[OF assms(1)])
qed

lemma write_one_block:
  assumes m: "mounted hw p fs s" and wf: "inode_wf n" and z: "0 < unat (sizel n)" "unat (sizel n) \<le> block_size fs"
    and b: "0 < bytes" "bytes \<le> block_size fs" and src: "\<forall>j<bytes. unat (direct buffer + of_nat j) div 4096 \<notin> free_frames s"
  shows "\<exists>s'. inode_write hw n 0 bytes buffer s = Inr (Inr bytes, n, s') \<and> mounted hw p fs s' \<and> same_kernel s s'
    \<and> disk s' = (disk s)(p := put_bytes (byte_pos fs (unat (ref_block (disk s p) fs n 0)) 0) (load_bytes (mem s) (direct buffer) bytes) (disk s p))"
proof -
  have ok: "fs_ok fs" using m by (simp add: mounted_def)
  have "reachable_block fs 0" by (simp add: reachable_block_def)
  from get_block_address_ok[OF m wf this] obtain s1 where
    s1: "get_block_address hw n 0 s = Inr (ref_block (disk s p) fs n 0, s1)" "reads_only hw p fs s s1" by blast
  have m1: "mounted hw p fs s1" "disk s1 = disk s" "same_kernel s s1" using s1(2) by (simp_all add: reads_only_def)
  let ?b = "unat (ref_block (disk s p) fs n 0)"
  have bl: "?b < 2 ^ 32" using unat_less_limit[of "ref_block (disk s p) fs n 0"] by simp
  have fr: "free_frames s1 = free_frames s" using m1(3) by (simp add: same_kernel_def)
  have mem: "load_bytes (mem s1) (direct buffer) bytes = load_bytes (mem s) (direct buffer) bytes"
    using m1(3) src by (auto simp: same_kernel_def intro!: nth_equalityI)
  have src1: "\<forall>j<bytes. unat (direct buffer + of_nat j) div 4096 \<notin> free_frames s1" using src fr by simp
  from write_block_ok[OF m1(1) bl b src1] obtain bc s2 where
    s2: "ahci_write hw 0 (of_nat (byte_pos fs ?b 0)) bytes buffer s1 = Inr (Inr bc, s2)" "mounted hw p fs s2" "same_kernel s1 s2"
      "disk s2 = (disk s1)(p := put_bytes (byte_pos fs ?b 0) (load_bytes (mem s1) (direct buffer) bytes) (disk s1 p))" by blast
  have rc: "round_count fs bytes 0 = Inr bytes"
    using b fs_ok_bounds(2,6)[OF ok] by (auto simp: round_count_def uadd_def umod_def)
  have "udiv 0 (block_size fs) = Inr 0" "uadd 0 0 = Inr 0" using fs_ok_bounds(6)[OF ok] by (simp_all add: udiv_def uadd_def)
  then have "inode_write_loop hw fs n 0 bytes buffer 0 0 s = inode_write_loop hw fs n 0 bytes buffer bytes 1 s2"
    using b(1) s1(1) rc block_fits(2)[OF ok bl] s2(1) by (subst inode_write_loop.simps) simp
  also have "\<dots> = Inr (Inr bytes, s2)" by (subst inode_write_loop.simps) simp
  finally have "inode_write hw n 0 bytes buffer s = Inr (Inr bytes, n, s2)"
    using resize_same_blocks[OF m z b] fs_ok_bounds(2)[OF ok] b by (simp add: inode_write_def the_fs_mounted[OF m] uadd_def)
  then show ?thesis using s2(2-4) m1(2) mem same_kernel_trans[OF m1(3) s2(3)] by auto
qed

section \<open>Adding a directory entry\<close>

text \<open>The fields of the entry at byte \<open>i\<close> of a directory block, and the bytes it needs for itself.\<close>

definition esize :: "u8 list \<Rightarrow> nat \<Rightarrow> nat" where
  "esize bs i = unat (le_at (i + 4) 2 bs :: u16)"

definition nlen :: "u8 list \<Rightarrow> nat \<Rightarrow> nat" where
  "nlen bs i = unat (bs ! (i + 6))"

definition entry_need :: "nat \<Rightarrow> nat" where
  "entry_need k = (k + 11) div 4 * 4"

definition has_room :: "u8 list \<Rightarrow> nat \<Rightarrow> nat \<Rightarrow> bool" where
  "has_room bs k i \<longleftrightarrow> entry_need (nlen bs i) + entry_need k \<le> esize bs i"

text \<open>The first entry with room for a name of \<open>k\<close> bytes, and the entries with a new one behind it.\<close>

fun first_room :: "u8 list \<Rightarrow> nat \<Rightarrow> nat \<Rightarrow> 'e list \<Rightarrow> nat option" where
  "first_room bs k i [] = None"
| "first_room bs k i (e # es) = (if has_room bs k i then Some i else first_room bs k (i + esize bs i) es)"

fun with_entry :: "u8 list \<Rightarrow> nat \<Rightarrow> nat \<Rightarrow> 'e \<Rightarrow> 'e list \<Rightarrow> 'e list" where
  "with_entry bs k i new [] = []"
| "with_entry bs k i new (e # es) = (if has_room bs k i then e # new # es else e # with_entry bs k (i + esize bs i) new es)"

lemma entry_need_bounds: "8 + k \<le> entry_need k" "entry_need k \<le> k + 11"
  by (simp_all add: entry_need_def)

lemma round_up_need:
  assumes "k < 2 ^ 60"
  shows "round_up (8 + k) 4 = Inr (entry_need k)"
proof -
  have "entry_need k < usize_limit" using entry_need_bounds(2)[of k] assms by simp
  then show ?thesis using assms unfolding entry_need_def
    by (simp add: round_up_def uadd_def usub_def udiv_def umul_def add.commute)
qed

text \<open>The walk of \<open>add_entry\<close> over a directory in the buffer.\<close>

lemma space_loop_finds:
  assumes es: "dir_entries bs i es" and buf: "load_bytes m (direct (kptr f)) n = bs" and f: "f < 2 ^ 35" and n: "n \<le> 4096"
    and name: "length name < 256"
  shows "space_loop m (kptr f) (of_nat n) name (of_nat i) =
    Some (Inr (map_option (\<lambda>j. (of_nat j, entry_need (nlen bs j), esize bs j - entry_need (nlen bs j))) (first_room bs (length name) i es)))"
  using es
proof induction
  case dir_end
  have "length bs = n" using buf by (metis length_load_bytes)
  then show ?case by (subst space_loop.simps) simp
next
  case (dir_entry i es)
  have len: "length bs = n" using buf by (metis length_load_bytes)
  have h: "8 + nlen bs i \<le> esize bs i" "i + esize bs i \<le> n" using dir_entry.hyps(1,2) len by (simp_all add: nlen_def esize_def)
  have i: "i + 8 \<le> n" "i < n" using h by linarith+
  note en = entry_at_bytes[OF buf f n i(1)]
  have lt: "(of_nat i :: u32) < of_nat n" using i(2) n by (simp add: word_less_nat_alt)
  have ui: "unat (of_nat i :: u32) = i" "i < 2 ^ 32" using i n by simp_all
  have uc: "(ucast (of_nat i :: u32) :: u64) = of_nat i" by (rule ucast_of_nat_u32[OF ui(2)])
  have nxt: "of_nat i + (ucast (le_at (i + 4) 2 bs :: u16) :: u32) = of_nat (i + esize bs i)"
    by (simp add: of_nat_unat_u16 esize_def)
  have sum: "unat (of_nat i :: u32) + esize bs i < 2 ^ 32" using h n ui by simp
  have nl: "nlen bs i < 256" using unat_less_limit[of "bs ! (i + 6)"] by (simp add: nlen_def)
  have need: "round_up (8 + nlen bs i) 4 = Inr (entry_need (nlen bs i))" "round_up (8 + length name) 4 = Inr (entry_need (length name))"
    using nl name by (simp_all add: round_up_need)
  have pos: "0 < entry_need (length name)" using entry_need_bounds(1)[of "length name"] by simp
  have step: "space_loop m (kptr f) (of_nat n) name (of_nat i) =
      (if has_room bs (length name) i then Some (Inr (Some (of_nat i, entry_need (nlen bs i), esize bs i - entry_need (nlen bs i))))
       else space_loop m (kptr f) (of_nat n) name (of_nat (i + esize bs i)))"
    unfolding space_loop.simps[of m "kptr f" "of_nat n" name "of_nat i"] uc Let_def en(1) directory_entry.simps nxt
      nlen_def[symmetric] esize_def[symmetric] need sum.case
    using lt sum pos by (auto simp: has_room_def simp del: of_nat_add)
  show ?case unfolding step using dir_entry.IH by (simp add: esize_def)
qed

text \<open>The bytes of the directory after the new entry has been made.\<close>

definition overwrite :: "u8 list \<Rightarrow> nat \<Rightarrow> u8 list \<Rightarrow> u8 list" where
  "overwrite bs j xs = take j bs @ xs @ drop (j + length xs) bs"

definition new_entry_bytes :: "u32 \<Rightarrow> nat \<Rightarrow> string \<Rightarrow> u8 list" where
  "new_entry_bytes k e name = to_le 4 k @ to_le 2 (of_nat e :: u16) @ [of_nat (length name), 1] @ as_bytes name"

definition split_block :: "u8 list \<Rightarrow> nat \<Rightarrow> u32 \<Rightarrow> string \<Rightarrow> u8 list" where
  "split_block bs j k name = (let t = entry_need (nlen bs j) in
     overwrite (overwrite bs (j + 4) (to_le 2 (of_nat t :: u16))) (j + t) (new_entry_bytes k (esize bs j - t) name))"

lemma length_overwrite [simp]: "j + length xs \<le> length bs \<Longrightarrow> length (overwrite bs j xs) = length bs"
  by (simp add: overwrite_def)

lemma nth_overwrite:
  "j + length xs \<le> length bs \<Longrightarrow> x < length bs \<Longrightarrow> overwrite bs j xs ! x = (if j \<le> x \<and> x < j + length xs then xs ! (x - j) else bs ! x)"
  by (auto simp: overwrite_def nth_append min_def)

lemma drop_overwrite: "j + length xs \<le> length bs \<Longrightarrow> drop j (overwrite bs j xs) = xs @ drop (j + length xs) bs"
  by (simp add: overwrite_def)

lemma length_new_entry [simp]: "length (new_entry_bytes k e name) = 8 + length name"
  by (simp add: new_entry_bytes_def)

lemma store_in_page:
  assumes "off \<le> 4096" "x \<le> 4096" "length xs \<le> 4096"
  shows "store_bytes m (d + of_nat off) xs (d + of_nat x) = (if off \<le> x \<and> x < off + length xs then xs ! (x - off) else m (d + of_nat x))"
proof -
  have u: "unat (of_nat x :: u64) = x" "unat (of_nat off :: u64) = off" using assms by (intro unat_of_nat_small; simp)+
  have "d + of_nat x - (d + of_nat off) = of_nat x - (of_nat off :: u64)" by simp
  then show ?thesis using assms unfolding store_bytes_def by (auto simp: unat_minus_word u)
qed

lemma room_layout:
  assumes "has_room bs (length name) j" and "j + esize bs j \<le> length bs" and "length bs \<le> 4096"
  shows "j + 8 + nlen bs j \<le> j + entry_need (nlen bs j)" "j + entry_need (nlen bs j) + (8 + length name) \<le> length bs"
    "8 + length name \<le> esize bs j - entry_need (nlen bs j)" "entry_need (nlen bs j) \<le> esize bs j"
  using assms entry_need_bounds(1)[of "nlen bs j"] entry_need_bounds(1)[of "length name"] by (simp_all add: has_room_def)

lemma split_entry_bytes:
  assumes buf: "load_bytes m (direct (kptr f)) n = bs" and f: "f < 2 ^ 35" and n: "n \<le> 4096" and name: "name \<noteq> []"
    and room: "has_room bs (length name) j" and fit: "j + esize bs j \<le> n"
  shows "load_bytes (split_entry (kptr f) (of_nat j) (entry_need (nlen bs j)) (esize bs j - entry_need (nlen bs j)) k name m) (direct (kptr f)) n
    = split_block bs j k name"
proof (rule nth_equalityI)
  let ?t = "entry_need (nlen bs j)" and ?e = "esize bs j - entry_need (nlen bs j)" and ?d = "direct (kptr f)"
  have len: "length bs = n" using buf by (metis length_load_bytes)
  note lay = room_layout[OF room, unfolded len, OF fit n]
  have l1: "j + 4 + length (to_le 2 (of_nat ?t :: u16)) \<le> length bs" using lay len by simp
  have l2: "j + ?t + length (new_entry_bytes k ?e name) \<le> length (overwrite bs (j + 4) (to_le 2 (of_nat ?t :: u16)))"
    using lay len length_overwrite[OF l1] by simp
  show "length (load_bytes (split_entry (kptr f) (of_nat j) ?t ?e k name m) ?d n) = length (split_block bs j k name)"
    using length_overwrite[OF l1] length_overwrite[OF l2] len by (simp add: split_block_def Let_def)
  fix x assume "x < length (load_bytes (split_entry (kptr f) (of_nat j) ?t ?e k name m) ?d n)"
  then have x: "x < n" by simp
  have dir: "direct (kptr f + of_nat y) = ?d + of_nat y" if "y < 4096" for y
    using direct_kptr_plus[OF f that] direct_kptr[OF f] by simp
  have j: "unat (of_nat j :: u32) = j" "(ucast (of_nat j :: u32) :: u64) = of_nat j" using lay n by (simp_all add: ucast_of_nat_u32)
  have nn: "0 < length name" using name by simp
  have at: "kptr f + of_nat j + 4 = kptr f + of_nat (j + 4)" "kptr f + of_nat (j + ?t) + 6 = kptr f + of_nat (j + ?t + 6)"
      "kptr f + of_nat (j + ?t) + 4 = kptr f + of_nat (j + ?t + 4)" "kptr f + of_nat (j + ?t) + 7 = kptr f + of_nat (j + ?t + 7)"
      "kptr f + of_nat (j + ?t) + 8 = kptr f + of_nat (j + ?t + 8)" by simp_all
  have lt: "j + 4 < 4096" "j + ?t < 4096" "j + ?t + 4 < 4096" "j + ?t + 6 < 4096" "j + ?t + 7 < 4096" "j + ?t + 8 < 4096"
    using lay n nn by linarith+
  have x1: "x < length bs" and x2: "x < length (overwrite bs (j + 4) (to_le 2 (of_nat ?t :: u16)))" using x len length_overwrite[OF l1] by simp_all
  have nl: "length name \<le> 4096" using lay n by linarith
  have mx: "m (?d + of_nat x) = bs ! x" using buf x by (auto simp: load_bytes_def)
  show "load_bytes (split_entry (kptr f) (of_nat j) ?t ?e k name m) ?d n ! x = split_block bs j k name ! x"
    unfolding nth_load_bytes[OF x] split_entry_def Let_def j at dir[OF lt(1)] dir[OF lt(2)] dir[OF lt(3)] dir[OF lt(4)] dir[OF lt(5)] dir[OF lt(6)]
      split_block_def nth_overwrite[OF l2 x2] nth_overwrite[OF l1 x1]
    using lt x n nl by (simp only: store_in_page order.strict_implies_order order.strict_trans2 length_to_le length_as_bytes list.size mx)
      (auto simp: new_entry_bytes_def nth_append nth_Cons' add.commute[of 8])
qed

lemma le_at_cong:
  assumes "\<And>x. x < n \<Longrightarrow> bs' ! (k + x) = bs ! (k + x)" and "k + n \<le> length bs" "length bs' = length bs"
  shows "le_at k n bs' = le_at k n bs"
  using assms by (auto simp: le_at_def intro!: arg_cong[where f = of_le] nth_equalityI)

lemma slice_cong:
  assumes "\<And>x. x < n \<Longrightarrow> bs' ! (k + x) = bs ! (k + x)" and "k + n \<le> length bs" "length bs' = length bs"
  shows "take n (drop k bs') = take n (drop k bs)"
  using assms by (auto intro!: nth_equalityI)

text \<open>Entries that lie in unchanged bytes.\<close>

lemma dir_entry_same:
  assumes "8 + nlen bs i \<le> esize bs i" "i + esize bs i \<le> length bs" "length bs' = length bs"
    and same: "\<And>x. i \<le> x \<Longrightarrow> x < i + esize bs i \<Longrightarrow> bs' ! x = bs ! x"
    and rest: "dir_entries bs' (i + esize bs i) es"
  shows "dir_entries bs' i ((le_at i 4 bs, take (nlen bs i) (drop (i + 8) bs)) # es)"
proof -
  have sz: "(le_at (i + 4) 2 bs' :: u16) = le_at (i + 4) 2 bs" by (rule le_at_cong) (use assms(1-3) same in \<open>simp_all\<close>)
  have nl: "bs' ! (i + 6) = bs ! (i + 6)" using same assms(1) by simp
  have k: "(le_at i 4 bs' :: u32) = le_at i 4 bs" by (rule le_at_cong) (use assms(1-3) same in \<open>simp_all\<close>)
  have nm: "take (nlen bs i) (drop (i + 8) bs') = take (nlen bs i) (drop (i + 8) bs)" by (rule slice_cong) (use assms(1-3) same in \<open>simp_all\<close>)
  have "dir_entries bs' i ((le_at i 4 bs', take (unat (bs' ! (i + 6))) (drop (i + 8) bs')) # es)"
    by (rule dir_entry) (use assms sz nl in \<open>simp_all add: nlen_def esize_def\<close>)
  then show ?thesis using k nm nl by (simp add: nlen_def)
qed

lemma dir_entries_same:
  assumes "dir_entries bs i es" and "length bs' = length bs" and "\<And>x. i \<le> x \<Longrightarrow> x < length bs \<Longrightarrow> bs' ! x = bs ! x"
  shows "dir_entries bs' i es"
  using assms(1,3)
proof induction
  case dir_end
  show ?case using dir_entries.dir_end[of bs'] assms(2) by simp
next
  case (dir_entry i es)
  then have "dir_entries bs' (i + esize bs i) es" by (simp add: esize_def)
  then show ?case using dir_entry_same[of bs i bs' es] dir_entry.hyps(1,2) dir_entry.prems assms(2) by (simp add: nlen_def esize_def)
qed

lemma first_room_later: "first_room bs k i es = Some j \<Longrightarrow> i \<le> j"
  by (induction bs k i es rule: first_room.induct) (auto split: if_splits)

lemma new_entry_fields:
  assumes d: "drop q bs = new_entry_bytes k e name @ r" and "q + 6 < length bs"
  shows "(le_at q 4 bs :: u32) = k" "(le_at (q + 4) 2 bs :: u16) = of_nat e" "take (length name) (drop (q + 8) bs) = as_bytes name"
    "bs ! (q + 6) = of_nat (length name)"
proof -
  have "drop (q + a) bs = drop a (new_entry_bytes k e name @ r)" for a using d by (metis add.commute drop_drop)
  note da = this[of 4] this[of 8]
  show "(le_at q 4 bs :: u32) = k" "(le_at (q + 4) 2 bs :: u16) = of_nat e" "take (length name) (drop (q + 8) bs) = as_bytes name"
    unfolding le_at_def da d by (simp_all add: new_entry_bytes_def of_le_to_le)
  have "bs ! (q + 6) = drop q bs ! 6" using assms(2) by (intro nth_drop[symmetric]) simp
  then show "bs ! (q + 6) = of_nat (length name)" unfolding d by (simp add: new_entry_bytes_def nth_append)
qed

lemma split_block_layout:
  fixes bs j k name
  defines "bs' \<equiv> split_block bs j k name" and "t \<equiv> entry_need (nlen bs j)"
  assumes room: "has_room bs (length name) j" and fit: "j + esize bs j \<le> length bs" and n: "length bs \<le> 4096"
  shows "length bs' = length bs"
    and "x < length bs \<Longrightarrow> x < j + 4 \<or> j + 6 \<le> x \<and> x < j + t \<or> j + esize bs j \<le> x \<Longrightarrow> bs' ! x = bs ! x"
    and "esize bs' j = t"
    and "\<exists>r. drop (j + t) bs' = new_entry_bytes k (esize bs j - t) name @ r"
proof -
  note lay = room_layout[OF room fit n]
  let ?x = "to_le 2 (of_nat t :: u16)" and ?y = "new_entry_bytes k (esize bs j - t) name"
  have l1: "j + 4 + length ?x \<le> length bs" using lay by simp
  have l2: "j + t + length ?y \<le> length (overwrite bs (j + 4) ?x)" using lay length_overwrite[OF l1] by (simp add: t_def)
  have bs': "bs' = overwrite (overwrite bs (j + 4) ?x) (j + t) ?y" by (simp add: bs'_def t_def split_block_def Let_def)
  show len: "length bs' = length bs" using length_overwrite[OF l1] length_overwrite[OF l2] by (simp add: bs')
  have nth: "bs' ! x = (if j + t \<le> x \<and> x < j + t + (8 + length name) then ?y ! (x - (j + t))
      else if j + 4 \<le> x \<and> x < j + 6 then ?x ! (x - (j + 4)) else bs ! x)" if "x < length bs" for x
    unfolding bs' using nth_overwrite[OF l2, of x] nth_overwrite[OF l1 that] length_overwrite[OF l1] that by simp
  show "bs' ! x = bs ! x" if "x < length bs" "x < j + 4 \<or> j + 6 \<le> x \<and> x < j + t \<or> j + esize bs j \<le> x"
    using nth[OF that(1)] that(2) lay by (auto simp: t_def)
  have "take 2 (drop (j + 4) bs') = ?x"
    by (rule nth_equalityI) (use lay nth len in \<open>auto simp: t_def\<close>)
  moreover have "t < 2 ^ 16" using lay(4) fit n by (simp add: t_def)
  ultimately show "esize bs' j = t" by (simp add: esize_def le_at_def of_le_to_le)
  show "\<exists>r. drop (j + t) bs' = ?y @ r" unfolding bs' drop_overwrite[OF l2] by blast
qed

lemma split_dir_entries:
  assumes es: "dir_entries bs i es" and first: "first_room bs (length name) i es = Some j" and n: "length bs \<le> 4096"
    and name: "length name < 256"
  shows "dir_entries (split_block bs j k name) i (with_entry bs (length name) i (k, as_bytes name) es)
    \<and> has_room bs (length name) j \<and> j + esize bs j \<le> length bs"
  using es first
proof induction
  case (dir_entry i es)
  have h: "8 + nlen bs i \<le> esize bs i" "i + esize bs i \<le> length bs" using dir_entry.hyps(1,2) by (simp_all add: nlen_def esize_def)
  have e: "(le_at i 4 bs, take (unat (bs ! (i + 6))) (drop (i + 8) bs)) = (le_at i 4 bs, take (nlen bs i) (drop (i + 8) bs))"
    by (simp add: nlen_def)
  let ?t = "entry_need (nlen bs j)" and ?bs' = "split_block bs j k name"
  show ?case
  proof (cases "has_room bs (length name) i")
    case False
    then have fr: "first_room bs (length name) (i + esize bs i) es = Some j" using dir_entry.prems by simp
    have IH: "dir_entries ?bs' (i + esize bs i) (with_entry bs (length name) (i + esize bs i) (k, as_bytes name) es)"
      "has_room bs (length name) j" "j + esize bs j \<le> length bs" using dir_entry.IH fr by (simp_all add: esize_def)
    have le: "i + esize bs i \<le> j" by (rule first_room_later[OF fr])
    note lay = split_block_layout[OF IH(2,3) n, where k = k]
    have "dir_entries ?bs' i ((le_at i 4 bs, take (nlen bs i) (drop (i + 8) bs)) # with_entry bs (length name) (i + esize bs i) (k, as_bytes name) es)"
      by (rule dir_entry_same[OF h lay(1) _ IH(1)]) (use lay(2) le h(2) in simp)
    then show ?thesis using False IH(2,3) unfolding e by simp
  next
    case True
    then have ij: "j = i" using dir_entry.prems by simp
    have room: "has_room bs (length name) j" and fit: "j + esize bs j \<le> length bs" using True ij h by simp_all
    note lay = split_block_layout[OF room fit n, where k = k] and rl = room_layout[OF room fit n]
    let ?e = "esize bs j - ?t" and ?q = "j + ?t"
    obtain r where r: "drop ?q ?bs' = new_entry_bytes k ?e name @ r" using lay(4) by blast
    have "?q + 6 < length ?bs'" using rl lay(1) by simp
    note q = new_entry_fields[OF r this]
    have ue: "unat (of_nat ?e :: u16) = ?e" "unat (of_nat (length name) :: u8) = length name" using fit n name by simp_all
    have "dir_entries ?bs' (j + esize bs j) es"
      by (rule dir_entries_same[OF _ lay(1)]) (use dir_entry.hyps(3) ij lay(2) in \<open>simp_all add: esize_def\<close>)
    then have new: "dir_entries ?bs' ?q ((k, as_bytes name) # es)"
      using dir_entries.dir_entry[of ?bs' ?q es, unfolded q ue] rl lay(1) fit by simp
    have nl: "nlen ?bs' j = nlen bs j" using lay(2)[of "j + 6"] rl fit by (simp add: nlen_def)
    have k: "(le_at j 4 ?bs' :: u32) = le_at j 4 bs" by (rule le_at_cong[OF _ _ lay(1)]) (use lay(2) rl fit in simp_all)
    have nm: "take (nlen bs j) (drop (j + 8) ?bs') = take (nlen bs j) (drop (j + 8) bs)"
      by (rule slice_cong[OF _ _ lay(1)]) (use lay(2) rl fit in simp_all)
    have "dir_entries ?bs' j ((le_at j 4 ?bs', take (nlen ?bs' j) (drop (j + 8) ?bs')) # (k, as_bytes name) # es)"
      using dir_entries.dir_entry[of ?bs' j "(k, as_bytes name) # es"] new lay(1,3) rl nl by (simp add: nlen_def esize_def)
    then show ?thesis using True ij room fit unfolding e nl k nm by simp
  qed
qed simp

lemma store_outside:
  assumes "off + length xs \<le> 4096" and "4096 \<le> unat (x - d)"
  shows "store_bytes m (d + of_nat off) xs x = m x"
proof -
  have u: "unat (of_nat off :: u64) = off" using assms(1) by (intro unat_of_nat_small) simp
  have "unat ((x - d) - of_nat off) = unat (x - d) - off" using unat_minus_word[of "x - d" "of_nat off"] assms u by simp
  then have "unat (x - (d + of_nat off)) = unat (x - d) - off" by (simp only: diff_diff_eq)
  then have "\<not> unat (x - (d + of_nat off)) < length xs" using assms by linarith
  then show ?thesis by (simp add: store_bytes_def)
qed

lemma split_entry_outside:
  assumes f: "f < 2 ^ 35" and fit: "j + t + 8 + length name \<le> 4096" "8 \<le> t" and "name \<noteq> []" and x: "4096 \<le> unat (x - direct (kptr f))"
  shows "split_entry (kptr f) (of_nat j) t e k name m x = m x"
proof -
  let ?d = "direct (kptr f)"
  have dir: "direct (kptr f + of_nat y) = ?d + of_nat y" if "y < 4096" for y
    using direct_kptr_plus[OF f that] direct_kptr[OF f] by simp
  have j: "unat (of_nat j :: u32) = j" "(ucast (of_nat j :: u32) :: u64) = of_nat j" using fit by (simp_all add: ucast_of_nat_u32)
  have "0 < length name" using assms(4) by simp
  then have lt: "j + 4 < 4096" "j + t < 4096" "j + t + 4 < 4096" "j + t + 6 < 4096" "j + t + 7 < 4096" "j + t + 8 < 4096"
    using fit by linarith+
  have at: "kptr f + of_nat j + 4 = kptr f + of_nat (j + 4)" "kptr f + of_nat (j + t) + 6 = kptr f + of_nat (j + t + 6)"
      "kptr f + of_nat (j + t) + 4 = kptr f + of_nat (j + t + 4)" "kptr f + of_nat (j + t) + 7 = kptr f + of_nat (j + t + 7)"
      "kptr f + of_nat (j + t) + 8 = kptr f + of_nat (j + t + 8)" by simp_all
  show ?thesis
    unfolding split_entry_def Let_def j at dir[OF lt(1)] dir[OF lt(2)] dir[OF lt(3)] dir[OF lt(4)] dir[OF lt(5)] dir[OF lt(6)]
    using fit x by (simp add: store_outside del: of_nat_add)
qed

lemma mounted_mem [simp]: "mounted hw p fs (s\<lparr>mem := x\<rparr>) = mounted hw p fs s"
  by (simp add: mounted_def disk_ready_def device_ready_def port_ready_def free_frames_def pmm_wf_def)

lemma kptr_page:
  assumes "f < 2 ^ 35" and "y < 4096"
  shows "unat (direct (kptr f) + of_nat y) div 4096 = f"
proof -
  have "unat (of_nat f * PAGE_SIZE :: u64) = f * 4096" by (rule unat_frame_addr) (use assms(1) in simp)
  then have "unat (direct (kptr f) + of_nat y) = f * 4096 + y"
    using assms unat_plus_no_wrap[of "direct (kptr f)" y] direct_kptr[OF assms(1)] by simp
  then show ?thesis using assms(2) by simp
qed

text \<open>The directory with the new entry is made in the buffer and written back.\<close>

lemma write_new_entry:
  assumes wf: "inode_wf d" and z: "0 < unat (sizel d)" "unat (sizel d) \<le> block_size fs" and f: "f < 2 ^ 35" "f \<notin> free_frames s1"
    and w: "working hw p fs (kptr f) (unat (sizel d)) s1 s2" and buf: "load_bytes (mem s2) (direct (kptr f)) (unat (sizel d)) = bs"
    and name: "name \<noteq> []" and room: "has_room bs (length name) j" "j + esize bs j \<le> unat (sizel d)"
  shows "\<exists>s4. inode_write hw d 0 (unat (sizel d)) (kptr f)
        (s2\<lparr>mem := split_entry (kptr f) (of_nat j) (entry_need (nlen bs j)) (esize bs j - entry_need (nlen bs j)) k name (mem s2)\<rparr>)
      = Inr (Inr (unat (sizel d)), d, s4) \<and> working hw p fs (kptr f) 4096 s1 s4
    \<and> disk s4 = (disk s2)(p := put_bytes (byte_pos fs (unat (ref_block (disk s2 p) fs d 0)) 0) (split_block bs j k name) (disk s2 p))"
proof -
  let ?z = "unat (sizel d)" and ?t = "entry_need (nlen bs j)" and ?e = "esize bs j - entry_need (nlen bs j)"
  let ?s3 = "s2\<lparr>mem := split_entry (kptr f) (of_nat j) ?t ?e k name (mem s2)\<rparr>"
  have m: "mounted hw p fs ?s3" using w by (simp add: working_def)
  then have z4: "?z \<le> 4096" using fs_ok_bounds(2)[of fs] z(2) by (simp add: mounted_def)
  have len: "length bs = ?z" using buf by (metis length_load_bytes)
  note lay = room_layout[OF room(1), unfolded len, OF room(2) z4]
  have fr: "free_frames ?s3 = free_frames s1" using w by (simp add: working_def free_frames_def)
  then have src: "\<forall>y<?z. unat (direct (kptr f) + of_nat y) div 4096 \<notin> free_frames ?s3" using kptr_page[OF f(1)] z4 f(2) by simp
  from write_one_block[OF m wf z z src] obtain s4 where
    s4: "inode_write hw d 0 ?z (kptr f) ?s3 = Inr (Inr ?z, d, s4)" "mounted hw p fs s4" "same_kernel ?s3 s4"
      "disk s4 = (disk s2)(p := put_bytes (byte_pos fs (unat (ref_block (disk s2 p) fs d 0)) 0) (split_block bs j k name) (disk s2 p))"
    using split_entry_bytes[OF buf f(1) z4 name room] by auto
  have "mem s4 x = mem s1 x" if x: "unat x div 4096 \<notin> free_frames s1" "4096 \<le> unat (x - direct (kptr f))" for x
  proof -
    have "mem s4 x = mem ?s3 x" using s4(3) x(1) fr by (simp add: same_kernel_def)
    also have "\<dots> = mem s2 x" using split_entry_outside[OF f(1) _ _ name x(2), of j ?t ?e k] lay z4 by simp
    also have "\<dots> = mem s1 x" using w x z4 by (simp add: working_def)
    finally show ?thesis .
  qed
  then have "working hw p fs (kptr f) 4096 s1 s4" using s4(2,3) w fr by (simp add: working_def same_kernel_def frame_cnt_def)
  then show ?thesis using s4 by blast
qed

lemma add_entry_ok:
  assumes m: "mounted hw p fs s" and c: "2 \<le> card (free_frames s)" and d: "dir_ok (disk s p) fs d es"
    and name: "name \<noteq> []" "length name < 256"
  defines "bs \<equiv> file_block (disk s p) fs d 0 (unat (sizel d))"
  shows "case first_room bs (length name) 0 es of
      None \<Rightarrow> \<exists>s'. add_entry hw d k name s = Inr (Inl (), d, s') \<and> reads_only hw p fs s s'
    | Some j \<Rightarrow> \<exists>s'. add_entry hw d k name s = Inr (Inr (), d, s') \<and> mounted hw p fs s' \<and> same_kernel s s'
        \<and> disk s' = (disk s)(p := put_bytes (byte_pos fs (unat (ref_block (disk s p) fs d 0)) 0) (split_block bs j k name) (disk s p))"
proof -
  let ?z = "unat (sizel d)"
  have ok: "fs_ok fs" using m by (simp add: mounted_def)
  have z: "0 < ?z" "?z \<le> block_size fs" "?z \<le> 4096" using d fs_ok_bounds(2)[OF ok] by (auto simp: dir_ok_def)
  have wf: "inode_wf d" "is_directory d" and es: "dir_entries bs 0 es" using d by (simp_all add: dir_ok_def bs_def)
  have len: "length bs = ?z" by (simp add: bs_def file_block_def)
  from scratch_box[OF m c z(1,3)] obtain f tmp s1 where s1: "pmm_box_new ?z s = Inr (tmp, s1)" "box_data tmp = kptr f" "f < 2 ^ 35"
      "mounted hw p fs s1" "disk s1 = disk s" "f \<notin> free_frames s1"
      and dropb: "\<And>t k. k \<le> 4096 \<Longrightarrow> working hw p fs (kptr f) k s1 t \<Longrightarrow>
        \<exists>t'. pmm_box_drop tmp t = Inr t' \<and> mounted hw p fs t' \<and> same_kernel s t' \<and> disk t' = disk t" by blast
  from read_one_block[OF s1(4) wf(1) z(1,2), of "kptr f"] obtain s2 where s2: "inode_read hw d 0 ?z (kptr f) s1 = Inr (Inr ?z, s2)"
      "reading hw p fs (kptr f) ?z s1 s2" "load_bytes (mem s2) (direct (kptr f)) ?z = bs"
    unfolding s1(5) bs_def by blast
  have w2: "working hw p fs (kptr f) ?z s1 s2" "disk s2 = disk s" using s2(2) s1(5) by (simp_all add: reading_working)
  note loop = space_loop_finds[OF es s2(3) s1(3) z(3) name(2)]
  show ?thesis
  proof (cases "first_room bs (length name) 0 es")
    case None
    from dropb[OF z(3) w2(1)] obtain s3 where s3: "pmm_box_drop tmp s2 = Inr s3" "mounted hw p fs s3" "same_kernel s s3" "disk s3 = disk s2" by blast
    have "add_entry hw d k name s = Inr (Inl (), d, s3)"
      using None loop s1(1,2) s2(1) s3(1) wf(2) by (simp add: add_entry_def unwrap_ok_def)
    then show ?thesis using None s3(2-4) w2(2) by (simp add: reads_only_def)
  next
    case (Some j)
    note split = split_dir_entries[OF es Some, unfolded len, OF z(3) name(2), of k]
    have room: "has_room bs (length name) j" "j + esize bs j \<le> ?z" using split by simp_all
    from write_new_entry[OF wf(1) z(1,2) s1(3,6) w2(1) s2(3) name(1) room, of k] obtain s4 where
      s4: "inode_write hw d 0 ?z (kptr f) (s2\<lparr>mem := split_entry (kptr f) (of_nat j) (entry_need (nlen bs j)) (esize bs j - entry_need (nlen bs j)) k name (mem s2)\<rparr>)
          = Inr (Inr ?z, d, s4)" "working hw p fs (kptr f) 4096 s1 s4"
        "disk s4 = (disk s)(p := put_bytes (byte_pos fs (unat (ref_block (disk s p) fs d 0)) 0) (split_block bs j k name) (disk s p))"
      unfolding w2(2) by blast
    from dropb[OF _ s4(2)] obtain s5 where s5: "pmm_box_drop tmp s4 = Inr s5" "mounted hw p fs s5" "same_kernel s s5" "disk s5 = disk s4" by blast
    have "add_entry hw d k name s = Inr (Inr (), d, s5)"
      using Some loop s1(1,2) s2(1) s4(1) s5(1) wf(2) by (simp add: add_entry_def unwrap_ok_def Let_def)
    then show ?thesis using Some s5(2-4) s4(3) by auto
  qed
qed

text \<open>What the new list of entries leads to.\<close>

lemma find_with_new:
  "first_room bs k i es = Some j \<Longrightarrow> a \<noteq> 0 \<Longrightarrow> find_entry name es = None \<Longrightarrow>
    find_entry name (with_entry bs k i (a, as_bytes name) es) = Some a"
  by (induction bs k i es rule: first_room.induct) (auto simp: find_entry_def split: if_splits)

lemma find_with_other:
  "as_bytes w \<noteq> as_bytes name \<Longrightarrow> find_entry w (with_entry bs k i (a, as_bytes name) es) = find_entry w es"
  by (induction es arbitrary: i) (auto simp: find_entry_def split: if_splits)

lemma file_block_put:
  "length bs = n \<Longrightarrow> file_block (put_bytes (byte_pos fs (unat (ref_block c fs d 0)) 0) bs c) fs d 0 n = bs"
  using bytes_at_put[of "byte_pos fs (unat (direct_pointer d ! 0)) 0" bs c] by (auto simp: file_block_def ref_block_def)

lemma length_with_entry: "first_room bs k i es = Some j \<Longrightarrow> length (with_entry bs k i new es) = length es + 1"
  by (induction bs k i new es rule: with_entry.induct) (auto split: if_splits)

section \<open>Properties\<close>



text \<open>
  C19. Names added to a directory are found: in a directory of one block, \<^verbatim>\<open>add_entry\<close> ends. When no entry has enough room behind its name it
  returns the error and changes nothing. Otherwise the directory on the disk has one entry more, directly behind the first
  entry with room; the new name, if it was not there, now leads to the new inode, and every other name leads where it led before.
\<close>

theorem add_entry_found:
  assumes "mounted hw p fs s" and "2 \<le> card (free_frames s)" and "dir_ok (disk s p) fs d es"
    and "name \<noteq> []" "length name < 256" and "k \<noteq> 0" and "find_entry name es = None"
  shows "case first_room (file_block (disk s p) fs d 0 (unat (sizel d))) (length name) 0 es of
      None \<Rightarrow> \<exists>s'. add_entry hw d k name s = Inr (Inl (), d, s') \<and> disk s' = disk s
    | Some j \<Rightarrow> \<exists>s' es'. add_entry hw d k name s = Inr (Inr (), d, s') \<and> mounted hw p fs s' \<and> dir_ok (disk s' p) fs d es'
        \<and> length es' = length es + 1 \<and> find_entry name es' = Some k \<and> (\<forall>w. as_bytes w \<noteq> as_bytes name \<longrightarrow> find_entry w es' = find_entry w es)
        \<and> (\<exists>s''. search hw d name s' = Inr (Some k, s''))"
proof -
  let ?bs = "file_block (disk s p) fs d 0 (unat (sizel d))"
  note add = add_entry_ok[OF assms(1-5), of k]
  show ?thesis
  proof (cases "first_room ?bs (length name) 0 es")
    case None
    then show ?thesis using add by (auto simp: reads_only_def)
  next
    case (Some j)
    let ?es = "with_entry ?bs (length name) 0 (k, as_bytes name) es" and ?new = "split_block ?bs j k name"
    have z: "unat (sizel d) \<le> 4096" "dir_entries ?bs 0 es" using assms(1,3) fs_ok_bounds(2)[of fs] by (auto simp: dir_ok_def mounted_def)
    have len: "length ?bs = unat (sizel d)" by (simp add: file_block_def)
    note split = split_dir_entries[OF z(2) Some, unfolded len, OF z(1) assms(5), of k]
    then have lnew: "length ?new = unat (sizel d)" using split_block_layout(1)[of ?bs name j k] len z(1) by simp
    from add Some obtain s' where s': "add_entry hw d k name s = Inr (Inr (), d, s')" "mounted hw p fs s'" "same_kernel s s'"
      "disk s' p = put_bytes (byte_pos fs (unat (ref_block (disk s p) fs d 0)) 0) ?new (disk s p)" by auto
    have "file_block (disk s' p) fs d 0 (unat (sizel d)) = ?new" unfolding s'(4) by (rule file_block_put[OF lnew])
    then have dir: "dir_ok (disk s' p) fs d ?es" using split assms(3) by (simp add: dir_ok_def)
    have c: "2 \<le> card (free_frames s')" using assms(2) s'(3) by (simp add: same_kernel_def)
    have f: "find_entry name ?es = Some k" "\<forall>w. as_bytes w \<noteq> as_bytes name \<longrightarrow> find_entry w ?es = find_entry w es"
      using find_with_new[OF Some assms(6,7)] find_with_other by blast+
    have "length ?es = length es + 1" by (rule length_with_entry[OF Some])
    then show ?thesis using Some s'(1,2) dir f search_ok[OF s'(2) c dir, of name] by auto
  qed
qed

theorem add_entry_found_witness:
  "\<exists>s' s''. add_entry prompt_hba (disk_inode sample_tree sample_fs 2) 4 ''bc'' (sample_ext2 sample_tree)
       = Inr (Inr (), disk_inode sample_tree sample_fs 2, s')
     \<and> search prompt_hba (disk_inode sample_tree sample_fs 2) ''bc'' s' = Inr (Some 4, s'')"
proof -
  let ?d = "disk_inode sample_tree sample_fs 2" and ?s = "sample_ext2 sample_tree"
  have z: "unat (sizel ?d) = 1024" by (simp add: sample_root)
  have c: "2 \<le> card (free_frames ?s)" by (simp add: sample_ext2_free)
  have dir: "dir_ok (disk ?s 0) sample_fs ?d [(3, [97])]" using sample_dir_ok by (simp add: sample_ext2_disk)
  have b: "file_block (disk ?s 0) sample_fs ?d 0 1024 = bytes_at sample_tree 20480 1024"
    by (simp add: file_block_def ref_block_def sample_root byte_pos_def sample_ext2_disk)
  have "le_at 4 2 (bytes_at sample_tree 20480 1024) = (1024 :: u16)" "bytes_at sample_tree 20480 1024 ! 6 = 1"
    by (simp_all add: le_at_bytes_at) (simp_all add: bytes_at_def upt_rec sample_tree_def)
  then have "has_room (bytes_at sample_tree 20480 1024) 2 0" by (simp add: has_room_def esize_def nlen_def entry_need_def)
  then have r: "first_room (file_block (disk ?s 0) sample_fs ?d 0 1024) 2 0 [(3 :: u32, [97 :: u8])] = Some 0" unfolding b by simp
  have f: "find_entry ''bc'' [(3, [97])] = None" by (simp add: find_entry_def as_bytes_def)
  from add_entry_found[OF sample_ext2_mounted c dir _ _ _ f, of 4] r show ?thesis unfolding z by (auto simp: numeral_2_eq_2[symmetric])
qed

end
