(* ===== verification/Serial.thy ===== *)
theory Serial
  imports Kernel_Prelude
begin

text \<open>
  \<^verbatim>\<open>serial.rs\<close> on \<^verbatim>\<open>arch/x86_64/io.rs\<close>: characters sent over the first serial port. The device behind the I/O ports is the
  parameter \<open>io\<close>, with the two port instructions the code uses, on a state of its own. Waiting for room in the transmitter is a
  partial function; a wait that does not end is the fault \<open>Hangs\<close>. A character is its Unicode number.
\<close>

section \<open>Ports and the writer\<close>

record 'd port_io =
  io_outb :: "u16 \<Rightarrow> u8 \<Rightarrow> 'd \<Rightarrow> 'd"
  io_inb :: "u16 \<Rightarrow> 'd \<Rightarrow> u8 \<times> 'd"

definition COM1 :: u16 where "COM1 = 0x3f8"

definition serial_init :: "'d port_io \<Rightarrow> 'd \<Rightarrow> 'd" where
  "serial_init io d = fold (\<lambda>(port, byte). io_outb io port byte)
     [(COM1 + 1, 0x00), (COM1 + 3, 0x80), (COM1 + 0, 0x03), (COM1 + 1, 0x00), (COM1 + 3, 0x03), (COM1 + 2, 0xC7), (COM1 + 4, 0x0B)] d"

definition is_transmit_empty :: "'d port_io \<Rightarrow> 'd \<Rightarrow> u8 \<times> 'd" where
  "is_transmit_empty io d = (let (v, d) = io_inb io (COM1 + 5) d in (v AND 0x20, d))"

partial_function (option) wait_empty :: "'d port_io \<Rightarrow> 'd \<Rightarrow> 'd option" where
  "wait_empty io d = (let (v, d) = is_transmit_empty io d in if v = 0 then wait_empty io d else Some d)"

definition send_char :: "'d port_io \<Rightarrow> u32 \<Rightarrow> 'd \<Rightarrow> 'd res" where
  "send_char io c d = (case wait_empty io d of None \<Rightarrow> Inl Hangs | Some d \<Rightarrow> Inr (io_outb io COM1 (ucast c) d))"

fun serial_print :: "'d port_io \<Rightarrow> u32 list \<Rightarrow> 'd \<Rightarrow> 'd res" where
  "serial_print io [] d = Inr d"
| "serial_print io (c # msg) d = bnd (send_char io c d) (serial_print io msg)"

definition write_str :: "'d port_io \<Rightarrow> u32 list \<Rightarrow> 'd \<Rightarrow> 'd res" where
  "write_str = serial_print"

section \<open>What is sent\<close>

text \<open>
  The documented behaviour of the port that the code relies on, in terms of the bytes \<open>sent\<close> so far: reading the line status sends nothing
  and, asked often enough, it reports room for a byte; a byte written to the data port is sent.
\<close>

definition uart_ok :: "'d port_io \<Rightarrow> ('d \<Rightarrow> u8 list) \<Rightarrow> bool" where
  "uart_ok io sent \<longleftrightarrow>
     (\<forall>d. sent (snd (io_inb io (COM1 + 5) d)) = sent d)
     \<and> (\<forall>d. \<exists>n. fst (io_inb io (COM1 + 5) (((\<lambda>d. snd (io_inb io (COM1 + 5) d)) ^^ n) d)) AND 0x20 \<noteq> 0)
     \<and> (\<forall>d b. sent (io_outb io COM1 b d) = sent d @ [b])"

lemma wait_empty_ends:
  assumes same: "\<And>d. sent (snd (io_inb io (COM1 + 5) d)) = sent d"
    and "fst (io_inb io (COM1 + 5) (((\<lambda>d. snd (io_inb io (COM1 + 5) d)) ^^ n) d)) AND 0x20 \<noteq> 0"
  shows "\<exists>d'. wait_empty io d = Some d' \<and> sent d' = sent d"
  using assms(2)
proof (induction n arbitrary: d)
  case 0
  then show ?case using same[of d] by (subst wait_empty.simps) (auto simp: is_transmit_empty_def split: prod.splits)
next
  case (Suc n)
  let ?d = "snd (io_inb io (COM1 + 5) d)"
  show ?case
  proof (cases "fst (io_inb io (COM1 + 5) d) AND 0x20 = 0")
    case True
    have "\<exists>d'. wait_empty io ?d = Some d' \<and> sent d' = sent ?d" by (rule Suc.IH) (use Suc.prems in \<open>simp only: funpow_Suc_right comp_apply not_False_eq_True\<close>)
    moreover have "wait_empty io d = wait_empty io ?d"
      using True by (subst wait_empty.simps) (simp add: is_transmit_empty_def split_beta)
    ultimately show ?thesis using same by simp
  next
    case False
    then show ?thesis using same[of d] by (subst wait_empty.simps) (simp add: is_transmit_empty_def split_beta)
  qed
qed

lemma send_char_ok:
  assumes "uart_ok io sent"
  shows "\<exists>d'. send_char io c d = Inr d' \<and> sent d' = sent d @ [ucast c]"
proof -
  from assms obtain n where "fst (io_inb io (COM1 + 5) (((\<lambda>d. snd (io_inb io (COM1 + 5) d)) ^^ n) d)) AND 0x20 \<noteq> 0"
    unfolding uart_ok_def by blast
  then obtain d' where "wait_empty io d = Some d'" "sent d' = sent d"
    using wait_empty_ends[of sent io n d] assms unfolding uart_ok_def by blast
  then show ?thesis using assms by (simp add: send_char_def uart_ok_def)
qed


text \<open>A transmitter that is busy for one status read after every byte.\<close>

definition slow_uart :: "(bool \<times> u8 list) port_io" where
  "slow_uart = \<lparr>io_outb = \<lambda>port b (busy, bs). if port = COM1 then (True, bs @ [b]) else (busy, bs),
     io_inb = \<lambda>port (busy, bs). (if busy then 0 else 0x20, (False, bs))\<rparr>"


end
