(* ===== verification/Spinlock.thy ===== *)
theory Spinlock
  imports Kernel_Prelude
begin

text \<open>
  \<^verbatim>\<open>spinlock.rs\<close>: a lock made of one atomic flag. Threads are numbers; each is outside the lock, spinning in
  \<open>lock\<close>, or inside. Every atomic operation is one step, and the steps of the threads interleave freely.
\<close>

record 'v spinlock =
  locked :: bool
  guarded :: 'v

definition spinlock_new :: "'v \<Rightarrow> 'v spinlock" where
  "spinlock_new v = \<lparr>locked = False, guarded = v\<rparr>"

text \<open>\<^verbatim>\<open>compare_exchange(false, true)\<close>: whether it succeeded, and the new state.\<close>

definition lock_attempt :: "'v spinlock \<Rightarrow> bool \<times> 'v spinlock" where
  "lock_attempt l = (if \<not> locked l then (True, l\<lparr>locked := True\<rparr>) else (False, l))"

definition unlock :: "'v spinlock \<Rightarrow> 'v spinlock" where
  "unlock l = l\<lparr>locked := False\<rparr>"

datatype phase = Outside | Spinning | Inside

text \<open>
  The threads that use the lock: \<^verbatim>\<open>lock\<close> is called, tries again and again, and returns; the thread inside may change the
  guarded value and calls \<^verbatim>\<open>unlock\<close> when it leaves.
\<close>

inductive spin_step :: "'v spinlock \<times> (nat \<Rightarrow> phase) \<Rightarrow> 'v spinlock \<times> (nat \<Rightarrow> phase) \<Rightarrow> bool" where
  call: "ph t = Outside \<Longrightarrow> spin_step (l, ph) (l, ph(t := Spinning))"
| spin: "ph t = Spinning \<Longrightarrow> lock_attempt l = (False, l') \<Longrightarrow> spin_step (l, ph) (l', ph)"
| enter: "ph t = Spinning \<Longrightarrow> lock_attempt l = (True, l') \<Longrightarrow> spin_step (l, ph) (l', ph(t := Inside))"
| work: "ph t = Inside \<Longrightarrow> spin_step (l, ph) (l\<lparr>guarded := v\<rparr>, ph)"
| leave: "ph t = Inside \<Longrightarrow> spin_step (l, ph) (unlock l, ph(t := Outside))"

inductive_cases spin_stepE: "spin_step (l, ph) (l', ph')"

definition spin_inv :: "'v spinlock \<times> (nat \<Rightarrow> phase) \<Rightarrow> bool" where
  "spin_inv = (\<lambda>(l, ph). (\<forall>t u. ph t = Inside \<longrightarrow> ph u = Inside \<longrightarrow> t = u) \<and> (locked l \<longleftrightarrow> (\<exists>t. ph t = Inside)))"

lemma spin_step_inv:
  assumes "spin_step c c'" and "spin_inv c"
  shows "spin_inv c'"
  using assms
proof (induction rule: spin_step.induct)
  case (call ph t l)
  then have "(ph(t := Spinning)) u = Inside \<longleftrightarrow> ph u = Inside" for u by simp
  then show ?case using call by (auto simp only: spin_inv_def split_conv)
next
  case (enter ph t l l')
  then have "\<not> locked l" "l' = l\<lparr>locked := True\<rparr>" by (auto simp: lock_attempt_def split: if_splits)
  then show ?case using enter by (auto simp: spin_inv_def)
next
  case (leave ph t l)
  then show ?case by (auto simp: spin_inv_def unlock_def)
qed (auto simp: spin_inv_def lock_attempt_def split: if_splits)

text \<open>
  C32. Mutual exclusion: in every interleaving of any number of threads, from the new lock with every thread outside, at most one thread
  is inside at any time and the flag is set exactly when one is. The value changes only in a step of the thread inside.
  The lock is never lost: when the flag is clear every spinning thread can enter at once.
\<close>

theorem spinlock_mutual_exclusion:
  assumes "spin_step\<^sup>*\<^sup>* (spinlock_new v, \<lambda>_. Outside) (l, ph)"
  shows "(\<forall>t u. ph t = Inside \<longrightarrow> ph u = Inside \<longrightarrow> t = u) \<and> (locked l \<longleftrightarrow> (\<exists>t. ph t = Inside))
    \<and> (\<forall>l' ph'. spin_step (l, ph) (l', ph') \<longrightarrow> guarded l' \<noteq> guarded l \<longrightarrow> locked l)
    \<and> (\<forall>t. ph t = Spinning \<longrightarrow> \<not> locked l \<longrightarrow> (\<exists>l'. spin_step (l, ph) (l', ph(t := Inside))))"
proof -
  have "spin_inv (spinlock_new v, \<lambda>_. Outside)" by (simp add: spin_inv_def spinlock_new_def)
  with assms have inv: "spin_inv (l, ph)" by (induction rule: rtranclp_induct) (auto intro: spin_step_inv)
  moreover have "locked l" if "spin_step (l, ph) (l', ph')" "guarded l' \<noteq> guarded l" for l' ph'
    using that inv by (auto elim!: spin_stepE simp: lock_attempt_def unlock_def spin_inv_def split: if_splits)
  moreover have "\<exists>l'. spin_step (l, ph) (l', ph(t := Inside))" if "ph t = Spinning" "\<not> locked l" for t
    using spin_step.enter[of ph t l "l\<lparr>locked := True\<rparr>"] that by (auto simp: lock_attempt_def)
  ultimately show ?thesis by (auto simp: spin_inv_def)
qed

theorem spinlock_mutual_exclusion_witness:
  "\<exists>l ph. spin_step\<^sup>*\<^sup>* (spinlock_new (0 :: nat), \<lambda>_. Outside) (l, ph) \<and> ph 3 = Inside \<and> locked l \<and> (\<forall>u. ph u = Inside \<longrightarrow> u = 3)"
proof -
  let ?l = "spinlock_new (0 :: nat)"
  have s1: "spin_step (?l, \<lambda>_. Outside) (?l, (\<lambda>_. Outside)(3 := Spinning))" by (rule spin_step.call) simp
  have s2: "spin_step (?l, (\<lambda>_. Outside)(3 := Spinning)) (?l\<lparr>locked := True\<rparr>, (\<lambda>_. Outside)(3 := Spinning, 3 := Inside))"
    by (rule spin_step.enter) (simp_all add: lock_attempt_def spinlock_new_def)
  have "spin_step\<^sup>*\<^sup>* (?l, \<lambda>_. Outside) (?l\<lparr>locked := True\<rparr>, (\<lambda>_. Outside)(3 := Spinning, 3 := Inside))"
    using s1 s2 by (meson converse_rtranclp_into_rtranclp r_into_rtranclp)
  moreover have "((\<lambda>_. Outside)(3 := Spinning, 3 := Inside)) 3 = Inside" by simp
  ultimately obtain l ph where run: "spin_step\<^sup>*\<^sup>* (?l, \<lambda>_. Outside) (l, ph)" and inside: "ph 3 = Inside" by blast
  have "locked l" "\<forall>u. ph u = Inside \<longrightarrow> u = 3" using spinlock_mutual_exclusion[OF run] inside by blast+
  then show ?thesis using run inside by blast
qed

end
